(* ===== verification/Prelude.thy ===== *)
theory Prelude
  imports Complex_Main "HOL-Library.AList" "HOL-Library.Sublist"
begin

text \<open>
  Shared vocabulary of the development: the result type of fallible code, the JavaScript
  \<open>Map\<close> as an association list in insertion order, the string operations of ECMAScript that
  the sources call, and the lemma collections the component theories extend.
\<close>

named_theorems jmap_simps \<open>lookup and update laws of the insertion-ordered maps\<close>
named_theorems result_simps \<open>evaluation of the result combinators\<close>

section \<open>Names\<close>

type_synonym ulid = string
type_synonym actor_id = string
type_synonym sha = string

section \<open>Results\<close>

text \<open>
  A thrown exception is the left summand. The three classes the sources throw are kept apart;
  the string is the fixed part of the message (interpolated values are left out).
\<close>

datatype error =
    DomainError string
  | IntegrityError string
  | Error string
  | NonTermination

definition bindR :: "'e + 'a \<Rightarrow> ('a \<Rightarrow> 'e + 'b) \<Rightarrow> 'e + 'b" where
  "bindR m f = (case m of Inl e \<Rightarrow> Inl e | Inr x \<Rightarrow> f x)"

lemma bindR_Inl [simp, result_simps]: "bindR (Inl e) f = Inl e"
  by (simp add: bindR_def)

lemma bindR_Inr [simp, result_simps]: "bindR (Inr x) f = f x"
  by (simp add: bindR_def)

lemma bindR_eq_Inr: "bindR m f = Inr y \<longleftrightarrow> (\<exists>x. m = Inr x \<and> f x = Inr y)"
  by (cases m) auto

fun mapR :: "('a \<Rightarrow> 'e + 'b) \<Rightarrow> 'a list \<Rightarrow> 'e + 'b list" where
  "mapR f [] = Inr []"
| "mapR f (x # xs) = bindR (f x) (\<lambda>y. bindR (mapR f xs) (\<lambda>ys. Inr (y # ys)))"

lemma mapR_cong [fundef_cong]:
  "xs = ys \<Longrightarrow> (\<And>x. x \<in> set ys \<Longrightarrow> f x = g x) \<Longrightarrow> mapR f xs = mapR g ys"
  by (induction ys arbitrary: xs) auto

lemma mapR_length: "mapR f xs = Inr ys \<Longrightarrow> length ys = length xs"
  by (induction xs arbitrary: ys) (auto simp: bindR_eq_Inr)

lemma mapR_all: "(\<And>x. x \<in> set xs \<Longrightarrow> f x = Inr (g x)) \<Longrightarrow> mapR f xs = Inr (map g xs)"
  by (induction xs) auto

lemma mapR_Inr_iff: "mapR f xs = Inr ys \<longleftrightarrow> list_all2 (\<lambda>x y. f x = Inr y) xs ys"
  by (induction xs arbitrary: ys) (auto simp: bindR_eq_Inr list_all2_Cons1)

lemma mapR_ex: "(\<exists>ys. mapR f xs = Inr ys) \<longleftrightarrow> (\<forall>x \<in> set xs. \<exists>y. f x = Inr y)"
  by (induction xs) (auto simp: bindR_eq_Inr)

lemma mapR_transport:
  assumes "mapR f xs = Inr ys" and "\<And>x y. x \<in> set xs \<Longrightarrow> f x = Inr y \<Longrightarrow> g y = g' x"
  shows "mapR g ys = mapR g' xs"
  using assms
proof (induction xs arbitrary: ys)
  case (Cons x xs)
  then obtain y ys' where y: "f x = Inr y" and ys': "mapR f xs = Inr ys'" "ys = y # ys'"
    by (auto simp: bindR_eq_Inr)
  have "g y = g' x"
    using Cons.prems(2) y by simp
  moreover have "mapR g ys' = mapR g' xs"
    using Cons.IH[OF ys'(1)] Cons.prems(2) by simp
  ultimately show ?case by (simp add: ys'(2))
qed simp

lemma mapR_set: "mapR f xs = Inr ys \<Longrightarrow> y \<in> set ys \<Longrightarrow> \<exists>x \<in> set xs. f x = Inr y"
  by (induction xs arbitrary: ys) (auto simp: bindR_eq_Inr)

lemma list_all2_setD2: "list_all2 P xs ys \<Longrightarrow> y \<in> set ys \<Longrightarrow> \<exists>x \<in> set xs. P x y"
  by (induction rule: list_all2_induct) auto

lemma list_all2_setD1: "list_all2 P xs ys \<Longrightarrow> x \<in> set xs \<Longrightarrow> \<exists>y \<in> set ys. P x y"
  by (induction rule: list_all2_induct) auto

lemma if_Inl_Inr: "((if b then Inl e else r) = Inr y) \<longleftrightarrow> \<not> b \<and> r = Inr y"
  by simp

section \<open>The insertion-ordered Map\<close>

text \<open>
  A JavaScript \<open>Map\<close> iterates in insertion order and \<open>set\<close> on a present key keeps its
  position: exactly \<^const>\<open>AList.update\<close>. \<open>jmodify\<close> is a mutation of the object
  stored under a key.
\<close>

type_synonym ('k, 'v) jmap = "('k \<times> 'v) list"

definition jget :: "('k, 'v) jmap \<Rightarrow> 'k \<Rightarrow> 'v option" where
  "jget m k = map_of m k"

definition jset :: "'k \<Rightarrow> 'v \<Rightarrow> ('k, 'v) jmap \<Rightarrow> ('k, 'v) jmap" where
  "jset k v m = AList.update k v m"

definition jhas :: "('k, 'v) jmap \<Rightarrow> 'k \<Rightarrow> bool" where
  "jhas m k \<longleftrightarrow> jget m k \<noteq> None"

definition jvals :: "('k, 'v) jmap \<Rightarrow> 'v list" where
  "jvals m = map snd m"

definition jkeys :: "('k, 'v) jmap \<Rightarrow> 'k list" where
  "jkeys m = map fst m"

definition jmodify :: "'k \<Rightarrow> ('v \<Rightarrow> 'v) \<Rightarrow> ('k, 'v) jmap \<Rightarrow> ('k, 'v) jmap" where
  "jmodify k f m = map (\<lambda>(k', v). (k', if k' = k then f v else v)) m"

lemma jget_empty [simp, jmap_simps]: "jget [] k = None"
  by (simp add: jget_def)

lemma jget_jset [simp, jmap_simps]: "jget (jset k v m) k' = (if k' = k then Some v else jget m k')"
  by (simp add: jget_def jset_def update_conv')

lemma jget_jmodify [simp, jmap_simps]:
  "jget (jmodify k f m) k' = (if k' = k then map_option f (jget m k') else jget m k')"
  by (induction m) (auto simp: jget_def jmodify_def)

lemma jkeys_jmodify [simp, jmap_simps]: "jkeys (jmodify k f m) = jkeys m"
  by (simp add: jkeys_def jmodify_def comp_def case_prod_unfold)

lemma jkeys_jset_present: "k \<in> set (jkeys m) \<Longrightarrow> jkeys (jset k v m) = jkeys m"
  unfolding jset_def jkeys_def by (induction m) auto

lemma jset_new: "jget m k = None \<Longrightarrow> jset k v m = m @ [(k, v)]"
  unfolding jset_def jget_def by (induction m) (auto split: if_splits)

lemma jkeys_jset: "set (jkeys (jset k v m)) = insert k (set (jkeys m))"
  by (simp add: jkeys_def jset_def dom_update)

lemma distinct_jkeys_jset [simp]: "distinct (jkeys m) \<Longrightarrow> distinct (jkeys (jset k v m))"
  by (simp add: jkeys_def jset_def distinct_update)

lemma jget_eq_None_iff: "jget m k = None \<longleftrightarrow> k \<notin> set (jkeys m)"
  by (simp add: jget_def jkeys_def map_of_eq_None_iff)

lemma jhas_iff: "jhas m k \<longleftrightarrow> k \<in> set (jkeys m)"
  by (simp add: jhas_def jget_eq_None_iff)

lemma jget_mem: "jget m k = Some v \<Longrightarrow> (k, v) \<in> set m"
  by (simp add: jget_def map_of_SomeD)

lemma jget_mem_iff: "distinct (jkeys m) \<Longrightarrow> jget m k = Some v \<longleftrightarrow> (k, v) \<in> set m"
  by (simp add: jget_def jkeys_def)

lemma jget_jvals: "jget m k = Some v \<Longrightarrow> v \<in> set (jvals m)"
  by (force dest: jget_mem simp: jvals_def)

lemma jhas_jset [simp]: "jhas (jset k v m) k' \<longleftrightarrow> k' = k \<or> jhas m k'"
  by (simp add: jhas_def)

lemma jhas_jmodify [simp]: "jhas (jmodify k f m) k' = jhas m k'"
  by (simp add: jhas_def)

text \<open>Maps whose values carry their own key, as every map of the materialised state does.\<close>

definition keyed :: "('v \<Rightarrow> 'k) \<Rightarrow> ('k, 'v) jmap \<Rightarrow> bool" where
  "keyed key m \<longleftrightarrow> distinct (jkeys m) \<and> (\<forall>(k, v) \<in> set m. key v = k)"

definition rebuild :: "('v \<Rightarrow> 'k) \<Rightarrow> 'v list \<Rightarrow> ('k, 'v) jmap" where
  "rebuild key vs = fold (\<lambda>v m. jset (key v) v m) vs []"

lemma keyed_empty [simp]: "keyed key []"
  by (simp add: keyed_def jkeys_def)

lemma keyed_jset [simp]: "keyed key m \<Longrightarrow> key v = k \<Longrightarrow> keyed key (jset k v m)"
proof -
  assume m: "keyed key m" and v: "key v = k"
  have "(k', w) \<in> set (AList.update k v m) \<Longrightarrow> k' = k \<and> w = v \<or> (k', w) \<in> set m" for k' w
    by (induction m) (auto split: if_splits)
  with m v show ?thesis
    by (fastforce simp: keyed_def jset_def jkeys_def distinct_update)
qed

lemma keyed_jmodify [simp]:
  "keyed key m \<Longrightarrow> (\<And>v. key (f v) = key v) \<Longrightarrow> keyed key (jmodify k f m)"
  by (force simp: keyed_def jmodify_def jkeys_def comp_def case_prod_unfold)

lemma keyed_jget: "keyed key m \<Longrightarrow> jget m k = Some v \<Longrightarrow> key v = k"
  by (auto simp: keyed_def dest: jget_mem)

lemma rebuild_append:
  "keyed key (acc @ m) \<Longrightarrow> fold (\<lambda>v m. jset (key v) v m) (jvals m) acc = acc @ m"
proof (induction m arbitrary: acc)
  case Nil
  then show ?case by (simp add: jvals_def)
next
  case (Cons p m)
  obtain k v where p: "p = (k, v)" by (cases p)
  from Cons.prems p have kv: "key v = k" and new: "jget acc k = None"
    by (auto simp: keyed_def jget_eq_None_iff jkeys_def)
  have "fold (\<lambda>v m. jset (key v) v m) (jvals (p # m)) acc
      = fold (\<lambda>v m. jset (key v) v m) (jvals m) (acc @ [p])"
    using kv new p by (simp add: jvals_def jset_new)
  also have "\<dots> = (acc @ [p]) @ m"
    using Cons.prems by (intro Cons.IH) simp
  finally show ?case by simp
qed

lemma rebuild_jvals: "keyed key m \<Longrightarrow> rebuild key (jvals m) = m"
  using rebuild_append[of key "[]" m] by (simp add: rebuild_def)

section \<open>Strings\<close>

text \<open>
  The characters are the code units U+0000 to U+00FF. \<open>js_space\<close> is the white space and line
  terminators that \<open>String.prototype.trim\<close> strips, in that range.
\<close>

definition js_space :: "char \<Rightarrow> bool" where
  "js_space c \<longleftrightarrow> of_char c \<in> {9, 10, 11, 12, 13, 32, 160 :: nat}"

definition js_trim :: "string \<Rightarrow> string" where
  "js_trim s = rev (dropWhile js_space (rev (dropWhile js_space s)))"

definition blank :: "string \<Rightarrow> bool" where
  "blank s \<longleftrightarrow> js_trim s = []"

lemma js_trim_Nil [simp]: "js_trim [] = []"
  by (simp add: js_trim_def)

lemma blank_iff: "blank s \<longleftrightarrow> (\<forall>c \<in> set s. js_space c)"
proof
  assume "blank s"
  then have all: "\<forall>c \<in> set (dropWhile js_space s). js_space c"
    by (simp add: blank_def js_trim_def)
  have "dropWhile js_space s = []"
  proof (rule ccontr)
    assume ne: "dropWhile js_space s \<noteq> []"
    then have "js_space (hd (dropWhile js_space s))"
      using all by simp
    with ne show False by (metis hd_dropWhile)
  qed
  then show "\<forall>c \<in> set s. js_space c"
    by simp
next
  assume "\<forall>c \<in> set s. js_space c"
  then show "blank s"
    by (auto simp: blank_def js_trim_def dest: set_dropWhileD)
qed

lemma dropWhile_idem_hd: "xs = [] \<or> \<not> P (hd xs) \<Longrightarrow> dropWhile P xs = xs"
  by (cases xs) auto

lemma js_trim_idem [simp]: "js_trim (js_trim s) = js_trim s"
proof -
  let ?a = "dropWhile js_space s"
  let ?b = "rev (dropWhile js_space (rev ?a))"
  have "?b = [] \<or> \<not> js_space (hd ?b)"
  proof (cases "?b = []")
    case False
    obtain zs where "rev ?a = zs @ rev ?b"
      by (metis rev_rev_ident takeWhile_dropWhile_id)
    then have "?a = ?b @ rev zs"
      by (metis rev_append rev_rev_ident)
    with False have hd: "hd ?a = hd ?b" and ne: "?a \<noteq> []"
      by (metis hd_append2, metis append_is_Nil_conv)
    show ?thesis
      using hd_dropWhile[OF ne] hd by simp
  qed simp
  then have "dropWhile js_space ?b = ?b"
    by (rule dropWhile_idem_hd)
  then have "js_trim ?b = ?b"
    by (simp add: js_trim_def dropWhile_idem_hd)
  then show ?thesis
    by (simp add: js_trim_def)
qed

end
