(* ===== verification/Canonical.thy ===== *)
theory Canonical
  imports Prelude "HOL-Library.List_Lexorder" "HOL-Library.Char_ord"
    "HOL-Library.Multiset"
begin

text \<open>
  \<open>packages/track/src/events/canonical.ts\<close>: JavaScript values, their one-pass inert copy
  (\<open>materialize\<close>), the deterministic JSON text (\<open>canonicalize\<close>) and the content hash. The
  host supplies SHA-256 (node:crypto) and the decimal text of a finite number
  (\<open>Number.prototype.toString\<close>): both are the fields of \<open>host\<close>, a parameter of what uses them.
\<close>

section \<open>JavaScript values\<close>

text \<open>
  An object carries its prototype and its own properties in order. \<open>Accessor\<close> stands for a
  property defined by a getter or setter and \<open>Hole\<close> for a missing array index: they occur as the
  content of a property or index only. An array has no own property beside its indices.
\<close>

datatype jsnum = Fin rat | NaN | PosInf | NegInf

datatype js_proto = ObjectProto | NullProto | OtherProto string

datatype js =
    Undef
  | Null
  | Bool bool
  | Num jsnum
  | Str string
  | Arr "js list"
  | Obj js_proto "(string \<times> js) list"
  | Func
  | Symbol
  | BigInt
  | Accessor
  | Hole

record host =
  sha256 :: "string \<Rightarrow> string"
  num_str :: "rat \<Rightarrow> string"

definition js_prop :: "js \<Rightarrow> string \<Rightarrow> js" where
  "js_prop v k = (case v of Obj _ fs \<Rightarrow> (case map_of fs k of Some x \<Rightarrow> x | None \<Rightarrow> Undef) | _ \<Rightarrow> Undef)"

lemma size_js_elem [termination_simp]: "x \<in> set xs \<Longrightarrow> size x < Suc (size_list size xs)"
  by (induction xs) auto

lemma size_js_field [termination_simp]:
  "(k, v) \<in> set fs \<Longrightarrow> size v < Suc (size_list (size_prod (\<lambda>_. 0) size) fs)"
  by (induction fs) auto

section \<open>The inert copy\<close>

definition rejectExoticContainer :: "js \<Rightarrow> error + unit" where
  "rejectExoticContainer v =
     (case v of
        Obj (OtherProto _) fs \<Rightarrow> Inl (Error ''canonicalize: non-plain object is not supported'')
      | Obj _ fs \<Rightarrow>
          (if map_of fs ''toJSON'' = Some Func
           then Inl (Error ''canonicalize: value with an own toJSON is not supported'')
           else Inr ())
      | _ \<Rightarrow> Inr ())"

fun eachArrayIndex :: "(js \<Rightarrow> error + 'a) \<Rightarrow> js \<Rightarrow> error + 'a" where
  "eachArrayIndex visit Hole = Inl (Error ''canonicalize: sparse arrays are not supported'')"
| "eachArrayIndex visit Accessor = Inl (Error ''canonicalize: accessor array index is not supported'')"
| "eachArrayIndex visit x = visit x"

lemma eachArrayIndex_cong [fundef_cong]:
  "x = y \<Longrightarrow> f y = g y \<Longrightarrow> eachArrayIndex f x = eachArrayIndex g y"
  by (cases y) auto

fun materialize :: "js \<Rightarrow> error + js" where
  "materialize Null = Inr Null"
| "materialize (Arr xs) =
     bindR (mapR (\<lambda>x. eachArrayIndex materialize x) xs) (\<lambda>ys. Inr (Arr ys))"
| "materialize (Obj p fs) =
     bindR (rejectExoticContainer (Obj p fs)) (\<lambda>_.
     bindR (mapR (\<lambda>(k, v).
        if v = Accessor then Inl (Error ''canonicalize: accessor property is not supported'')
        else if v = Undef then Inr (k, Undef)
        else bindR (materialize v) (\<lambda>w. Inr (k, w))) fs) (\<lambda>out.
     Inr (Obj NullProto (filter (\<lambda>(k, v). v \<noteq> Undef) out))))"
| "materialize (Num (Fin q)) = Inr (Num (Fin q))"
| "materialize (Num n) = Inl (Error ''canonicalize: non-finite numbers are not supported'')"
| "materialize (Str s) = Inr (Str s)"
| "materialize (Bool b) = Inr (Bool b)"
| "materialize v = Inl (Error ''canonicalize: unsupported value type'')"

section \<open>The canonical text\<close>

text \<open>\<open>JSON.stringify\<close> of a string: the two quoted characters, the short escapes, \<open>\u00xx\<close>
  for the other control characters.\<close>

definition hex_digit :: "nat \<Rightarrow> char" where
  "hex_digit n = ''0123456789abcdef'' ! (n mod 16)"

definition escape_char :: "char \<Rightarrow> string" where
  "escape_char c =
     (let n = of_char c :: nat in
      if n = 34 then [CHR 0x5C, CHR 0x22]
      else if n = 92 then [CHR 0x5C, CHR 0x5C]
      else if n = 8 then [CHR 0x5C, CHR ''b'']
      else if n = 9 then [CHR 0x5C, CHR ''t'']
      else if n = 10 then [CHR 0x5C, CHR ''n'']
      else if n = 12 then [CHR 0x5C, CHR ''f'']
      else if n = 13 then [CHR 0x5C, CHR ''r'']
      else if n < 32 then [CHR 0x5C, CHR ''u'', CHR ''0'', CHR ''0'', hex_digit (n div 16), hex_digit n]
      else [c])"

definition quote_string :: "string \<Rightarrow> string" where
  "quote_string s = CHR 0x22 # concat (map escape_char s) @ [CHR 0x22]"

fun join :: "string list \<Rightarrow> string" where
  "join [] = []"
| "join [x] = x"
| "join (x # y # xs) = x @ CHR '','' # join (y # xs)"

fun canonicalString :: "host \<Rightarrow> js \<Rightarrow> error + string" where
  "canonicalString h Null = Inr ''null''"
| "canonicalString h (Arr xs) =
     bindR (mapR (\<lambda>x. eachArrayIndex (canonicalString h) x) xs)
       (\<lambda>members. Inr (CHR ''['' # join members @ '']''))"
| "canonicalString h (Obj p fs) =
     bindR (rejectExoticContainer (Obj p fs)) (\<lambda>_.
     if Accessor \<in> set (map snd fs)
     then Inl (Error ''canonicalize: accessor property is not supported'')
     else bindR (mapR (\<lambda>(k, r). bindR r (\<lambda>s. Inr (quote_string k @ CHR '':'' # s)))
                  (sort_key fst (map (\<lambda>(k, v). (k, canonicalString h v))
                    (filter (\<lambda>(k, v). v \<noteq> Undef) fs))))
            (\<lambda>members. Inr (CHR ''{'' # join members @ ''}'')))"
| "canonicalString h (Num (Fin q)) = Inr (num_str h q)"
| "canonicalString h (Num n) = Inl (Error ''canonicalize: non-finite numbers are not supported'')"
| "canonicalString h (Str s) = Inr (quote_string s)"
| "canonicalString h (Bool b) = Inr (if b then ''true'' else ''false'')"
| "canonicalString h v = Inl (Error ''canonicalize: unsupported value type'')"

definition canonicalize :: "host \<Rightarrow> js \<Rightarrow> error + string" where
  "canonicalize h v = canonicalString h v"

definition computeHash :: "host \<Rightarrow> js \<Rightarrow> error + string" where
  "computeHash h v = bindR (canonicalize h v) (\<lambda>s. Inr (''sha256:'' @ sha256 h s))"

section \<open>Inert data\<close>

text \<open>What \<open>JSON.parse\<close> can return and \<open>materialize\<close> returns: finite numbers, plain objects
  with distinct keys and no undefined member.\<close>

fun inert :: "js \<Rightarrow> bool" where
  "inert Null = True"
| "inert (Bool b) = True"
| "inert (Str s) = True"
| "inert (Num n) = (\<exists>q. n = Fin q)"
| "inert (Arr xs) = list_all inert xs"
| "inert (Obj p fs) =
     ((p = ObjectProto \<or> p = NullProto) \<and> distinct (map fst fs) \<and> list_all (\<lambda>(k, v). inert v) fs)"
| "inert v = False"

fun wf_js :: "js \<Rightarrow> bool" where
  "wf_js (Arr xs) = list_all wf_js xs"
| "wf_js (Obj p fs) = (distinct (map fst fs) \<and> list_all (\<lambda>(k, v). wf_js v) fs)"
| "wf_js v = True"

lemma eachArrayIndex_Inr:
  "eachArrayIndex f x = Inr y \<longleftrightarrow> x \<noteq> Hole \<and> x \<noteq> Accessor \<and> f x = Inr y"
  by (cases x) auto

lemma eachArrayIndex_plain: "x \<noteq> Hole \<Longrightarrow> x \<noteq> Accessor \<Longrightarrow> eachArrayIndex f x = f x"
  by (cases x) auto

lemma rejectExoticContainer_Inr:
  "rejectExoticContainer (Obj p fs) = Inr u \<longleftrightarrow>
     (p = ObjectProto \<or> p = NullProto) \<and> map_of fs ''toJSON'' \<noteq> Some Func"
  by (cases p) (auto simp: rejectExoticContainer_def)

lemma materialize_data:
  "materialize v = Inr w \<Longrightarrow> w \<notin> {Undef, Func, Symbol, BigInt, Accessor, Hole}"
  by (cases v rule: materialize.cases) (auto simp: bindR_eq_Inr)

text \<open>The fields of the copy, read off the fields of the original.\<close>

definition copies_field :: "string \<times> js \<Rightarrow> string \<times> js \<Rightarrow> bool" where
  "copies_field f g \<longleftrightarrow> fst g = fst f \<and> snd f \<noteq> Accessor \<and>
     (if snd f = Undef then snd g = Undef else materialize (snd f) = Inr (snd g))"

lemma materialize_Obj_iff:
  "materialize (Obj p fs) = Inr w \<longleftrightarrow>
     (p = ObjectProto \<or> p = NullProto) \<and> map_of fs ''toJSON'' \<noteq> Some Func \<and>
     (\<exists>out. list_all2 copies_field fs out \<and> w = Obj NullProto (filter (\<lambda>(k, v). v \<noteq> Undef) out))"
proof -
  have field: "(\<lambda>(k, v).
        if v = Accessor then Inl (Error ''canonicalize: accessor property is not supported'')
        else if v = Undef then Inr (k, Undef)
        else bindR (materialize v) (\<lambda>w. Inr (k, w))) f = Inr g \<longleftrightarrow> copies_field f g" for f g
    by (cases f; cases g) (auto simp: copies_field_def bindR_eq_Inr)
  show ?thesis
    by (auto simp: bindR_eq_Inr rejectExoticContainer_Inr mapR_Inr_iff field)
qed

lemma copies_field_keys:
  "list_all2 copies_field fs out \<Longrightarrow> map fst out = map fst fs"
  by (induction rule: list_all2_induct) (auto simp: copies_field_def)

lemma materialize_inert: "materialize v = Inr w \<Longrightarrow> wf_js v \<Longrightarrow> inert w"
proof (induction v arbitrary: w)
  case (Num n)
  then show ?case by (cases n) auto
next
  case (Arr xs)
  then obtain ys where ys: "mapR (\<lambda>x. eachArrayIndex materialize x) xs = Inr ys" and w: "w = Arr ys"
    by (auto simp: bindR_eq_Inr)
  have "inert y" if "y \<in> set ys" for y
    using mapR_set[OF ys that] Arr by (auto simp: eachArrayIndex_Inr list_all_iff)
  with w show ?case by (simp add: list_all_iff)
next
  case (Obj p fs)
  from Obj.prems(1) obtain out where out: "list_all2 copies_field fs out"
    and w: "w = Obj NullProto (filter (\<lambda>(k, v). v \<noteq> Undef) out)"
    by (simp only: materialize_Obj_iff) blast
  have dist: "distinct (map fst out)"
    using Obj.prems(2) copies_field_keys[OF out] by simp
  have "inert v" if kv: "(k, v) \<in> set out" "v \<noteq> Undef" for k v
  proof -
    from list_all2_setD2[OF out kv(1)] obtain f where f: "f \<in> set fs" "copies_field f (k, v)"
      by blast
    then have "materialize (snd f) = Inr v"
      using kv(2) by (auto simp: copies_field_def split: if_splits)
    moreover have "wf_js (snd f)"
      using Obj.prems(2) f(1) by (auto simp: list_all_iff)
    moreover have "snd f \<in> Basic_BNFs.snds f"
      by (cases f) simp
    ultimately show "inert v" using Obj.IH f(1) by blast
  qed
  moreover have "distinct (map fst (filter (\<lambda>(k, v). v \<noteq> Undef) out))"
    using dist by (simp add: distinct_map_filter)
  ultimately show ?case by (auto simp: w list_all_iff)
qed auto

section \<open>Hashed form and persisted form agree\<close>

lemma materialize_canonical:
  "materialize v = Inr w \<Longrightarrow> canonicalString h w = canonicalString h v"
proof (induction v arbitrary: w)
  case (Num n)
  then show ?case by (cases n) auto
next
  case (Arr xs)
  then obtain ys where ys: "mapR (\<lambda>x. eachArrayIndex materialize x) xs = Inr ys" and w: "w = Arr ys"
    by (auto simp: bindR_eq_Inr)
  have "mapR (\<lambda>x. eachArrayIndex (canonicalString h) x) ys
      = mapR (\<lambda>x. eachArrayIndex (canonicalString h) x) xs"
    using ys
  proof (rule mapR_transport)
    fix x y
    assume x: "x \<in> set xs" and "eachArrayIndex materialize x = Inr y"
    then have plain: "x \<noteq> Hole" "x \<noteq> Accessor" and y: "materialize x = Inr y"
      by (auto simp: eachArrayIndex_Inr)
    from materialize_data[OF y] have "y \<noteq> Hole" "y \<noteq> Accessor" by auto
    with plain Arr.IH[OF x y]
    show "eachArrayIndex (canonicalString h) y = eachArrayIndex (canonicalString h) x"
      by (simp add: eachArrayIndex_plain)
  qed
  with w show ?case by simp
next
  case (Obj p fs)
  from Obj.prems(1) obtain out where out: "list_all2 copies_field fs out"
    and w: "w = Obj NullProto (filter (\<lambda>(k, v). v \<noteq> Undef) out)"
    and rej: "rejectExoticContainer (Obj p fs) = Inr ()"
    by (simp only: materialize_Obj_iff rejectExoticContainer_Inr) blast
  define out' where "out' = filter (\<lambda>(k, v). v \<noteq> Undef) out"
  have data: "snd g \<notin> {Undef, Func, Symbol, BigInt, Accessor, Hole}" if "g \<in> set out'" for g
    using that list_all2_setD2[OF out, of g]
    by (auto simp: out'_def copies_field_def split: if_splits dest: materialize_data)
  have acc: "Accessor \<notin> set (map snd fs)"
  proof
    assume "Accessor \<in> set (map snd fs)"
    then obtain f where f: "f \<in> set fs" "snd f = Accessor"
      by (auto simp: image_iff)
    from list_all2_setD1[OF out f(1)] obtain g where "copies_field f g" by blast
    with f(2) show False by (simp add: copies_field_def)
  qed
  have rej': "rejectExoticContainer (Obj NullProto out') = Inr ()"
    using data[of "(''toJSON'', Func)"] by (auto simp: rejectExoticContainer_Inr dest!: map_of_SomeD)
  have acc': "Accessor \<notin> set (map snd out')"
    by (auto simp: image_iff dest!: data)
  have members: "map (\<lambda>(k, v). (k, canonicalString h v)) (filter (\<lambda>(k, v). v \<noteq> Undef) out')
      = map (\<lambda>(k, v). (k, canonicalString h v)) (filter (\<lambda>(k, v). v \<noteq> Undef) fs)"
    unfolding out'_def using out Obj.IH
  proof (induction rule: list_all2_induct)
    case (Cons f fs g out)
    obtain k v k' v' where fg: "f = (k, v)" "g = (k', v')" by (cases f; cases g)
    have rest: "map (\<lambda>(k, v). (k, canonicalString h v))
          (filter (\<lambda>(k, v). v \<noteq> Undef) (filter (\<lambda>(k, v). v \<noteq> Undef) out))
        = map (\<lambda>(k, v). (k, canonicalString h v)) (filter (\<lambda>(k, v). v \<noteq> Undef) fs)"
      by (rule Cons.IH) (use Cons.prems in auto)
    have "canonicalString h v' = canonicalString h v" if "v \<noteq> Undef"
      using Cons.prems[of f v v'] Cons.hyps(1) that fg by (auto simp: copies_field_def)
    moreover have "v' = Undef \<longleftrightarrow> v = Undef" "k' = k"
      using Cons.hyps(1) fg materialize_data[of v v']
      by (auto simp: copies_field_def split: if_splits)
    ultimately show ?case using rest by (auto simp: fg)
  qed simp
  show ?case
    unfolding w out'_def[symmetric]
    by (simp only: canonicalString.simps rej rej' acc acc' members)
qed auto

lemma materialize_Inr_iff:
  "(\<exists>w. materialize v = Inr w) \<longleftrightarrow> (\<exists>s. canonicalString h v = Inr s)"
proof (induction v)
  case (Num n)
  then show ?case by (cases n) auto
next
  case (Arr xs)
  have "(\<exists>w. materialize (Arr xs) = Inr w) \<longleftrightarrow> (\<exists>ys. mapR (\<lambda>x. eachArrayIndex materialize x) xs = Inr ys)"
    by (auto simp: bindR_eq_Inr)
  also have "\<dots> \<longleftrightarrow> (\<forall>x \<in> set xs. \<exists>y. eachArrayIndex materialize x = Inr y)"
    by (rule mapR_ex)
  also have "\<dots> \<longleftrightarrow> (\<forall>x \<in> set xs. \<exists>y. eachArrayIndex (canonicalString h) x = Inr y)"
    using Arr.IH by (simp add: eachArrayIndex_Inr)
  also have "\<dots> \<longleftrightarrow> (\<exists>ys. mapR (\<lambda>x. eachArrayIndex (canonicalString h) x) xs = Inr ys)"
    by (rule mapR_ex[symmetric])
  also have "\<dots> \<longleftrightarrow> (\<exists>s. canonicalString h (Arr xs) = Inr s)"
    by (auto simp: bindR_eq_Inr)
  finally show ?case .
next
  case (Obj p fs)
  let ?rej = "\<exists>u. rejectExoticContainer (Obj p fs) = Inr u"
  have "(\<exists>w. materialize (Obj p fs) = Inr w) \<longleftrightarrow> ?rej \<and> (\<forall>f \<in> set fs. \<exists>g. copies_field f g)"
  proof -
    have "(\<exists>out. list_all2 copies_field fs out) \<longleftrightarrow> (\<forall>f \<in> set fs. \<exists>g. copies_field f g)"
      by (induction fs) (auto simp: list_all2_Cons1)
    then show ?thesis
      by (simp only: materialize_Obj_iff rejectExoticContainer_Inr) blast
  qed
  also have "\<dots> \<longleftrightarrow> ?rej \<and> (\<forall>(k, v) \<in> set fs. v \<noteq> Accessor \<and> (v \<noteq> Undef \<longrightarrow> (\<exists>s. canonicalString h v = Inr s)))"
  proof -
    have "(\<exists>g. copies_field (k, v) g) \<longleftrightarrow> v \<noteq> Accessor \<and> (v \<noteq> Undef \<longrightarrow> (\<exists>s. canonicalString h v = Inr s))"
      if "(k, v) \<in> set fs" for k v
      using Obj.IH[of "(k, v)" v] that by (auto simp: copies_field_def)
    then show ?thesis by fastforce
  qed
  also have "\<dots> \<longleftrightarrow> (\<exists>s. canonicalString h (Obj p fs) = Inr s)"
  proof -
    let ?rs = "sort_key fst (map (\<lambda>(k, v). (k, canonicalString h v)) (filter (\<lambda>(k, v). v \<noteq> Undef) fs))"
    let ?m = "\<lambda>(k, r). bindR r (\<lambda>s. Inr (quote_string k @ CHR '':'' # s))"
    have "(\<exists>ms. mapR ?m ?rs = Inr ms) \<longleftrightarrow> (\<forall>x \<in> set ?rs. \<exists>y. ?m x = Inr y)"
      by (rule mapR_ex)
    also have "\<dots> \<longleftrightarrow> (\<forall>(k, v) \<in> set fs. v \<noteq> Undef \<longrightarrow> (\<exists>s. canonicalString h v = Inr s))"
      by (fastforce simp: bindR_eq_Inr)
    finally have ms: "(\<exists>ms. mapR ?m ?rs = Inr ms) \<longleftrightarrow>
        (\<forall>(k, v) \<in> set fs. v \<noteq> Undef \<longrightarrow> (\<exists>s. canonicalString h v = Inr s))" .
    have "(\<exists>s. canonicalString h (Obj p fs) = Inr s) \<longleftrightarrow>
        ?rej \<and> Accessor \<notin> set (map snd fs) \<and> (\<exists>ms. mapR ?m ?rs = Inr ms)"
      by (simp only: canonicalString.simps bindR_eq_Inr if_Inl_Inr) blast
    then show ?thesis unfolding ms by (auto simp: image_iff)
  qed
  finally show ?case .
qed auto

section \<open>The canonical text determines the value\<close>

text \<open>
  \<open>pp\<close> prints inert data in the order its fields have, \<open>norm_js\<close> sorts the fields by key at
  every level: \<open>canonicalize\<close> is their composition, and printing is injective and prefix-free.
\<close>

fun pp :: "host \<Rightarrow> js \<Rightarrow> string" where
  "pp h (Arr xs) = CHR ''['' # join (map (pp h) xs) @ '']''"
| "pp h (Obj p fs) = CHR ''{'' # join (map (\<lambda>(k, v). quote_string k @ CHR '':'' # pp h v) fs) @ ''}''"
| "pp h (Num (Fin q)) = num_str h q"
| "pp h (Str s) = quote_string s"
| "pp h (Bool b) = (if b then ''true'' else ''false'')"
| "pp h v = ''null''"

fun norm_js :: "js \<Rightarrow> js" where
  "norm_js (Arr xs) = Arr (map norm_js xs)"
| "norm_js (Obj p fs) = Obj ObjectProto (sort_key fst (map (\<lambda>(k, v). (k, norm_js v)) fs))"
| "norm_js v = v"

text \<open>What the argument needs of the host's number printing: distinct finite numbers have
  distinct texts, over the characters of a decimal literal.\<close>

definition num_chars :: "string" where
  "num_chars = ''0123456789+-.e''"

definition prints_numbers :: "host \<Rightarrow> bool" where
  "prints_numbers h \<longleftrightarrow>
     inj (num_str h) \<and> (\<forall>q. num_str h q \<noteq> [] \<and> set (num_str h q) \<subseteq> set num_chars)"

lemma insort_key_map:
  "insort_key fst (k, f v) (map (\<lambda>(k, v). (k, f v)) fs) = map (\<lambda>(k, v). (k, f v)) (insort_key fst (k, v) fs)"
  by (induction fs) auto

lemma sort_key_map_snd:
  "sort_key fst (map (\<lambda>(k, v). (k, f v)) fs) = map (\<lambda>(k, v). (k, f v)) (sort_key fst fs)"
  by (induction fs) (auto simp: insort_key_map)

lemma inert_not_special: "inert v \<Longrightarrow> v \<notin> {Undef, Func, Symbol, BigInt, Accessor, Hole}"
  by (cases v) auto

lemma canonicalString_inert: "inert v \<Longrightarrow> canonicalString h v = Inr (pp h (norm_js v))"
proof (induction v)
  case (Arr xs)
  have "mapR (\<lambda>x. eachArrayIndex (canonicalString h) x) xs = Inr (map (\<lambda>x. pp h (norm_js x)) xs)"
  proof (rule mapR_all)
    fix x assume x: "x \<in> set xs"
    with Arr.prems have "inert x" by (simp add: list_all_iff)
    with Arr.IH[OF x] inert_not_special[of x]
    show "eachArrayIndex (canonicalString h) x = Inr (pp h (norm_js x))"
      by (simp add: eachArrayIndex_plain)
  qed
  then show ?case by (simp add: comp_def)
next
  case (Obj p fs)
  have field: "inert v" "canonicalString h v = Inr (pp h (norm_js v))" if "(k, v) \<in> set fs" for k v
    using Obj.IH[of "(k, v)" v] Obj.prems that by (auto simp: list_all_iff)
  have rej: "rejectExoticContainer (Obj p fs) = Inr ()"
    using Obj.prems field by (fastforce simp: rejectExoticContainer_Inr dest!: map_of_SomeD)
  have acc: "Accessor \<notin> set (map snd fs)"
    using field(1) by fastforce
  have keep: "filter (\<lambda>(k, v). v \<noteq> Undef) fs = fs"
    using field(1) by (fastforce simp: filter_id_conv)
  have rs: "map (\<lambda>(k, v). (k, canonicalString h v)) fs = map (\<lambda>(k, v). (k, Inr (pp h (norm_js v)))) fs"
    using field(2) by auto
  have sorted: "sort_key fst (map (\<lambda>(k, v). (k, Inr (pp h (norm_js v)) :: error + string)) fs)
      = map (\<lambda>(k, v). (k, Inr (pp h (norm_js v)))) (sort_key fst fs)"
    by (rule sort_key_map_snd)
  have "mapR (\<lambda>(k, r). bindR r (\<lambda>s. Inr (quote_string k @ CHR '':'' # s)))
          (map (\<lambda>(k, v). (k, Inr (pp h (norm_js v)))) (sort_key fst fs))
      = Inr (map (\<lambda>(k, v). quote_string k @ CHR '':'' # pp h v)
          (map (\<lambda>(k, v). (k, norm_js v)) (sort_key fst fs)))" for fs
    by (induction "sort_key fst fs") (auto simp: mapR_Inr_iff list_all2_map1 list_all2_map2 intro!: list.rel_refl)
  note members = this
  show ?case
    by (simp only: canonicalString.simps rej acc keep rs sorted members norm_js.simps
        sort_key_map_snd pp.simps bindR_Inr if_False simp_thms)
qed auto

lemma canonicalize_inert: "inert v \<Longrightarrow> canonicalize h v = Inr (pp h (norm_js v))"
  by (simp add: canonicalize_def canonicalString_inert)

lemma computeHash_inert: "inert v \<Longrightarrow> computeHash h v = Inr (''sha256:'' @ sha256 h (pp h (norm_js v)))"
  by (simp add: computeHash_def canonicalize_inert)

subsection \<open>Strings\<close>

definition hex_val :: "char \<Rightarrow> nat" where
  "hex_val c = (let n = of_char c in if n < 58 then n - 48 else n - 87)"

fun unescape :: "string \<Rightarrow> (char \<times> string) option" where
  "unescape [] = None"
| "unescape (a # xs) =
     (if a \<noteq> CHR 0x5C then Some (a, xs)
      else case xs of
          [] \<Rightarrow> None
        | b # ys \<Rightarrow>
            if b = CHR ''b'' then Some (char_of (8 :: nat), ys)
            else if b = CHR ''t'' then Some (char_of (9 :: nat), ys)
            else if b = CHR ''n'' then Some (char_of (10 :: nat), ys)
            else if b = CHR ''f'' then Some (char_of (12 :: nat), ys)
            else if b = CHR ''r'' then Some (char_of (13 :: nat), ys)
            else if b = CHR ''u'' then Some (char_of (16 * hex_val (ys ! 2) + hex_val (ys ! 3)), drop 4 ys)
            else Some (b, ys))"

lemma hex_digits: "list_all (\<lambda>m. hex_val (''0123456789abcdef'' ! m) = m) [0..<16]"
  by code_simp

lemma hex_val_digit: "hex_val (hex_digit n) = n mod 16"
  using hex_digits by (simp add: hex_digit_def list_all_iff)

lemma char_nat_eq: "of_char c = (n :: nat) \<Longrightarrow> n < 256 \<Longrightarrow> c = char_of n"
  by (metis char_of_char)

lemma char_of_quoted: "char_of (34 :: nat) = CHR 0x22" "char_of (92 :: nat) = CHR 0x5C"
  by code_simp+

lemma unescape_escape: "unescape (escape_char c @ xs) = Some (c, xs)"
proof -
  let ?n = "of_char c :: nat"
  have nat: "?n = m \<Longrightarrow> m < 256 \<Longrightarrow> c = char_of m" for m
    by (rule char_nat_eq)
  consider "?n = 34" | "?n = 92" | "?n = 8" | "?n = 9" | "?n = 10" | "?n = 12" | "?n = 13"
    | (ctrl) "?n \<notin> {34, 92, 8, 9, 10, 12, 13}" "?n < 32"
    | (plain) "?n \<notin> {34, 92, 8, 9, 10, 12, 13}" "\<not> ?n < 32"
    by blast
  then show ?thesis
  proof cases
    case 1
    then have c: "c = char_of (34 :: nat)" by (rule nat) simp
    show ?thesis by (simp add: c escape_char_def Let_def char_of_quoted)
  next
    case 2
    then have c: "c = char_of (92 :: nat)" by (rule nat) simp
    show ?thesis by (simp add: c escape_char_def Let_def char_of_quoted)
  next
    case 3
    then have c: "c = char_of (8 :: nat)" by (rule nat) simp
    show ?thesis by (simp add: c escape_char_def Let_def char_of_quoted)
  next
    case 4
    then have c: "c = char_of (9 :: nat)" by (rule nat) simp
    show ?thesis by (simp add: c escape_char_def Let_def char_of_quoted)
  next
    case 5
    then have c: "c = char_of (10 :: nat)" by (rule nat) simp
    show ?thesis by (simp add: c escape_char_def Let_def char_of_quoted)
  next
    case 6
    then have c: "c = char_of (12 :: nat)" by (rule nat) simp
    show ?thesis by (simp add: c escape_char_def Let_def char_of_quoted)
  next
    case 7
    then have c: "c = char_of (13 :: nat)" by (rule nat) simp
    show ?thesis by (simp add: c escape_char_def Let_def char_of_quoted)
  next
    case ctrl
    then have "?n div 16 mod 16 = ?n div 16" by simp
    then have decode: "char_of (16 * (?n div 16 mod 16) + ?n mod 16) = c"
      by (simp only: mult_div_mod_eq char_of_char)
    from ctrl have esc: "escape_char c
        = [CHR 0x5C, CHR ''u'', CHR ''0'', CHR ''0'', hex_digit (?n div 16), hex_digit ?n]"
      by (simp add: escape_char_def Let_def)
    show ?thesis
      unfolding esc by (simp add: hex_val_digit decode)
  next
    case plain
    then have ne: "c \<noteq> CHR 0x5C" by auto
    from plain have esc: "escape_char c = [c]"
      by (simp add: escape_char_def Let_def)
    show ?thesis
      unfolding esc by (simp add: ne)
  qed
qed

lemma escape_char_inject: "escape_char c @ x = escape_char c' @ y \<Longrightarrow> c = c' \<and> x = y"
  by (metis unescape_escape option.inject prod.inject)

lemma escape_char_head: "\<exists>d ds. escape_char c = d # ds \<and> d \<noteq> CHR 0x22"
proof (cases "escape_char c = [c]")
  case True
  then have "c \<noteq> CHR 0x22"
    by (auto simp: escape_char_def)
  with True show ?thesis by simp
next
  case False
  then have "hd (escape_char c) = CHR 0x5C" and "escape_char c \<noteq> []"
    by (simp_all add: escape_char_def Let_def split: if_splits)
  then show ?thesis
    by (cases "escape_char c") auto
qed

lemma escaped_inject:
  "concat (map escape_char s) @ CHR 0x22 # r = concat (map escape_char s') @ CHR 0x22 # r' \<Longrightarrow>
     s = s' \<and> r = r'"
proof (induction s arbitrary: s')
  case Nil
  then show ?case
  proof (cases s')
    case (Cons c s'')
    with Nil escape_char_head[of c] show ?thesis by auto
  qed simp
next
  case (Cons c s)
  show ?case
  proof (cases s')
    case Nil
    with Cons.prems escape_char_head[of c] show ?thesis by auto
  next
    case (Cons c' s'')
    with Cons.prems have "escape_char c @ (concat (map escape_char s) @ CHR 0x22 # r)
        = escape_char c' @ (concat (map escape_char s'') @ CHR 0x22 # r')"
      by simp
    then have "c = c'" and "concat (map escape_char s) @ CHR 0x22 # r
        = concat (map escape_char s'') @ CHR 0x22 # r'"
      by (auto dest!: escape_char_inject)
    with Cons.IH Cons show ?thesis by blast
  qed
qed

lemma quote_string_inject: "quote_string s @ r = quote_string s' @ r' \<Longrightarrow> s = s' \<and> r = r'"
  by (auto simp: quote_string_def dest!: escaped_inject)

subsection \<open>Values\<close>

definition delimited :: "string \<Rightarrow> bool" where
  "delimited r \<longleftrightarrow> r = [] \<or> hd r \<in> {CHR '','', CHR '']'', CHR ''}''}"

fun erase :: "js \<Rightarrow> js" where
  "erase (Arr xs) = Arr (map erase xs)"
| "erase (Obj p fs) = Obj ObjectProto (map (\<lambda>(k, v). (k, erase v)) fs)"
| "erase v = v"

lemma join_Cons: "join (x # xs) = x @ concat (map (\<lambda>y. CHR '','' # y) xs)"
  by (induction xs arbitrary: x) auto

lemma delimited_tail:
  assumes "c \<in> {CHR '']'', CHR ''}''}"
  shows "delimited (concat (map (\<lambda>x. CHR '','' # f x) xs) @ c # r)"
proof (cases xs)
  case Nil
  with assms show ?thesis by (simp add: delimited_def)
next
  case (Cons x xs')
  then show ?thesis by (simp add: delimited_def)
qed

lemma tail_nil_iff:
  assumes "c \<in> {CHR '']'', CHR ''}''}"
  shows "concat (map (\<lambda>x. CHR '','' # f x) xs) @ c # r = c # r' \<longleftrightarrow> xs = [] \<and> r = r'"
proof (cases xs)
  case (Cons x xs')
  from assms have "c \<noteq> CHR '',''" by (elim insertE emptyE; hypsubst; simp)
  with Cons show ?thesis by simp
qed simp

text \<open>A comma-separated list of texts that are prefix-free before a delimiter is itself so.\<close>

lemma comma_tail_inject:
  assumes "\<And>x y r r'. x \<in> set xs \<Longrightarrow> y \<in> set ys \<Longrightarrow> delimited r \<Longrightarrow> delimited r' \<Longrightarrow>
             f x @ r = f y @ r' \<Longrightarrow> g x = g y \<and> r = r'"
    and "c \<in> {CHR '']'', CHR ''}''}"
    and "concat (map (\<lambda>x. CHR '','' # f x) xs) @ c # r = concat (map (\<lambda>y. CHR '','' # f y) ys) @ c # r'"
  shows "map g xs = map g ys \<and> r = r'"
  using assms(1,3)
proof (induction xs arbitrary: ys)
  case Nil
  then have "concat (map (\<lambda>y. CHR '','' # f y) ys) @ c # r' = c # r" by simp
  then show ?case unfolding tail_nil_iff[OF assms(2)] by simp
next
  case (Cons x xs)
  show ?case
  proof (cases ys)
    case Nil
    have "concat (map (\<lambda>y. CHR '','' # f y) (x # xs)) @ c # r = c # r'"
      using Cons.prems(2) unfolding Nil by (simp only: list.map concat.simps append_Nil)
    then show ?thesis unfolding tail_nil_iff[OF assms(2)] by simp
  next
    case (Cons y ys')
    let ?t = "concat (map (\<lambda>x. CHR '','' # f x) xs) @ c # r"
    let ?t' = "concat (map (\<lambda>x. CHR '','' # f x) ys') @ c # r'"
    have "f x @ ?t = f y @ ?t'"
      using Cons.prems(2) Cons by simp
    moreover have "delimited ?t" "delimited ?t'"
      by (rule delimited_tail[OF assms(2)])+
    ultimately have "g x = g y" and rest: "?t = ?t'"
      using Cons.prems(1)[of x y ?t ?t'] Cons by simp_all
    moreover have "map g xs = map g ys' \<and> r = r'"
    proof (rule Cons.IH)
      fix x' y' s s'
      assume "x' \<in> set xs" "y' \<in> set ys'" "delimited s" "delimited s'" "f x' @ s = f y' @ s'"
      then show "g x' = g y' \<and> s = s'"
        using Cons.prems(1)[of x' y' s s'] Cons by simp
    qed (rule rest)
    ultimately show ?thesis using Cons by simp
  qed
qed

lemma join_inject:
  assumes sep: "\<And>x y r r'. x \<in> set xs \<Longrightarrow> y \<in> set ys \<Longrightarrow> delimited r \<Longrightarrow> delimited r' \<Longrightarrow>
             f x @ r = f y @ r' \<Longrightarrow> g x = g y \<and> r = r'"
    and c: "c \<in> {CHR '']'', CHR ''}''}"
    and hd: "\<And>x. x \<in> set xs \<union> set ys \<Longrightarrow> \<exists>d ds. f x = d # ds \<and> d \<noteq> c"
    and eq: "join (map f xs) @ c # r = join (map f ys) @ c # r'"
  shows "map g xs = map g ys \<and> r = r'"
proof (cases xs)
  case Nil
  show ?thesis
  proof (cases ys)
    case (Cons y ys')
    with hd[of y] eq Nil show ?thesis by (auto simp: join_Cons)
  qed (use Nil eq in simp)
next
  case x: (Cons x xs')
  show ?thesis
  proof (cases ys)
    case Nil
    with hd[of x] eq x show ?thesis by (auto simp: join_Cons)
  next
    case y: (Cons y ys')
    have "concat (map (\<lambda>x. CHR '','' # f x) xs) @ c # r
        = concat (map (\<lambda>x. CHR '','' # f x) ys) @ c # r'"
      using eq by (simp add: x y join_Cons comp_def)
    with sep c show ?thesis by (rule comma_tail_inject)
  qed
qed

lemma num_str_head: "prints_numbers h \<Longrightarrow> \<exists>d ds. num_str h q = d # ds \<and> d \<in> set num_chars"
  by (cases "num_str h q") (auto simp: prints_numbers_def dest: spec[of _ q])

lemma num_str_inject:
  assumes "prints_numbers h" "delimited r" "delimited r'" "num_str h q @ r = num_str h q' @ r'"
  shows "q = q' \<and> r = r'"
proof -
  let ?P = "\<lambda>c. c \<in> set num_chars"
  have stop: "takeWhile ?P r = []" if "delimited r" for r
    using that by (cases r) (auto simp: delimited_def num_chars_def)
  have "takeWhile ?P (num_str h q @ r) = num_str h q" if "delimited r" for q r
    using assms(1) stop[OF that] by (auto simp: prints_numbers_def takeWhile_append2 subset_iff)
  with assms have "num_str h q = num_str h q'" by metis
  moreover from this assms have "r = r'" by simp
  ultimately show ?thesis
    using assms(1) by (auto simp: prints_numbers_def inj_eq)
qed

lemma pp_head:
  assumes "prints_numbers h" "inert v"
  shows "\<exists>d ds. pp h v = d # ds \<and> d \<notin> {CHR '','', CHR '']'', CHR ''}''}"
proof (cases v)
  case (Num n)
  with assms obtain q where "n = Fin q" by auto
  with Num num_str_head[OF assms(1), of q] show ?thesis by (auto simp: num_chars_def)
qed (use assms in \<open>auto simp: quote_string_def\<close>)

text \<open>The first character of a printed value tells its kind.\<close>

definition kind_chars :: "js \<Rightarrow> char set" where
  "kind_chars v = (case v of Null \<Rightarrow> {CHR ''n''} | Bool b \<Rightarrow> {if b then CHR ''t'' else CHR ''f''}
     | Num _ \<Rightarrow> set num_chars | Str _ \<Rightarrow> {CHR 0x22} | Arr _ \<Rightarrow> {CHR ''[''} | Obj _ _ \<Rightarrow> {CHR ''{''} | _ \<Rightarrow> {})"

lemma pp_kind:
  assumes "prints_numbers h" "inert v"
  shows "\<exists>d ds. pp h v = d # ds \<and> d \<in> kind_chars v"
proof (cases v)
  case (Num n)
  with assms obtain q where "n = Fin q" by auto
  with Num num_str_head[OF assms(1), of q] show ?thesis by (auto simp: kind_chars_def)
qed (use assms in \<open>auto simp: quote_string_def kind_chars_def\<close>)

lemma kind_overlap:
  assumes "prints_numbers h" "inert v" "inert w" "pp h v @ r = pp h w @ r'"
  shows "kind_chars v \<inter> kind_chars w \<noteq> {}"
  using pp_kind[OF assms(1,2)] pp_kind[OF assms(1,3)] assms(4) by auto

lemma pp_inject:
  assumes h: "prints_numbers h"
  shows "inert v \<Longrightarrow> inert w \<Longrightarrow> delimited r \<Longrightarrow> delimited r' \<Longrightarrow> pp h v @ r = pp h w @ r' \<Longrightarrow>
    erase v = erase w \<and> r = r'"
proof (induction v arbitrary: w r r')
  case Null
  with kind_overlap[OF h Null.prems(1,2,5)] show ?case
    by (cases w) (auto simp: kind_chars_def num_chars_def split: if_splits)
next
  case (Bool b)
  with kind_overlap[OF h Bool.prems(1,2,5)] show ?case
    by (cases w) (auto simp: kind_chars_def num_chars_def split: if_splits)
next
  case (Num n)
  then obtain q where n: "n = Fin q" by auto
  from kind_overlap[OF h Num.prems(1,2,5)] Num.prems(2) obtain q' where w: "w = Num (Fin q')"
    by (cases w) (auto simp: kind_chars_def num_chars_def split: if_splits)
  from Num.prems(5) num_str_inject[OF h Num.prems(3,4)] show ?case
    by (simp add: n w)
next
  case (Str s)
  from kind_overlap[OF h Str.prems(1,2,5)] obtain s' where w: "w = Str s'"
    by (cases w) (auto simp: kind_chars_def num_chars_def split: if_splits)
  from Str.prems(5) show ?case
    by (auto simp: w dest!: quote_string_inject)
next
  case (Arr xs)
  from kind_overlap[OF h Arr.prems(1,2,5)] obtain ys where w: "w = Arr ys"
    by (cases w) (auto simp: kind_chars_def num_chars_def split: if_splits)
  have "map erase xs = map erase ys \<and> r = r'"
  proof (rule join_inject[where c = "CHR '']''" and f = "pp h"])
    show "\<And>x y r r'. x \<in> set xs \<Longrightarrow> y \<in> set ys \<Longrightarrow> delimited r \<Longrightarrow> delimited r' \<Longrightarrow>
        pp h x @ r = pp h y @ r' \<Longrightarrow> erase x = erase y \<and> r = r'"
    proof -
      fix x y r r'
      assume "x \<in> set xs" "y \<in> set ys" "delimited r" "delimited r'" "pp h x @ r = pp h y @ r'"
      then show "erase x = erase y \<and> r = r'"
        using Arr.IH[of x y r r'] Arr.prems(1,2) w by (simp add: list_all_iff)
    qed
    show "\<exists>d ds. pp h x = d # ds \<and> d \<noteq> CHR '']''" if "x \<in> set xs \<union> set ys" for x
      using pp_head[OF h, of x] that Arr.prems(1,2) w by (auto simp: list_all_iff)
    show "join (map (pp h) xs) @ CHR '']'' # r = join (map (pp h) ys) @ CHR '']'' # r'"
      using Arr.prems(5) w by simp
  qed simp
  with w show ?case by simp
next
  case (Obj p fs)
  from kind_overlap[OF h Obj.prems(1,2,5)] obtain p' gs where w: "w = Obj p' gs"
    by (cases w) (auto simp: kind_chars_def num_chars_def split: if_splits)
  let ?f = "\<lambda>(k, v). quote_string k @ CHR '':'' # pp h v"
  let ?g = "\<lambda>(k, v). (k, erase v)"
  have "map ?g fs = map ?g gs \<and> r = r'"
  proof (rule join_inject[where c = "CHR ''}''" and f = ?f])
    show "?g x = ?g y \<and> r = r'"
      if "x \<in> set fs" "y \<in> set gs" "delimited r" "delimited r'" "?f x @ r = ?f y @ r'" for x y r r'
    proof -
      obtain k v k' v' where xy: "x = (k, v)" "y = (k', v')" by (cases x; cases y)
      from that(5) have "quote_string k @ (CHR '':'' # pp h v @ r) = quote_string k' @ (CHR '':'' # pp h v' @ r')"
        by (simp add: xy)
      then have "k = k'" and "pp h v @ r = pp h v' @ r'"
        by (auto dest!: quote_string_inject)
      moreover have "inert v" "inert v'"
        using that(1,2) Obj.prems(1,2) w xy by (auto simp: list_all_iff)
      ultimately show ?thesis
        using Obj.IH[of x v v' r r'] that(1,3,4) xy by simp
    qed
    show "\<exists>d ds. ?f x = d # ds \<and> d \<noteq> CHR ''}''" if "x \<in> set fs \<union> set gs" for x
      by (cases x) (simp add: quote_string_def)
    show "join (map ?f fs) @ CHR ''}'' # r = join (map ?f gs) @ CHR ''}'' # r'"
      using Obj.prems(5) w by simp
  qed simp
  with w show ?case by simp
qed auto

lemma inert_norm_js: "inert v \<Longrightarrow> inert (norm_js v)"
proof (induction v)
  case (Obj p fs)
  have "map fst (map (\<lambda>(k, v). (k, norm_js v)) fs) = map fst fs" by auto
  then have "mset (map fst (sort_key fst (map (\<lambda>(k, v). (k, norm_js v)) fs))) = mset (map fst fs)"
    by (metis mset_map mset_sort)
  then have "distinct (map fst (sort_key fst (map (\<lambda>(k, v). (k, norm_js v)) fs)))"
    using Obj.prems mset_eq_imp_distinct_iff by (metis inert.simps(6))
  then show ?case using Obj by (auto simp: list_all_iff)
qed (auto simp: list_all_iff)

lemma erase_norm_js: "erase (norm_js v) = norm_js v"
proof (induction v)
  case (Obj p fs)
  have "map (\<lambda>(k, v). (k, erase v)) (map (\<lambda>(k, v). (k, norm_js v)) fs) = map (\<lambda>(k, v). (k, norm_js v)) fs"
    using Obj by auto
  then show ?case
    by (simp add: sort_key_map_snd[symmetric] del: map_map)
qed (auto simp: comp_def)

text \<open>Two inert values have one canonical text exactly when they agree up to the order of the
  members of their objects.\<close>

lemma canonicalize_eq_iff:
  assumes "prints_numbers h" "inert v" "inert w"
  shows "canonicalize h v = canonicalize h w \<longleftrightarrow> norm_js v = norm_js w"
proof
  assume "canonicalize h v = canonicalize h w"
  then have "pp h (norm_js v) @ [] = pp h (norm_js w) @ []"
    using assms(2,3) by (simp add: canonicalize_inert)
  then have "erase (norm_js v) = erase (norm_js w)"
    using pp_inject[OF assms(1) inert_norm_js[OF assms(2)] inert_norm_js[OF assms(3)],
        where r = "[]" and r' = "[]"]
    by (simp add: delimited_def)
  then show "norm_js v = norm_js w" by (simp add: erase_norm_js)
qed (use assms in \<open>simp add: canonicalize_inert\<close>)

section \<open>A concrete host\<close>

text \<open>A host that meets what the lemmas ask of one: numbers print as their numerator and their
  denominator in unary, and the digest of a text is the text.\<close>

definition unary :: "rat \<Rightarrow> string" where
  "unary q = (let (a, b) = quotient_of q in
     (if a < 0 then CHR ''-'' else CHR ''+'') # replicate (nat \<bar>a\<bar>) CHR ''1'' @ CHR ''.'' # replicate (nat b) CHR ''1'')"

definition unary_host :: host where
  "unary_host = \<lparr>sha256 = (\<lambda>s. s), num_str = unary\<rparr>"

lemma unary_split:
  assumes "replicate m CHR ''1'' @ CHR ''.'' # xs = replicate n CHR ''1'' @ CHR ''.'' # ys"
  shows "m = n \<and> xs = ys"
  using assms
proof (induction m arbitrary: n)
  case 0
  then show ?case by (cases n) auto
next
  case (Suc m)
  then show ?case by (cases n) auto
qed

lemma unary_inject: "unary q = unary r \<Longrightarrow> q = r"
proof -
  assume eq: "unary q = unary r"
  obtain a b where q: "quotient_of q = (a, b)" by (cases "quotient_of q")
  obtain c d where r: "quotient_of r = (c, d)" by (cases "quotient_of r")
  have pos: "b > 0" "d > 0" using quotient_of_denom_pos[OF q] quotient_of_denom_pos[OF r] by simp_all
  from eq have sgn: "(a < 0) = (c < 0)"
    and rest: "replicate (nat \<bar>a\<bar>) CHR ''1'' @ CHR ''.'' # replicate (nat b) CHR ''1''
       = replicate (nat \<bar>c\<bar>) CHR ''1'' @ CHR ''.'' # replicate (nat d) CHR ''1''"
    by (auto simp: unary_def q r split: if_splits)
  from unary_split[OF rest] have "nat \<bar>a\<bar> = nat \<bar>c\<bar>" "nat b = nat d"
    by (simp_all add: replicate_eq_replicate)
  with sgn pos have "a = c" "b = d" by auto
  with q r show "q = r" using quotient_of_inject by fastforce
qed

lemma unary_host_prints: "prints_numbers unary_host"
proof -
  have "set (unary q) \<subseteq> set num_chars" for q
    by (auto simp: unary_def num_chars_def case_prod_unfold Let_def)
  then show ?thesis
    by (auto simp: prints_numbers_def unary_host_def inj_def dest: unary_inject)
      (simp add: unary_def case_prod_unfold Let_def)
qed

section \<open>Properties\<close>

text \<open>C18. The hash domain is the persisted domain: whatever the store copies before it hashes and
  writes, the copy is inert data (what JSON can carry) and has exactly the canonical text of the
  value it was copied from.\<close>

theorem materialize_keeps_text:
  assumes "materialize v = Inr w" and "wf_js v"
  shows "inert w \<and> canonicalize h w = canonicalize h v"
  using materialize_inert[OF assms] materialize_canonical[OF assms(1)] by (simp add: canonicalize_def)

theorem materialize_keeps_text_witness:
  "inert (Obj NullProto [(''a'', Arr [Null, Str ''x'']), (''b'', Num (Fin 2))]) \<and>
   canonicalize unary_host (Obj NullProto [(''a'', Arr [Null, Str ''x'']), (''b'', Num (Fin 2))]) =
   canonicalize unary_host (Obj ObjectProto [(''a'', Arr [Null, Str ''x'']), (''u'', Undef), (''b'', Num (Fin 2))])"
  by (rule materialize_keeps_text) (simp_all add: rejectExoticContainer_def)

text \<open>Copying and printing reject the same values: a value can be copied exactly when it has a
  canonical text, so nothing is accepted by one of the two traversals and refused by the other.\<close>

theorem materialize_iff_canonicalize:
  "(\<exists>w. materialize v = Inr w) \<longleftrightarrow> (\<exists>s. canonicalize h v = Inr s)"
  using materialize_Inr_iff[of v h] by (simp add: canonicalize_def)

text \<open>C17. The canonical text determines the value: on a host whose numbers print injectively, two
  inert values have one text exactly when they are equal up to the order of object members.\<close>

theorem canonicalize_injective:
  assumes "prints_numbers h" "inert v" "inert w"
  shows "canonicalize h v = canonicalize h w \<longleftrightarrow> norm_js v = norm_js w"
  by (rule canonicalize_eq_iff[OF assms])

theorem canonicalize_injective_witness:
  "canonicalize unary_host (Obj ObjectProto [(''b'', Null), (''a'', Num (Fin 1))]) =
   canonicalize unary_host (Obj NullProto [(''a'', Num (Fin 1)), (''b'', Null)]) \<longleftrightarrow>
   norm_js (Obj ObjectProto [(''b'', Null), (''a'', Num (Fin 1))]) =
   norm_js (Obj NullProto [(''a'', Num (Fin 1)), (''b'', Null)])"
  by (rule canonicalize_injective[OF unary_host_prints]) simp_all

end
