(* ===== verification/Codec.thy ===== *)
theory Codec
  imports Canonical "HOL-Library.Monad_Syntax"
begin

text \<open>
  Object literals and the casts of the sources. A payload is an untyped JavaScript value in the
  event (\<open>TrackEvent\<close>, \<open>packages/track/src/events/types.ts\<close>) and is cast to its interface
  where it is read. An object literal is \<open>obj\<close> of its fields, where a field that the source
  spreads conditionally is \<open>None\<close> when it is left out; a cast is a partial function to the
  typed record, undefined when a field does not have its declared type.
\<close>

named_theorems codec_simps \<open>round trips of the casts\<close>

section \<open>Object literals\<close>

definition obj :: "(string \<times> js option) list \<Rightarrow> js" where
  "obj fs = Obj ObjectProto (List.map_filter (\<lambda>(k, v). map_option (Pair k) v) fs)"

lemma js_prop_obj_Nil [simp]: "js_prop (obj []) k = Undef"
  by (simp add: obj_def js_prop_def map_filter_simps)

definition given :: "js option \<Rightarrow> js \<Rightarrow> js" where
  "given x d = (case x of Some v \<Rightarrow> v | None \<Rightarrow> d)"

lemma given_simps [simp]: "given (Some v) d = v" "given None d = d"
  by (simp_all add: given_def)

lemma js_prop_obj_eq [simp]:
  "js_prop (obj ((k, x) # fs)) k = given x (js_prop (obj fs) k)"
  by (simp add: obj_def js_prop_def map_filter_simps split: option.split)

lemma js_prop_obj_neq [simp]: "k' \<noteq> k \<Longrightarrow> js_prop (obj ((k', x) # fs)) k = js_prop (obj fs) k"
  by (simp add: obj_def js_prop_def map_filter_simps split: option.split)

lemma obj_not_Undef [simp]: "obj fs \<noteq> Undef" "Undef \<noteq> obj fs"
  by (simp_all add: obj_def)

lemma map_filter_obj_fields:
  "(k, v) \<in> set (List.map_filter (\<lambda>(k, v). map_option (Pair k) v) fs) \<longleftrightarrow> (k, Some v) \<in> set fs"
  by (induction fs) (auto simp: map_filter_simps split: option.splits)

lemma distinct_obj_fields:
  "distinct (map fst fs) \<Longrightarrow>
     distinct (map fst (List.map_filter (\<lambda>(k, v). map_option (Pair k) v) fs))"
  by (induction fs)
    (force simp: map_filter_simps image_iff map_filter_obj_fields split: option.splits)+

lemma inert_obj:
  "distinct (map fst fs) \<Longrightarrow> list_all (\<lambda>(k, x). pred_option inert x) fs \<Longrightarrow> inert (obj fs)"
  by (fastforce simp: obj_def list_all_iff map_filter_obj_fields distinct_obj_fields)

lemma inert_option_map [simp]: "(\<And>y. inert (f y)) \<Longrightarrow> pred_option inert (map_option f x)"
  by (cases x) simp_all

definition is_object :: "js \<Rightarrow> bool" where
  "is_object v \<longleftrightarrow> (case v of Obj _ _ \<Rightarrow> True | _ \<Rightarrow> False)"

lemma is_object_obj [simp]: "is_object (obj fs)"
  by (simp add: is_object_def obj_def)

text \<open>\<open>{ ...o, key: value }\<close>: the value of a present key is replaced in place.\<close>

definition js_with :: "string \<Rightarrow> js \<Rightarrow> js \<Rightarrow> js" where
  "js_with k v o' = (case o' of Obj _ fs \<Rightarrow> Obj ObjectProto (AList.update k v fs) | _ \<Rightarrow> obj [(k, Some v)])"

lemma js_prop_js_with: "is_object o' \<Longrightarrow> js_prop (js_with k v o') k' = (if k' = k then v else js_prop o' k')"
  by (cases o') (auto simp: js_with_def js_prop_def is_object_def update_conv' split: option.split)

section \<open>Casts\<close>

fun str_of :: "js \<Rightarrow> string option" where
  "str_of (Str s) = Some s"
| "str_of _ = None"

fun bool_of :: "js \<Rightarrow> bool option" where
  "bool_of (Bool b) = Some b"
| "bool_of _ = None"

fun num_of :: "js \<Rightarrow> jsnum option" where
  "num_of (Num n) = Some n"
| "num_of _ = None"

definition any_of :: "js \<Rightarrow> js option" where
  "any_of v = (if v = Undef then None else Some v)"

fun list_of :: "(js \<Rightarrow> 'a option) \<Rightarrow> js \<Rightarrow> 'a list option" where
  "list_of c (Arr xs) = those (map c xs)"
| "list_of c _ = None"

definition opt :: "(js \<Rightarrow> 'a option) \<Rightarrow> js \<Rightarrow> 'a option option" where
  "opt c v = (if v = Undef then Some None else map_option Some (c v))"

definition enum_of :: "(string \<times> 'a) list \<Rightarrow> js \<Rightarrow> 'a option" where
  "enum_of tbl v = do { s \<leftarrow> str_of v; map_of tbl s }"

lemma those_map [codec_simps]: "(\<And>x. x \<in> set xs \<Longrightarrow> c (e x) = Some x) \<Longrightarrow> those (map (\<lambda>x. c (e x)) xs) = Some xs"
  by (induction xs) auto

lemma list_of_Arr [codec_simps]: "(\<And>x. c (e x) = Some x) \<Longrightarrow> list_of c (Arr (map e xs)) = Some xs"
  using those_map[of xs c e] by (simp add: comp_def)

lemma opt_given [codec_simps]:
  "(\<And>y. c (e y) = Some y) \<Longrightarrow> (\<And>y. e y \<noteq> Undef) \<Longrightarrow>
     opt c (given (map_option e x) Undef) = Some x"
  by (cases x) (simp_all add: opt_def)

lemma opt_Undef [simp]: "opt c Undef = Some None"
  by (simp add: opt_def)

lemma opt_Str [simp]: "opt str_of (Str s) = Some (Some s)"
  by (simp add: opt_def)

definition strs :: "string list \<Rightarrow> js" where
  "strs xs = Arr (map Str xs)"

lemma strs_not_Undef [simp]: "strs xs \<noteq> Undef"
  by (simp add: strs_def)

lemma list_of_strs [simp, codec_simps]: "list_of str_of (strs xs) = Some xs"
  by (simp add: strs_def list_of_Arr del: list_of.simps)

lemma strs_inject [simp]: "strs xs = strs ys \<longleftrightarrow> xs = ys"
  by (metis list_of_strs option.inject)

lemma inert_strs [simp]: "inert (strs xs)"
  by (simp add: strs_def list_all_iff)

section \<open>Runtime checks shared by the validators\<close>

definition nonEmptyString :: "js \<Rightarrow> bool" where
  "nonEmptyString v \<longleftrightarrow> (case v of Str s \<Rightarrow> s \<noteq> [] | _ \<Rightarrow> False)"

definition isString :: "js \<Rightarrow> bool" where
  "isString v \<longleftrightarrow> (case v of Str _ \<Rightarrow> True | _ \<Rightarrow> False)"

definition nonBlankString :: "js \<Rightarrow> bool" where
  "nonBlankString v \<longleftrightarrow> (case v of Str s \<Rightarrow> js_trim s \<noteq> [] | _ \<Rightarrow> False)"

definition js_str :: "js \<Rightarrow> string" where
  "js_str v = (case v of Str s \<Rightarrow> s | _ \<Rightarrow> [])"

fun isStringArray :: "js \<Rightarrow> bool" where
  "isStringArray (Arr xs) = list_all isString xs"
| "isStringArray _ = False"

fun js_strs :: "js \<Rightarrow> string list" where
  "js_strs (Arr xs) = map js_str xs"
| "js_strs _ = []"

definition optional :: "(js \<Rightarrow> 'a) \<Rightarrow> js \<Rightarrow> 'a option" where
  "optional f v = (if v = Undef then None else Some (f v))"

fun check :: "(bool \<times> string) list \<Rightarrow> 'a \<Rightarrow> error + 'a" where
  "check [] r = Inr r"
| "check ((ok, msg) # cs) r = (if ok then check cs r else Inl (DomainError msg))"

lemma check_Inr [simp]: "check cs r = Inr r' \<longleftrightarrow> (\<forall>(ok, msg) \<in> set cs. ok) \<and> r' = r"
  by (induction cs) (auto split: if_splits)

lemma nonEmptyString_iff: "nonEmptyString v \<longleftrightarrow> (\<exists>s. v = Str s \<and> s \<noteq> [])"
  by (cases v) (auto simp: nonEmptyString_def)

lemma nonBlankString_iff: "nonBlankString v \<longleftrightarrow> (\<exists>s. v = Str s \<and> js_trim s \<noteq> [])"
  by (cases v) (auto simp: nonBlankString_def)

lemma isString_iff: "isString v \<longleftrightarrow> (\<exists>s. v = Str s)"
  by (cases v) (auto simp: isString_def)

lemma isStringArray_iff: "isStringArray v \<longleftrightarrow> (\<exists>xs. v = strs xs)"
proof
  assume "isStringArray v"
  then obtain ys where ys: "v = Arr ys" "\<forall>y \<in> set ys. isString y"
    by (cases v) (auto simp: list_all_iff)
  then have "map (\<lambda>y. Str (js_str y)) ys = ys"
    by (intro map_idI) (auto simp: js_str_def isString_iff)
  then have "v = strs (map js_str ys)"
    by (simp add: ys(1) strs_def comp_def)
  then show "\<exists>xs. v = strs xs" ..
qed (auto simp: strs_def list_all_iff isString_def)

lemma js_strs_strs [simp]: "js_strs (strs xs) = xs"
  by (simp add: strs_def comp_def js_str_def)

lemma js_str_Str [simp]: "js_str (Str s) = s"
  by (simp add: js_str_def)

end
