(* ===== verification/Events.thy ===== *)
theory Events
  imports Codec
begin

text \<open>
  The event contract: \<open>packages/track/src/events/types.ts\<close> and \<open>frame.ts\<close>. An event is a
  command event, its place in the atomic batch, and the integrity frame; \<open>stripFrame\<close> recovers
  the hashed core. The records extend each other in that order, so dropping the frame is
  truncation. A payload is an untyped value.
\<close>

section \<open>Event types\<close>

datatype aggregate = AItem | ADecision | ABlocker | AVerification | ADemand

fun aggregate_str :: "aggregate \<Rightarrow> string" where
  "aggregate_str AItem = ''item''"
| "aggregate_str ADecision = ''decision''"
| "aggregate_str ABlocker = ''blocker''"
| "aggregate_str AVerification = ''verification''"
| "aggregate_str ADemand = ''demand''"

datatype event_type =
    ItemReportUpdated
  | ItemLinkAdded
  | ItemCreated
  | SpecTransition
  | RealizationTransition
  | AcceptanceCriterionAdded
  | AcceptanceEvidenceLinked
  | AcceptanceRun
  | AcceptanceWaived
  | BlockerOpened
  | BlockerResolved
  | DecisionCreated
  | DecisionDisposition
  | DossierRevised
  | DecisionOptionSelected
  | DecisionOutcome
  | PriorityAssessed
  | BranchImported
  | ItemReparented
  | DecisionArtifactAdded
  | ScopeVerificationRecorded
  | ScopeDeclared
  | SpecAmended
  | ItemCodeAssigned
  | ItemRaciAssigned
  | ItemRoleChanged
  | RealizationAnchored
  | RealizationReopened
  | DemandRaised
  | DemandQualifyingStarted
  | DemandAgreed
  | DemandDisposition
  | SpecStarted
  | SpecAbandoned

fun event_type_str :: "event_type \<Rightarrow> string" where
  "event_type_str ItemReportUpdated = ''item.report-updated''"
| "event_type_str ItemLinkAdded = ''item.link-added''"
| "event_type_str ItemCreated = ''item.created''"
| "event_type_str SpecTransition = ''spec.transition''"
| "event_type_str RealizationTransition = ''realization.transition''"
| "event_type_str AcceptanceCriterionAdded = ''acceptance.criterion.added''"
| "event_type_str AcceptanceEvidenceLinked = ''acceptance.evidence.linked''"
| "event_type_str AcceptanceRun = ''acceptance.run''"
| "event_type_str AcceptanceWaived = ''acceptance.waived''"
| "event_type_str BlockerOpened = ''blocker.opened''"
| "event_type_str BlockerResolved = ''blocker.resolved''"
| "event_type_str DecisionCreated = ''decision.created''"
| "event_type_str DecisionDisposition = ''decision.disposition''"
| "event_type_str DossierRevised = ''dossier.revised''"
| "event_type_str DecisionOptionSelected = ''decision.option-selected''"
| "event_type_str DecisionOutcome = ''decision.outcome''"
| "event_type_str PriorityAssessed = ''priority.assessed''"
| "event_type_str BranchImported = ''branch.imported''"
| "event_type_str ItemReparented = ''item.reparented''"
| "event_type_str DecisionArtifactAdded = ''decision.artifact-added''"
| "event_type_str ScopeVerificationRecorded = ''scope.verification-recorded''"
| "event_type_str ScopeDeclared = ''scope.declared''"
| "event_type_str SpecAmended = ''spec.amended''"
| "event_type_str ItemCodeAssigned = ''item.code-assigned''"
| "event_type_str ItemRaciAssigned = ''item.raci-assigned''"
| "event_type_str ItemRoleChanged = ''item.role-changed''"
| "event_type_str RealizationAnchored = ''realization.anchored''"
| "event_type_str RealizationReopened = ''realization.reopened''"
| "event_type_str DemandRaised = ''demand.raised''"
| "event_type_str DemandQualifyingStarted = ''demand.qualifying-started''"
| "event_type_str DemandAgreed = ''demand.agreed''"
| "event_type_str DemandDisposition = ''demand.disposition''"
| "event_type_str SpecStarted = ''spec.started''"
| "event_type_str SpecAbandoned = ''spec.abandoned''"

lemma aggregate_str_inject [simp]: "aggregate_str a = aggregate_str b \<longleftrightarrow> a = b"
  by (cases a; cases b) simp_all

definition all_event_types :: "event_type list" where
  "all_event_types = [ItemReportUpdated, ItemLinkAdded, ItemCreated, SpecTransition, RealizationTransition,
     AcceptanceCriterionAdded, AcceptanceEvidenceLinked, AcceptanceRun, AcceptanceWaived,
     BlockerOpened, BlockerResolved, DecisionCreated, DecisionDisposition, DossierRevised,
     DecisionOptionSelected, DecisionOutcome, PriorityAssessed, BranchImported, ItemReparented,
     DecisionArtifactAdded, ScopeVerificationRecorded, ScopeDeclared, SpecAmended, ItemCodeAssigned,
     ItemRaciAssigned, ItemRoleChanged, RealizationAnchored, RealizationReopened, DemandRaised,
     DemandQualifyingStarted, DemandAgreed, DemandDisposition, SpecStarted, SpecAbandoned
     ]"

lemma all_event_types: "t \<in> set all_event_types"
  by (cases t) (simp_all add: all_event_types_def)

lemma event_type_str_inject [simp]: "event_type_str a = event_type_str b \<longleftrightarrow> a = b"
proof -
  have "distinct (map event_type_str all_event_types)"
    by (simp add: all_event_types_def)
  then show ?thesis
    using all_event_types by (auto simp: distinct_map dest: inj_onD)
qed

section \<open>Provenance\<close>

datatype transport = Cli | McpStdio | Import | Internal | Http

fun transport_str :: "transport \<Rightarrow> string" where
  "transport_str Cli = ''cli''"
| "transport_str McpStdio = ''mcp-stdio''"
| "transport_str Import = ''import''"
| "transport_str Internal = ''internal''"
| "transport_str Http = ''http''"

datatype provenance_auth = LocalUser | Unauthenticated | Signed

fun provenance_auth_str :: "provenance_auth \<Rightarrow> string" where
  "provenance_auth_str LocalUser = ''local-user''"
| "provenance_auth_str Unauthenticated = ''unauthenticated''"
| "provenance_auth_str Signed = ''signed''"

lemma provenance_str_inject [simp]:
  shows "transport_str t = transport_str t' \<longleftrightarrow> t = t'"
    and "provenance_auth_str a = provenance_auth_str a' \<longleftrightarrow> a = a'"
  subgoal by (cases t; cases t') simp_all
  subgoal by (cases a; cases a') simp_all
  done

record provenance_signature =
  sig_alg :: string
  sig_value :: string
  sig_by :: string

record provenance =
  prov_transport :: transport
  prov_proposed :: bool
  prov_auth :: provenance_auth
  prov_principal :: "string option"
  prov_sig :: "provenance_signature option"

definition signature_js :: "provenance_signature \<Rightarrow> js" where
  "signature_js s = obj [(''alg'', Some (Str (sig_alg s))), (''value'', Some (Str (sig_value s))),
     (''by'', Some (Str (sig_by s)))]"

definition provenance_js :: "provenance \<Rightarrow> js" where
  "provenance_js p = obj [(''transport'', Some (Str (transport_str (prov_transport p)))),
     (''proposed'', Some (Bool (prov_proposed p))),
     (''auth'', Some (Str (provenance_auth_str (prov_auth p)))),
     (''principal'', map_option Str (prov_principal p)),
     (''sig'', map_option signature_js (prov_sig p))]"

section \<open>Events\<close>

record cmd_position =
  cmd_i :: int
  cmd_n :: int

record command_event =
  e_id :: ulid
  e_type :: event_type
  e_aggregate :: aggregate
  e_aggregateId :: ulid
  e_at :: string
  e_by :: actor_id
  e_payload :: js
  e_prov :: "provenance option"
  e_clientToken :: "string option"

record event_core = command_event +
  e_cmdId :: "ulid option"
  e_cmd :: "cmd_position option"

record track_event = event_core +
  e_seq :: int
  e_prevHash :: "sha option"
  e_contentHash :: sha

definition cmd_js :: "cmd_position \<Rightarrow> js" where
  "cmd_js c = obj [(''i'', Some (Num (Fin (of_int (cmd_i c))))), (''n'', Some (Num (Fin (of_int (cmd_n c)))))]"

text \<open>The event core as the object that is hashed and persisted.\<close>

definition core_fields :: "event_core \<Rightarrow> (string \<times> js option) list" where
  "core_fields e = [
     (''id'', Some (Str (e_id e))),
     (''type'', Some (Str (event_type_str (e_type e)))),
     (''aggregate'', Some (Str (aggregate_str (e_aggregate e)))),
     (''aggregateId'', Some (Str (e_aggregateId e))),
     (''at'', Some (Str (e_at e))),
     (''by'', Some (Str (e_by e))),
     (''payload'', Some (e_payload e)),
     (''prov'', map_option provenance_js (e_prov e)),
     (''clientToken'', map_option Str (e_clientToken e)),
     (''cmdId'', map_option Str (e_cmdId e)),
     (''cmd'', map_option cmd_js (e_cmd e))]"

definition core_js :: "event_core \<Rightarrow> js" where
  "core_js e = obj (core_fields e)"

text \<open>\<open>contentHashOf\<close> throws where \<open>canonicalize\<close> does.\<close>

definition contentHashOf :: "host \<Rightarrow> event_core \<Rightarrow> error + sha" where
  "contentHashOf h core = computeHash h (core_js core)"

definition stripFrame :: "track_event \<Rightarrow> event_core" where
  "stripFrame e = event_core.truncate e"

definition with_frame :: "event_core \<Rightarrow> int \<Rightarrow> sha option \<Rightarrow> sha \<Rightarrow> track_event" where
  "with_frame core s p c = event_core.extend core (track_event.fields s p c)"

definition core_of :: "command_event \<Rightarrow> ulid \<Rightarrow> cmd_position \<Rightarrow> event_core" where
  "core_of e i c = command_event.extend e (event_core.fields (Some i) (Some c))"

lemma stripFrame_with_frame [simp]: "stripFrame (with_frame core s p c) = core"
  by (cases core) (simp add: stripFrame_def with_frame_def event_core.defs track_event.defs)

lemma with_frame_sel [simp]:
  "e_seq (with_frame core s p c) = s" "e_prevHash (with_frame core s p c) = p"
  "e_contentHash (with_frame core s p c) = c" "e_aggregateId (with_frame core s p c) = e_aggregateId core"
  "e_id (with_frame core s p c) = e_id core" "e_cmdId (with_frame core s p c) = e_cmdId core"
  "e_cmd (with_frame core s p c) = e_cmd core" "e_type (with_frame core s p c) = e_type core"
  "e_payload (with_frame core s p c) = e_payload core" "e_aggregate (with_frame core s p c) = e_aggregate core"
  "e_clientToken (with_frame core s p c) = e_clientToken core" "e_at (with_frame core s p c) = e_at core"
  "e_by (with_frame core s p c) = e_by core" "e_prov (with_frame core s p c) = e_prov core"
  by (simp_all add: with_frame_def event_core.defs track_event.defs)

lemma stripFrame_sel [simp]:
  "e_aggregateId (stripFrame e) = e_aggregateId e" "e_id (stripFrame e) = e_id e" "e_cmdId (stripFrame e) = e_cmdId e"
  "e_cmd (stripFrame e) = e_cmd e" "e_type (stripFrame e) = e_type e" "e_payload (stripFrame e) = e_payload e"
  "e_aggregate (stripFrame e) = e_aggregate e" "e_clientToken (stripFrame e) = e_clientToken e"
  "e_at (stripFrame e) = e_at e" "e_by (stripFrame e) = e_by e" "e_prov (stripFrame e) = e_prov e"
  by (simp_all add: stripFrame_def event_core.defs)

lemma with_frame_stripFrame: "with_frame (stripFrame e) (e_seq e) (e_prevHash e) (e_contentHash e) = e"
  by (cases e) (simp add: stripFrame_def with_frame_def event_core.defs track_event.defs)

lemma core_of_sel [simp]:
  "e_id (core_of e i c) = e_id e" "e_type (core_of e i c) = e_type e" "e_aggregate (core_of e i c) = e_aggregate e"
  "e_aggregateId (core_of e i c) = e_aggregateId e" "e_at (core_of e i c) = e_at e" "e_by (core_of e i c) = e_by e"
  "e_payload (core_of e i c) = e_payload e" "e_prov (core_of e i c) = e_prov e"
  "e_clientToken (core_of e i c) = e_clientToken e" "e_cmdId (core_of e i c) = Some i" "e_cmd (core_of e i c) = Some c"
  by (simp_all add: core_of_def command_event.defs event_core.defs)

section \<open>Hashing of cores\<close>

lemma core_fields_distinct [simp]: "distinct (map fst (core_fields e))"
  by (simp add: core_fields_def)

lemma inert_signature_js [simp]: "inert (signature_js s)"
  unfolding signature_js_def by (rule inert_obj) simp_all

lemma inert_provenance_js [simp]: "inert (provenance_js p)"
  unfolding provenance_js_def by (rule inert_obj) simp_all

lemma inert_cmd_js [simp]: "inert (cmd_js c)"
  unfolding cmd_js_def by (rule inert_obj) simp_all

lemma inert_core_js: "inert (e_payload e) \<Longrightarrow> inert (core_js e)"
  unfolding core_js_def
  by (rule inert_obj) (simp_all add: core_fields_def)

lemma contentHashOf_inert:
  "inert (e_payload e) \<Longrightarrow> \<exists>s. contentHashOf h e = Inr s"
  using inert_core_js[of e] by (simp add: contentHashOf_def computeHash_inert)

section \<open>A core is determined by its hash\<close>

lemma map_of_sort_key: "distinct (map fst fs) \<Longrightarrow> map_of (sort_key fst fs) = map_of fs"
  by (rule map_of_inject_set[THEN iffD2]) (simp_all add: distinct_map)

lemma norm_js_Undef: "v = Undef \<longleftrightarrow> norm_js v = Undef"
  by (cases v) simp_all

lemma js_prop_norm:
  assumes "inert v" shows "js_prop (norm_js v) k = norm_js (js_prop v k)"
proof (cases v)
  case (Obj p fs)
  have "map_of (map (\<lambda>(k, v). (k, norm_js v)) fs) k = map_option norm_js (map_of fs k)"
    by (induction fs) auto
  moreover have "distinct (map fst (map (\<lambda>(k, v). (k, norm_js v)) fs))"
    using assms Obj by (simp add: comp_def case_prod_unfold)
  ultimately show ?thesis
    using Obj by (simp add: js_prop_def map_of_sort_key split: option.split)
qed (simp_all add: js_prop_def)

lemma same_norm_prop:
  "norm_js v = norm_js w \<Longrightarrow> inert v \<Longrightarrow> inert w \<Longrightarrow> norm_js (js_prop v k) = norm_js (js_prop w k)"
  by (metis js_prop_norm)

lemma given_Str_inject [simp]: "given (map_option Str x) Undef = given (map_option Str y) Undef \<longleftrightarrow> x = y"
  by (cases x; cases y) simp_all

lemma norm_given: "norm_js (given (map_option f x) Undef) = given (map_option (\<lambda>y. norm_js (f y)) x) Undef"
  by (cases x) simp_all

lemma given_inject:
  assumes "\<And>x y. f x = f y \<Longrightarrow> x = y" "\<And>x. f x \<noteq> Undef"
  shows "given (map_option f x) Undef = given (map_option f y) Undef \<longleftrightarrow> x = y"
  using assms by (cases x; cases y) (auto, metis)

lemma norm_signature_inject: "norm_js (signature_js s) = norm_js (signature_js s') \<Longrightarrow> s = s'"
proof -
  assume eq: "norm_js (signature_js s) = norm_js (signature_js s')"
  note f = same_norm_prop[OF eq inert_signature_js inert_signature_js]
  from f[of "''alg''"] f[of "''value''"] f[of "''by''"] show "s = s'"
    by (cases s; cases s') (simp add: signature_js_def)
qed

lemma norm_obj_not_Undef [simp]: "norm_js (obj fs) \<noteq> Undef"
  by (simp add: obj_def)

lemma norm_provenance_inject: "norm_js (provenance_js p) = norm_js (provenance_js p') \<Longrightarrow> p = p'"
proof -
  assume eq: "norm_js (provenance_js p) = norm_js (provenance_js p')"
  note f = same_norm_prop[OF eq inert_provenance_js inert_provenance_js]
  have "prov_sig p = prov_sig p'"
    using f[of "''sig''"] norm_signature_inject
    by (simp add: provenance_js_def norm_given given_inject[OF norm_signature_inject] signature_js_def[symmetric])
      (simp add: signature_js_def given_inject)
  moreover from f[of "''transport''"] f[of "''proposed''"] f[of "''auth''"] f[of "''principal''"]
  have "prov_transport p = prov_transport p'" "prov_proposed p = prov_proposed p'"
    "prov_auth p = prov_auth p'" "prov_principal p = prov_principal p'"
    by (simp_all add: provenance_js_def norm_given)
  ultimately show "p = p'" by simp
qed

lemma norm_cmd_inject: "norm_js (cmd_js c) = norm_js (cmd_js c') \<Longrightarrow> c = c'"
proof -
  assume eq: "norm_js (cmd_js c) = norm_js (cmd_js c')"
  note f = same_norm_prop[OF eq inert_cmd_js inert_cmd_js]
  from f[of "''i''"] f[of "''n''"] show "c = c'"
    by (cases c; cases c') (simp add: cmd_js_def)
qed

definition norm_core :: "event_core \<Rightarrow> event_core" where
  "norm_core e = e\<lparr>e_payload := norm_js (e_payload e)\<rparr>"

lemma norm_core_js_inject:
  assumes eq: "norm_js (core_js e) = norm_js (core_js e')"
    and inert: "inert (e_payload e)" "inert (e_payload e')"
  shows "norm_core e = norm_core e'"
proof -
  note f = same_norm_prop[OF eq inert_core_js[OF inert(1)] inert_core_js[OF inert(2)]]
  note P = core_js_def core_fields_def norm_given
  have "e_id e = e_id e'" using f[of "''id''"] by (simp add: P)
  moreover have "e_type e = e_type e'" using f[of "''type''"] by (simp add: P)
  moreover have "e_aggregate e = e_aggregate e'" using f[of "''aggregate''"] by (simp add: P)
  moreover have "e_aggregateId e = e_aggregateId e'" using f[of "''aggregateId''"] by (simp add: P)
  moreover have "e_at e = e_at e'" using f[of "''at''"] by (simp add: P)
  moreover have "e_by e = e_by e'" using f[of "''by''"] by (simp add: P)
  moreover have "norm_js (e_payload e) = norm_js (e_payload e')" using f[of "''payload''"] by (simp add: P)
  moreover have "e_clientToken e = e_clientToken e'" using f[of "''clientToken''"] by (simp add: P)
  moreover have "e_cmdId e = e_cmdId e'" using f[of "''cmdId''"] by (simp add: P)
  moreover have "e_prov e = e_prov e'"
    using f[of "''prov''"] given_inject[of "\<lambda>p. norm_js (provenance_js p)" "e_prov e" "e_prov e'"] norm_provenance_inject
    by (simp add: P provenance_js_def)
  moreover have "e_cmd e = e_cmd e'"
    using f[of "''cmd''"] given_inject[of "\<lambda>c. norm_js (cmd_js c)" "e_cmd e" "e_cmd e'"] norm_cmd_inject
    by (simp add: P cmd_js_def)
  ultimately show ?thesis
    by (cases e; cases e') (simp add: norm_core_def)
qed

text \<open>Two texts that do not collide under SHA-256.\<close>

definition no_collision :: "host \<Rightarrow> js \<Rightarrow> js \<Rightarrow> bool" where
  "no_collision h v w \<longleftrightarrow>
     (sha256 h (projr (canonicalize h v)) = sha256 h (projr (canonicalize h w)) \<longrightarrow>
      canonicalize h v = canonicalize h w)"

lemma contentHashOf_inject:
  assumes "prints_numbers h" "inert (e_payload e)" "inert (e_payload e')"
    and "no_collision h (core_js e) (core_js e')"
    and "contentHashOf h e = contentHashOf h e'"
  shows "norm_core e = norm_core e'"
proof -
  note inert = inert_core_js[OF assms(2)] inert_core_js[OF assms(3)]
  have "sha256 h (projr (canonicalize h (core_js e))) = sha256 h (projr (canonicalize h (core_js e')))"
    using assms(5) inert by (simp add: contentHashOf_def computeHash_inert canonicalize_inert)
  then have "canonicalize h (core_js e) = canonicalize h (core_js e')"
    using assms(4) by (simp add: no_collision_def)
  then have "norm_js (core_js e) = norm_js (core_js e')"
    by (simp add: canonicalize_eq_iff[OF assms(1) inert])
  then show ?thesis
    by (rule norm_core_js_inject[OF _ assms(2,3)])
qed

section \<open>Properties\<close>

text \<open>Tampering: unless two different canonical texts collide under SHA-256, two event cores with
  the same content hash agree in every field, up to the order of the members of their payloads.\<close>

theorem content_hash_determines_core:
  assumes "prints_numbers h" "inert (e_payload e)" "inert (e_payload e')"
    and "no_collision h (core_js e) (core_js e')"
    and "contentHashOf h e = contentHashOf h e'"
  shows "e_id e = e_id e' \<and> e_type e = e_type e' \<and> e_aggregate e = e_aggregate e' \<and>
     e_aggregateId e = e_aggregateId e' \<and> e_at e = e_at e' \<and> e_by e = e_by e' \<and>
     norm_js (e_payload e) = norm_js (e_payload e') \<and> e_prov e = e_prov e' \<and>
     e_clientToken e = e_clientToken e' \<and> e_cmdId e = e_cmdId e' \<and> e_cmd e = e_cmd e'"
  using contentHashOf_inject[OF assms] by (cases e; cases e') (simp add: norm_core_def)

definition sample_core :: "(string \<times> js) list \<Rightarrow> event_core" where
  "sample_core fs = \<lparr>e_id = ''01'', e_type = ItemCreated, e_aggregate = AItem, e_aggregateId = ''i1'',
     e_at = ''2026-01-01'', e_by = ''owner'', e_payload = Obj ObjectProto fs, e_prov = None,
     e_clientToken = None, e_cmdId = None, e_cmd = None\<rparr>"

theorem content_hash_determines_core_witness:
  "norm_js (e_payload (sample_core [(''title'', Str ''t''), (''kind'', Str ''bug'')])) =
   norm_js (e_payload (sample_core [(''kind'', Str ''bug''), (''title'', Str ''t'')]))"
proof -
  let ?e = "sample_core [(''title'', Str ''t''), (''kind'', Str ''bug'')]"
  let ?e' = "sample_core [(''kind'', Str ''bug''), (''title'', Str ''t'')]"
  have inert: "inert (e_payload ?e)" "inert (e_payload ?e')" by (simp_all add: sample_core_def)
  have "norm_js (core_js ?e) = norm_js (core_js ?e')"
    by (simp add: core_js_def core_fields_def sample_core_def obj_def map_filter_simps)
  then have eq: "canonicalize unary_host (core_js ?e) = canonicalize unary_host (core_js ?e')"
    using inert_core_js[OF inert(1)] inert_core_js[OF inert(2)] by (simp add: canonicalize_inert)
  have "contentHashOf unary_host ?e = contentHashOf unary_host ?e'"
    by (simp add: contentHashOf_def computeHash_def eq)
  with content_hash_determines_core[OF unary_host_prints inert] eq show ?thesis
    by (simp add: no_collision_def)
qed

end
