(* ===== verification/Validate.thy ===== *)
theory Validate
  imports Events
begin

text \<open>
  \<open>packages/track/src/events/validate.ts\<close> and the reading half of \<open>head.ts\<close>: the integrity check
  of a stream, one definition per check, and the declarative reading of its verdict
  (\<open>chain_ok\<close>, \<open>batches_ok\<close>). \<open>validate\<close> throws where the recomputed hash does, so it returns a
  result of findings; the verdict \<open>ok\<close> is the empty list of findings.
\<close>

section \<open>The head\<close>

record head =
  streamLength :: int
  lastContentHash :: "sha option"

definition has_prefix :: "string \<Rightarrow> string \<Rightarrow> bool" where
  "has_prefix p s \<longleftrightarrow> take (length p) s = p"

text \<open>The content of \<open>head.json\<close>: \<open>None\<close> when it is missing or does not parse.\<close>

definition readHead :: "js option \<Rightarrow> head option" where
  "readHead file =
     (case file of
        None \<Rightarrow> None
      | Some parsed \<Rightarrow>
          if \<not> (case parsed of Obj _ _ \<Rightarrow> True | Arr _ \<Rightarrow> True | _ \<Rightarrow> False) then None else
          (case js_prop parsed ''streamLength'' of
             Num (Fin q) \<Rightarrow>
               if q \<notin> \<int> \<or> q < 0 then None
               else if q = 0
               then (if js_prop parsed ''lastContentHash'' \<noteq> Null then None
                     else Some \<lparr>streamLength = 0, lastContentHash = None\<rparr>)
               else (case js_prop parsed ''lastContentHash'' of
                       Str s \<Rightarrow> if \<not> has_prefix ''sha256:'' s then None
                                else Some \<lparr>streamLength = \<lfloor>q\<rfloor>, lastContentHash = Some s\<rparr>
                     | _ \<Rightarrow> None)
           | _ \<Rightarrow> None))"

definition head_js :: "head \<Rightarrow> js" where
  "head_js hh = obj [(''streamLength'', Some (Num (Fin (of_int (streamLength hh))))),
     (''lastContentHash'', Some (case lastContentHash hh of None \<Rightarrow> Null | Some s \<Rightarrow> Str s))]"

text \<open>A head as \<open>writeHead\<close> is called with.\<close>

definition proper_head :: "head \<Rightarrow> bool" where
  "proper_head hh \<longleftrightarrow> streamLength hh \<ge> 0 \<and>
     (if streamLength hh = 0 then lastContentHash hh = None
      else \<exists>s. lastContentHash hh = Some s \<and> has_prefix ''sha256:'' s)"

lemma objectish_obj: "(case obj fs of Obj p gs \<Rightarrow> True | Arr xs \<Rightarrow> True | _ \<Rightarrow> False)"
  by (simp add: obj_def)

lemma readHead_head_js:
  assumes "proper_head hh" shows "readHead (Some (head_js hh)) = Some hh"
proof (cases "streamLength hh = 0")
  case True
  with assms show ?thesis
    by (cases hh) (simp add: readHead_def head_js_def proper_head_def objectish_obj)
next
  case False
  with assms show ?thesis
    by (cases hh) (auto simp: readHead_def head_js_def proper_head_def objectish_obj)
qed

section \<open>Findings\<close>

datatype finding =
    ContentHash nat ulid sha sha
  | PrevHash nat ulid "sha option" "sha option"
  | AggregateSeq nat ulid ulid int int
  | AggregateMismatch nat ulid ulid aggregate aggregate
  | BatchFrame nat ulid "ulid option" string
  | PartialBatch ulid int int string
  | BatchNoncontiguous ulid int
  | Truncation int int
  | HeadMismatch int "sha option" sha
  | BlockerScope nat ulid string
  | ReopenMotive nat ulid string
  | ReopenIllegal nat ulid string

section \<open>The event chain\<close>

definition contentFinding :: "nat \<Rightarrow> track_event \<Rightarrow> sha \<Rightarrow> finding list" where
  "contentFinding i e expectedHash =
     (if e_contentHash e \<noteq> expectedHash
      then [ContentHash i (e_id e) expectedHash (e_contentHash e)] else [])"

definition prevFinding :: "nat \<Rightarrow> track_event \<Rightarrow> sha option \<Rightarrow> finding list" where
  "prevFinding i e prev =
     (if e_prevHash e \<noteq> prev then [PrevHash i (e_id e) prev (e_prevHash e)] else [])"

definition next_seq :: "(ulid \<rightharpoonup> int) \<Rightarrow> ulid \<Rightarrow> int" where
  "next_seq seqs a = (case seqs a of None \<Rightarrow> 0 | Some s \<Rightarrow> s) + 1"

definition seqFinding :: "nat \<Rightarrow> track_event \<Rightarrow> (ulid \<rightharpoonup> int) \<Rightarrow> finding list" where
  "seqFinding i e seqs =
     (let expectedSeq = next_seq seqs (e_aggregateId e) in
      if e_seq e \<noteq> expectedSeq
      then [AggregateSeq i (e_id e) (e_aggregateId e) expectedSeq (e_seq e)] else [])"

definition kindFinding :: "nat \<Rightarrow> track_event \<Rightarrow> (ulid \<rightharpoonup> aggregate) \<Rightarrow> finding list" where
  "kindFinding i e kinds =
     (case kinds (e_aggregateId e) of
        None \<Rightarrow> []
      | Some k \<Rightarrow> if k \<noteq> e_aggregate e
                  then [AggregateMismatch i (e_id e) (e_aggregateId e) k (e_aggregate e)] else [])"

definition know_kind :: "track_event \<Rightarrow> (ulid \<rightharpoonup> aggregate) \<Rightarrow> (ulid \<rightharpoonup> aggregate)" where
  "know_kind e kinds =
     (if kinds (e_aggregateId e) = None then kinds(e_aggregateId e \<mapsto> e_aggregate e) else kinds)"

definition frameFinding :: "nat \<Rightarrow> track_event \<Rightarrow> finding list" where
  "frameFinding i e =
     (if e_cmdId e \<noteq> None \<and> e_cmd e = None
      then [BatchFrame i (e_id e) (e_cmdId e) ''cmdId without cmd:{i,n}''] else []) @
     (if e_cmd e \<noteq> None \<and> e_cmdId e = None
      then [BatchFrame i (e_id e) None ''cmd:{i,n} without cmdId''] else [])"

fun validateChain ::
  "host \<Rightarrow> nat \<Rightarrow> sha option \<Rightarrow> (ulid \<rightharpoonup> int) \<Rightarrow> (ulid \<rightharpoonup> aggregate) \<Rightarrow> track_event list \<Rightarrow> error + finding list" where
  "validateChain h i prev seqs kinds [] = Inr []"
| "validateChain h i prev seqs kinds (e # es) =
     bindR (contentHashOf h (stripFrame e)) (\<lambda>expectedHash.
     bindR (validateChain h (Suc i) (Some (e_contentHash e)) (seqs(e_aggregateId e \<mapsto> e_seq e))
              (know_kind e kinds) es) (\<lambda>rest.
     Inr (contentFinding i e expectedHash @ prevFinding i e prev @ seqFinding i e seqs @
          kindFinding i e kinds @ frameFinding i e @ rest)))"

section \<open>Blocker scope\<close>

definition blockerScopeReason :: "js \<Rightarrow> string option" where
  "blockerScopeReason p =
     (if js_prop p ''kind'' = Str ''decision'' then
        (if js_prop p ''ref'' = Undef then Some ''decision blocker requires a ref'' else None)
      else if js_prop p ''kind'' = Str ''dependency'' then
        (if js_prop p ''scope'' = Str ''extra'' then
           (if js_prop p ''ref'' \<noteq> Undef then Some ''extra-scope dependency must not carry a local ref''
            else if \<not> nonEmptyString (js_prop p ''engagementRef'')
            then Some ''extra-scope dependency requires a non-empty engagementRef''
            else if js_prop p ''resolutionRule'' \<noteq> Undef \<and> js_prop p ''resolutionRule'' \<noteq> Str ''manual''
            then Some ''extra-scope dependency must resolve manual (track cannot see h2a state)''
            else None)
         else if js_prop p ''ref'' = Undef then Some ''intra-scope dependency requires a ref''
         else None)
      else None)"

fun validateBlockerScope :: "nat \<Rightarrow> track_event list \<Rightarrow> finding list" where
  "validateBlockerScope i [] = []"
| "validateBlockerScope i (e # es) =
     (if e_type e \<noteq> BlockerOpened then []
      else case blockerScopeReason (e_payload e) of
        None \<Rightarrow> []
      | Some reason \<Rightarrow> [BlockerScope i (e_id e) reason]) @
     validateBlockerScope (Suc i) es"

section \<open>Reopenings\<close>

definition REOPEN_MOTIVES_ACCEPTED :: "string set" where
  "REOPEN_MOTIVES_ACCEPTED = {''closed-without-owner-uat'', ''regression-observed''}"

definition reopenShape :: "js \<Rightarrow> string option" where
  "reopenShape p =
     (if \<not> (isString (js_prop p ''motive'') \<and> js_str (js_prop p ''motive'') \<in> REOPEN_MOTIVES_ACCEPTED)
      then Some ''a reopening requires one of the declared motives''
      else if \<not> nonBlankString (js_prop p ''reason'') then Some ''a reopening requires a non-empty reason''
      else None)"

definition addressesAggregate :: "track_event \<Rightarrow> bool" where
  "addressesAggregate e \<longleftrightarrow> js_prop (e_payload e) ''itemId'' = Str (e_aggregateId e)"

definition reopenFindings :: "nat \<Rightarrow> track_event \<Rightarrow> string option \<Rightarrow> finding list" where
  "reopenFindings i e current =
     (case reopenShape (e_payload e) of None \<Rightarrow> [] | Some shape \<Rightarrow> [ReopenMotive i (e_id e) shape]) @
     (if \<not> addressesAggregate e
      then [ReopenIllegal i (e_id e)
             (if js_prop (e_payload e) ''itemId'' = Undef
              then ''payload.itemId is required to address the reopened aggregate''
              else ''payload.itemId does not address the reopened aggregate'')]
      else case current of
        None \<Rightarrow> []
      | Some r \<Rightarrow> if r = ''done'' \<or> r = ''cancelled'' then []
                  else [ReopenIllegal i (e_id e) ''nothing to reopen: the item is not done/cancelled''])"

text \<open>The realization replayed by the validator: what one event makes of it.\<close>

definition replay_realization :: "track_event \<Rightarrow> (ulid \<rightharpoonup> string) \<Rightarrow> (ulid \<rightharpoonup> string)" where
  "replay_realization e known =
     (if e_type e = ItemCreated then known(e_aggregateId e \<mapsto> ''to-do'')
      else if e_type e = RealizationTransition then
        (case js_prop (e_payload e) ''to'' of Str to \<Rightarrow> known(e_aggregateId e \<mapsto> to) | _ \<Rightarrow> known)
      else if e_type e = RealizationReopened \<and> addressesAggregate e \<and>
              (known (e_aggregateId e) = Some ''done'' \<or> known (e_aggregateId e) = Some ''cancelled'')
      then known(e_aggregateId e \<mapsto> ''in-progress'')
      else known)"

fun validateReopen :: "nat \<Rightarrow> (ulid \<rightharpoonup> string) \<Rightarrow> track_event list \<Rightarrow> finding list" where
  "validateReopen i known [] = []"
| "validateReopen i known (e # es) =
     (if e_type e = RealizationReopened then reopenFindings i e (known (e_aggregateId e)) else []) @
     validateReopen (Suc i) (replay_realization e known) es"

section \<open>Batches\<close>

record batch_member =
  bm_index :: nat
  bm_i :: "int option"
  bm_n :: "int option"

fun collectBatches :: "nat \<Rightarrow> (ulid, batch_member list) jmap \<Rightarrow> track_event list \<Rightarrow> (ulid, batch_member list) jmap" where
  "collectBatches i batches [] = batches"
| "collectBatches i batches (e # es) =
     collectBatches (Suc i)
       (case e_cmdId e of
          None \<Rightarrow> batches
        | Some c \<Rightarrow>
            jset c ((case jget batches c of None \<Rightarrow> [] | Some ms \<Rightarrow> ms) @
              [\<lparr>bm_index = i, bm_i = map_option cmd_i (e_cmd e), bm_n = map_option cmd_n (e_cmd e)\<rparr>]) batches)
       es"

text \<open>The loop over the positions: the findings and the positions seen.\<close>

fun positionFindings :: "ulid \<Rightarrow> int \<Rightarrow> int \<Rightarrow> int set \<Rightarrow> batch_member list \<Rightarrow> finding list \<times> int set" where
  "positionFindings c n len seen [] = ([], seen)"
| "positionFindings c n len seen (m # ms) =
     (case bm_i m of
        None \<Rightarrow> (let (fs, seen') = positionFindings c n len seen ms
                 in (PartialBatch c n len ''invalid cmd.i'' # fs, seen'))
      | Some i \<Rightarrow>
          if i < 0 \<or> i \<ge> n
          then (let (fs, seen') = positionFindings c n len seen ms
                in (PartialBatch c n len ''invalid cmd.i'' # fs, seen'))
          else (let (fs, seen') = positionFindings c n len (insert i seen) ms
                in ((if i \<in> seen then [PartialBatch c n len ''duplicate cmd.i''] else []) @ fs, seen')))"

definition batchFindings :: "ulid \<Rightarrow> batch_member list \<Rightarrow> finding list" where
  "batchFindings c ms =
     (let declaredNs = remdups (List.map_filter bm_n ms); len = int (length ms) in
      if length declaredNs > 1 then [PartialBatch c (- 1) len ''inconsistent cmd.n across members'']
      else case declaredNs of
        [] \<Rightarrow> [PartialBatch c (- 1) len ''invalid or missing cmd.n'']
      | n # _ \<Rightarrow>
          if n \<le> 0 then [PartialBatch c (- 1) len ''invalid or missing cmd.n'']
          else
            (let indices = map bm_index ms; mn = Min (set indices); mx = Max (set indices);
                 (fs, seen) = positionFindings c n len {} ms;
                 missing = filter (\<lambda>p. p \<notin> seen) (map int [0..<nat n]) in
             (if len \<noteq> n then [PartialBatch c n len ''wrong number of members''] else []) @
             (if int mx - int mn + 1 \<noteq> len then [BatchNoncontiguous c (int mn)] else []) @
             fs @
             (if missing \<noteq> [] then [PartialBatch c n (int (card seen)) ''missing batch positions''] else [])))"

definition validateBatches :: "track_event list \<Rightarrow> finding list" where
  "validateBatches es = concat (map (\<lambda>(c, ms). batchFindings c ms) (collectBatches 0 [] es))"

section \<open>The head check and the verdict\<close>

definition validateHead :: "track_event list \<Rightarrow> head option \<Rightarrow> finding list" where
  "validateHead es hh' =
     (case hh' of
        None \<Rightarrow> []
      | Some hh \<Rightarrow>
          if streamLength hh > int (length es) then [Truncation (streamLength hh) (int (length es))]
          else if streamLength hh \<ge> 1 then
            (let anchor = es ! nat (streamLength hh - 1) in
             if Some (e_contentHash anchor) \<noteq> lastContentHash hh
             then [HeadMismatch (streamLength hh - 1) (lastContentHash hh) (e_contentHash anchor)] else [])
          else [])"

definition validate :: "host \<Rightarrow> track_event list \<Rightarrow> head option \<Rightarrow> error + finding list" where
  "validate h es hh =
     bindR (validateChain h 0 None Map.empty Map.empty es) (\<lambda>findings.
     Inr (findings @ validateBatches es @ validateBlockerScope 0 es @ validateReopen 0 Map.empty es @
          validateHead es hh))"

end
