(* ===== verification/Integrity.thy ===== *)
theory Integrity
  imports Validate
begin

text \<open>
  What the verdict of \<open>validate\<close> means. The loop over the events is read as a condition on each
  event relative to the events before it (\<open>chain_ok\<close>), the batch check as a condition on the
  members of each command (\<open>batch_ok\<close>); both compose over concatenation, which is what appending
  and resealing rely on.
\<close>

section \<open>The chain, relative to a prefix\<close>

definition last_hash :: "track_event list \<Rightarrow> sha option" where
  "last_hash es = (if es = [] then None else Some (e_contentHash (last es)))"

definition seq_map :: "track_event list \<Rightarrow> (ulid \<rightharpoonup> int)" where
  "seq_map es = fold (\<lambda>e m. m(e_aggregateId e \<mapsto> e_seq e)) es Map.empty"

definition kind_map :: "track_event list \<Rightarrow> (ulid \<rightharpoonup> aggregate)" where
  "kind_map es = fold know_kind es Map.empty"

definition event_ok :: "host \<Rightarrow> track_event list \<Rightarrow> track_event \<Rightarrow> bool" where
  "event_ok h pre e \<longleftrightarrow>
     contentHashOf h (stripFrame e) = Inr (e_contentHash e) \<and>
     e_prevHash e = last_hash pre \<and>
     e_seq e = next_seq (seq_map pre) (e_aggregateId e) \<and>
     kind_map pre (e_aggregateId e) \<in> {None, Some (e_aggregate e)} \<and>
     (e_cmdId e = None \<longleftrightarrow> e_cmd e = None)"

fun chain_ok :: "host \<Rightarrow> track_event list \<Rightarrow> track_event list \<Rightarrow> bool" where
  "chain_ok h pre [] = True"
| "chain_ok h pre (e # es) = (event_ok h pre e \<and> chain_ok h (pre @ [e]) es)"

lemma last_hash_snoc [simp]: "last_hash (es @ [e]) = Some (e_contentHash e)"
  by (simp add: last_hash_def)

lemma last_hash_Nil [simp]: "last_hash [] = None"
  by (simp add: last_hash_def)

lemma seq_map_snoc [simp]: "seq_map (es @ [e]) = (seq_map es)(e_aggregateId e \<mapsto> e_seq e)"
  by (simp add: seq_map_def)

lemma kind_map_snoc [simp]: "kind_map (es @ [e]) = know_kind e (kind_map es)"
  by (simp add: kind_map_def)

lemma chain_ok_append: "chain_ok h pre (xs @ ys) \<longleftrightarrow> chain_ok h pre xs \<and> chain_ok h (pre @ xs) ys"
  by (induction xs arbitrary: pre) auto

lemma chain_ok_nth: "chain_ok h pre es \<longleftrightarrow> (\<forall>i < length es. event_ok h (pre @ take i es) (es ! i))"
  by (induction es arbitrary: pre) (auto simp: All_less_Suc2)

lemma chain_step_findings:
  "contentFinding i e x @ prevFinding i e (last_hash pre) @ seqFinding i e (seq_map pre) @
     kindFinding i e (kind_map pre) @ frameFinding i e = [] \<longleftrightarrow>
   e_contentHash e = x \<and> e_prevHash e = last_hash pre \<and>
   e_seq e = next_seq (seq_map pre) (e_aggregateId e) \<and>
   kind_map pre (e_aggregateId e) \<in> {None, Some (e_aggregate e)} \<and>
   (e_cmdId e = None \<longleftrightarrow> e_cmd e = None)"
  by (auto simp: contentFinding_def prevFinding_def seqFinding_def kindFinding_def frameFinding_def Let_def
      split: option.splits)

lemma validateChain_ok:
  "validateChain h i (last_hash pre) (seq_map pre) (kind_map pre) es = Inr [] \<longleftrightarrow> chain_ok h pre es"
proof (induction es arbitrary: i pre)
  case (Cons e es)
  note IH = Cons.IH[of "Suc i" "pre @ [e]"]
  have "validateChain h i (last_hash pre) (seq_map pre) (kind_map pre) (e # es) = Inr [] \<longleftrightarrow>
      (\<exists>x. contentHashOf h (stripFrame e) = Inr x \<and>
        contentFinding i e x @ prevFinding i e (last_hash pre) @ seqFinding i e (seq_map pre) @
          kindFinding i e (kind_map pre) @ frameFinding i e = [] \<and>
        validateChain h (Suc i) (last_hash (pre @ [e])) (seq_map (pre @ [e])) (kind_map (pre @ [e])) es = Inr [])"
    by (auto simp: bindR_eq_Inr)
  then show ?case
    unfolding chain_step_findings IH by (auto simp: event_ok_def)
qed simp

section \<open>Batches\<close>

definition member_of :: "nat \<Rightarrow> track_event \<Rightarrow> batch_member" where
  "member_of i e = \<lparr>bm_index = i, bm_i = map_option cmd_i (e_cmd e), bm_n = map_option cmd_n (e_cmd e)\<rparr>"

fun members :: "nat \<Rightarrow> ulid \<Rightarrow> track_event list \<Rightarrow> batch_member list" where
  "members i c [] = []"
| "members i c (e # es) = (if e_cmdId e = Some c then [member_of i e] else []) @ members (Suc i) c es"

lemma members_append: "members i c (xs @ ys) = members i c xs @ members (i + length xs) c ys"
  by (induction xs arbitrary: i) auto

lemma members_none: "c \<notin> {c'. \<exists>e \<in> set es. e_cmdId e = Some c'} \<Longrightarrow> members i c es = []"
  by (induction es arbitrary: i) auto

definition batch_ok :: "batch_member list \<Rightarrow> bool" where
  "batch_ok ms \<longleftrightarrow>
     ms \<noteq> [] \<and> (\<forall>m \<in> set ms. bm_n m = Some (int (length ms))) \<and>
     int (Max (bm_index ` set ms)) - int (Min (bm_index ` set ms)) + 1 = int (length ms) \<and>
     distinct (map bm_i ms) \<and> bm_i ` set ms = Some ` {0..<int (length ms)}"

lemma positionFindings_spec:
  "positionFindings c n len seen ms = (fs, seen') \<Longrightarrow>
     seen' = seen \<union> {i. Some i \<in> bm_i ` set ms \<and> 0 \<le> i \<and> i < n} \<and>
     (fs = [] \<longleftrightarrow> (\<forall>m \<in> set ms. \<exists>i. bm_i m = Some i \<and> 0 \<le> i \<and> i < n \<and> i \<notin> seen) \<and> distinct (map bm_i ms))"
proof (induction ms arbitrary: seen fs)
  case (Cons m ms)
  show ?case
  proof (cases "bm_i m")
    case None
    with Cons.prems obtain fs' where fs: "positionFindings c n len seen ms = (fs', seen')" "fs \<noteq> []"
      by (auto split: prod.splits)
    from Cons.IH[OF fs(1)] None fs(2) show ?thesis by auto
  next
    case i: (Some i)
    show ?thesis
    proof (cases "i < 0 \<or> i \<ge> n")
      case True
      with Cons.prems i obtain fs' where fs: "positionFindings c n len seen ms = (fs', seen')" "fs \<noteq> []"
        by (auto split: prod.splits)
      from Cons.IH[OF fs(1)] True i fs(2) show ?thesis by auto
    next
      case False
      with Cons.prems i obtain fs' where rest: "positionFindings c n len (insert i seen) ms = (fs', seen')"
        and fs: "fs = (if i \<in> seen then [PartialBatch c n len ''duplicate cmd.i''] else []) @ fs'"
        by (auto split: prod.splits)
      from Cons.IH[OF rest] False i fs show ?thesis
        by (auto simp: image_iff) (metis option.inject)+
    qed
  qed
qed auto

lemma declared_single: "List.map_filter f xs \<noteq> [] \<Longrightarrow> \<forall>x \<in> set xs. f x = Some n \<Longrightarrow>
    remdups (List.map_filter f xs) = [n]"
proof -
  assume ne: "List.map_filter f xs \<noteq> []" and all: "\<forall>x \<in> set xs. f x = Some n"
  have "set (List.map_filter f xs) \<subseteq> {n}"
    using all by (induction xs) (auto simp: map_filter_simps)
  with ne have "set (remdups (List.map_filter f xs)) = {n}"
    by (auto simp: subset_singleton_iff)
  then have "card (set (remdups (List.map_filter f xs))) = 1" by simp
  then have "length (remdups (List.map_filter f xs)) = 1"
    using distinct_card[OF distinct_remdups] by metis
  then show "remdups (List.map_filter f xs) = [n]"
    using \<open>set (remdups (List.map_filter f xs)) = {n}\<close>
    by (cases "remdups (List.map_filter f xs)") auto
qed

definition paired :: "batch_member list \<Rightarrow> bool" where
  "paired ms \<longleftrightarrow> (\<forall>m \<in> set ms. bm_n m = None \<longleftrightarrow> bm_i m = None)"

lemma missing_positions: "filter (\<lambda>p. p \<notin> seen) (map int [0..<nat n]) = [] \<longleftrightarrow> {0..<n} \<subseteq> seen"
proof -
  have "set (map int [0..<nat n]) = {0..<n}"
    by (cases "n \<ge> 0") (simp_all add: image_int_atLeastLessThan)
  then show ?thesis unfolding filter_empty_conv by blast
qed

lemma batchFindings_single:
  assumes "remdups (List.map_filter bm_n ms) = [n]" "n > 0" "ms \<noteq> []"
  shows "batchFindings c ms = [] \<longleftrightarrow>
     int (length ms) = n \<and>
     int (Max (bm_index ` set ms)) - int (Min (bm_index ` set ms)) + 1 = int (length ms) \<and>
     (\<forall>m \<in> set ms. \<exists>i. bm_i m = Some i \<and> 0 \<le> i \<and> i < n) \<and> distinct (map bm_i ms) \<and>
     {0..<n} \<subseteq> {i. Some i \<in> bm_i ` set ms \<and> 0 \<le> i \<and> i < n}"
proof -
  obtain fs seen where pos: "positionFindings c n (int (length ms)) {} ms = (fs, seen)"
    by (cases "positionFindings c n (int (length ms)) {} ms")
  note spec = positionFindings_spec[OF pos]
  have "batchFindings c ms = [] \<longleftrightarrow> int (length ms) = n \<and>
     int (Max (bm_index ` set ms)) - int (Min (bm_index ` set ms)) + 1 = int (length ms) \<and>
     fs = [] \<and> filter (\<lambda>p. p \<notin> seen) (map int [0..<nat n]) = []"
    unfolding batchFindings_def assms(1) using assms(2) pos by (simp add: Let_def)
  then show ?thesis
    unfolding missing_positions using spec by simp
qed

lemma all_positions:
  assumes "n = int (length ms)"
  shows "(\<forall>m \<in> set ms. \<exists>i. bm_i m = Some i \<and> 0 \<le> i \<and> i < n) \<and> {0..<n} \<subseteq> {i. Some i \<in> bm_i ` set ms \<and> 0 \<le> i \<and> i < n}
    \<longleftrightarrow> bm_i ` set ms = Some ` {0..<n}"
proof
  assume l: "(\<forall>m \<in> set ms. \<exists>i. bm_i m = Some i \<and> 0 \<le> i \<and> i < n) \<and> {0..<n} \<subseteq> {i. Some i \<in> bm_i ` set ms \<and> 0 \<le> i \<and> i < n}"
  show "bm_i ` set ms = Some ` {0..<n}"
  proof
    show "bm_i ` set ms \<subseteq> Some ` {0..<n}" using l by fastforce
    show "Some ` {0..<n} \<subseteq> bm_i ` set ms" using l by blast
  qed
next
  assume r: "bm_i ` set ms = Some ` {0..<n}"
  have "\<exists>i. bm_i m = Some i \<and> 0 \<le> i \<and> i < n" if "m \<in> set ms" for m
  proof -
    from that have "bm_i m \<in> Some ` {0..<n}" using r by blast
    then show ?thesis by auto
  qed
  with r show "(\<forall>m \<in> set ms. \<exists>i. bm_i m = Some i \<and> 0 \<le> i \<and> i < n) \<and>
      {0..<n} \<subseteq> {i. Some i \<in> bm_i ` set ms \<and> 0 \<le> i \<and> i < n}"
    by auto
qed

lemma batchFindings_ok:
  assumes "ms \<noteq> []" "paired ms"
  shows "batchFindings c ms = [] \<longleftrightarrow> batch_ok ms"
proof
  assume ok: "batch_ok ms"
  then have all: "\<forall>m \<in> set ms. bm_n m = Some (int (length ms))"
    by (simp add: batch_ok_def)
  have "List.map_filter bm_n ms \<noteq> []"
    using assms(1) all by (cases ms) (auto simp: map_filter_simps)
  from declared_single[OF this all] have one: "remdups (List.map_filter bm_n ms) = [int (length ms)]" .
  show "batchFindings c ms = []"
    using ok all_positions[OF refl, of ms] assms(1)
    by (subst batchFindings_single[OF one]) (simp_all add: batch_ok_def)
next
  assume none: "batchFindings c ms = []"
  obtain n where one: "remdups (List.map_filter bm_n ms) = [n]" and pos: "n > 0"
  proof (cases "remdups (List.map_filter bm_n ms)")
    case (Cons n ns)
    with none have "ns = []" "n > 0"
      by (auto simp: batchFindings_def Let_def split: if_splits)
    with Cons that show ?thesis by simp
  qed (use none in \<open>simp add: batchFindings_def\<close>)
  note parts = none[unfolded batchFindings_single[OF one pos assms(1)]]
  have "bm_n m = Some n" if m: "m \<in> set ms" for m
  proof -
    from parts m obtain i where "bm_i m = Some i" by blast
    with assms(2) m obtain k where k: "bm_n m = Some k" by (auto simp: paired_def)
    have "k \<in> set (List.map_filter bm_n ms)"
      using m k by (induction ms) (auto simp: map_filter_simps split: option.split)
    then have "k \<in> set (remdups (List.map_filter bm_n ms))" by simp
    with one k show ?thesis by simp
  qed
  with parts all_positions[of n ms] assms(1) show "batch_ok ms"
    by (auto simp: batch_ok_def)
qed

section \<open>All batches of a stream\<close>

definition no_empty :: "(ulid, batch_member list) jmap \<Rightarrow> bool" where
  "no_empty b \<longleftrightarrow> distinct (jkeys b) \<and> (\<forall>c ms. jget b c = Some ms \<longrightarrow> ms \<noteq> [])"

definition group :: "(ulid, batch_member list) jmap \<Rightarrow> ulid \<Rightarrow> batch_member list" where
  "group b c = (case jget b c of None \<Rightarrow> [] | Some ms \<Rightarrow> ms)"

lemma collectBatches_group:
  "no_empty b \<Longrightarrow> no_empty (collectBatches i b es) \<and> group (collectBatches i b es) c = group b c @ members i c es"
proof (induction es arbitrary: i b)
  case (Cons e es)
  show ?case
  proof (cases "e_cmdId e")
    case None
    with Cons show ?thesis by simp
  next
    case (Some d)
    let ?b = "jset d (group b d @ [member_of i e]) b"
    have step: "collectBatches i b (e # es) = collectBatches (Suc i) ?b es"
      using Some by (simp add: group_def member_of_def)
    have "no_empty ?b"
      using Cons.prems by (auto simp: no_empty_def)
    from Cons.IH[OF this, of "Suc i"] show ?thesis
      unfolding step using Some by (auto simp: group_def)
  qed
qed simp

definition batches_ok :: "track_event list \<Rightarrow> bool" where
  "batches_ok es \<longleftrightarrow> (\<forall>c. members 0 c es \<noteq> [] \<longrightarrow> batch_ok (members 0 c es))"

lemma members_paired: "\<forall>e \<in> set es. e_cmdId e = None \<longleftrightarrow> e_cmd e = None \<Longrightarrow> paired (members i c es)"
  by (induction es arbitrary: i) (auto simp: paired_def member_of_def)

lemma validateBatches_ok:
  assumes "\<forall>e \<in> set es. e_cmdId e = None \<longleftrightarrow> e_cmd e = None"
  shows "validateBatches es = [] \<longleftrightarrow> batches_ok es"
proof -
  let ?b = "collectBatches 0 [] es"
  have empty: "no_empty []" by (simp add: no_empty_def jkeys_def)
  have ne: "no_empty ?b" and grp: "group ?b c = members 0 c es" for c
    using collectBatches_group[OF empty] by (simp_all add: group_def)
  have "validateBatches es = [] \<longleftrightarrow> (\<forall>(c, ms) \<in> set ?b. batchFindings c ms = [])"
    by (auto simp: validateBatches_def)
  also have "\<dots> \<longleftrightarrow> (\<forall>c ms. jget ?b c = Some ms \<longrightarrow> batchFindings c ms = [])"
    using ne by (auto simp: no_empty_def jget_mem_iff)
  also have "\<dots> \<longleftrightarrow> (\<forall>c. members 0 c es \<noteq> [] \<longrightarrow> batchFindings c (members 0 c es) = [])"
  proof -
    have "jget ?b c = Some ms \<longleftrightarrow> ms = members 0 c es \<and> ms \<noteq> []" for c ms
      using ne grp[of c] by (auto simp: group_def no_empty_def split: option.splits)
    then show ?thesis by simp
  qed
  also have "\<dots> \<longleftrightarrow> batches_ok es"
    using batchFindings_ok members_paired[OF assms] by (auto simp: batches_ok_def)
  finally show ?thesis .
qed

section \<open>Blocker scopes and reopenings of a stream\<close>

definition scope_ok :: "track_event \<Rightarrow> bool" where
  "scope_ok e \<longleftrightarrow> (e_type e = BlockerOpened \<longrightarrow> blockerScopeReason (e_payload e) = None)"

lemma validateBlockerScope_ok: "validateBlockerScope i es = [] \<longleftrightarrow> (\<forall>e \<in> set es. scope_ok e)"
  by (induction es arbitrary: i) (auto simp: scope_ok_def split: option.split)

definition replay :: "track_event list \<Rightarrow> (ulid \<rightharpoonup> string)" where
  "replay es = fold replay_realization es Map.empty"

definition reopen_ok :: "(ulid \<rightharpoonup> string) \<Rightarrow> track_event \<Rightarrow> bool" where
  "reopen_ok known e \<longleftrightarrow> (e_type e = RealizationReopened \<longrightarrow>
     reopenShape (e_payload e) = None \<and> addressesAggregate e \<and>
     known (e_aggregateId e) \<in> {None, Some ''done'', Some ''cancelled''})"

fun reopens_ok :: "(ulid \<rightharpoonup> string) \<Rightarrow> track_event list \<Rightarrow> bool" where
  "reopens_ok known [] = True"
| "reopens_ok known (e # es) = (reopen_ok known e \<and> reopens_ok (replay_realization e known) es)"

lemma reopens_ok_append:
  "reopens_ok known (xs @ ys) \<longleftrightarrow> reopens_ok known xs \<and> reopens_ok (fold replay_realization xs known) ys"
  by (induction xs arbitrary: known) auto

lemma reopenFindings_ok:
  "e_type e = RealizationReopened \<Longrightarrow> reopenFindings i e (known (e_aggregateId e)) = [] \<longleftrightarrow> reopen_ok known e"
  by (auto simp: reopenFindings_def reopen_ok_def split: option.splits if_splits)

lemma validateReopen_ok: "validateReopen i known es = [] \<longleftrightarrow> reopens_ok known es"
  by (induction es arbitrary: i known) (auto simp: reopenFindings_ok, auto simp: reopen_ok_def)

section \<open>Valid logs\<close>

definition valid_log :: "host \<Rightarrow> track_event list \<Rightarrow> bool" where
  "valid_log h es \<longleftrightarrow> chain_ok h [] es \<and> batches_ok es \<and> (\<forall>e \<in> set es. scope_ok e) \<and> reopens_ok Map.empty es"

lemma chain_ok_framed: "chain_ok h pre es \<Longrightarrow> \<forall>e \<in> set es. e_cmdId e = None \<longleftrightarrow> e_cmd e = None"
  by (induction es arbitrary: pre) (auto simp: event_ok_def)

lemma validate_ok: "validate h es hh = Inr [] \<longleftrightarrow> valid_log h es \<and> validateHead es hh = []"
proof -
  have "validate h es hh = Inr [] \<longleftrightarrow>
      validateChain h 0 (last_hash []) (seq_map []) (kind_map []) es = Inr [] \<and> validateBatches es = [] \<and>
      validateBlockerScope 0 es = [] \<and> validateReopen 0 Map.empty es = [] \<and> validateHead es hh = []"
    by (auto simp: validate_def bindR_eq_Inr seq_map_def kind_map_def)
  then show ?thesis
    unfolding validateChain_ok validateBlockerScope_ok validateReopen_ok valid_log_def
    using validateBatches_ok chain_ok_framed by blast
qed

lemma valid_log_append:
  "valid_log h (es @ new) \<longleftrightarrow> chain_ok h [] es \<and> chain_ok h es new \<and> batches_ok (es @ new) \<and>
     (\<forall>e \<in> set es \<union> set new. scope_ok e) \<and> reopens_ok Map.empty es \<and> reopens_ok (replay es) new"
  by (auto simp: valid_log_def chain_ok_append reopens_ok_append replay_def)

lemma batches_ok_append:
  assumes "batches_ok es"
    and "\<And>c. members (length es) c new \<noteq> [] \<Longrightarrow> members 0 c es = [] \<and> batch_ok (members (length es) c new)"
  shows "batches_ok (es @ new)"
  unfolding batches_ok_def
proof (intro allI impI)
  fix c
  assume "members 0 c (es @ new) \<noteq> []"
  then show "batch_ok (members 0 c (es @ new))"
    using assms(1) assms(2)[of c]
    by (cases "members (length es) c new = []") (auto simp: members_append batches_ok_def)
qed

section \<open>The head\<close>

definition head_of :: "track_event list \<Rightarrow> head" where
  "head_of es = \<lparr>streamLength = int (length es), lastContentHash = last_hash es\<rparr>"

lemma validateHead_self: "validateHead es (Some (head_of es)) = []"
  by (auto simp: validateHead_def head_of_def last_hash_def Let_def last_conv_nth nat_diff_distrib)

lemma validateHead_iff:
  "validateHead es (Some hh) = [] \<longleftrightarrow> streamLength hh \<le> int (length es) \<and>
     (streamLength hh \<ge> 1 \<longrightarrow> Some (e_contentHash (es ! nat (streamLength hh - 1))) = lastContentHash hh)"
  by (auto simp: validateHead_def Let_def)

section \<open>What a valid chain determines\<close>

lemma chain_prev:
  assumes "chain_ok h [] es" "i < length es"
  shows "e_prevHash (es ! i) = (if i = 0 then None else Some (e_contentHash (es ! (i - 1))))"
proof -
  from assms have "e_prevHash (es ! i) = last_hash (take i es)"
    by (simp add: chain_ok_nth event_ok_def)
  with assms(2) show ?thesis
    by (auto simp: last_hash_def last_conv_nth)
qed

lemma chain_distinct_link:
  assumes "chain_ok h [] es" "distinct (map e_contentHash es)" "e \<in> set es"
  shows "e_prevHash e = None \<Longrightarrow> e = es ! 0"
    and "e_prevHash e = Some (e_contentHash (es ! i)) \<Longrightarrow> i < length es \<Longrightarrow> Suc i < length es \<and> e = es ! Suc i"
proof -
  from assms(3) obtain j where j: "j < length es" "e = es ! j" by (auto simp: in_set_conv_nth)
  note link = chain_prev[OF assms(1) j(1), folded j(2)]
  show "e = es ! 0" if "e_prevHash e = None"
    using link that j by (simp split: if_splits)
  assume i: "e_prevHash e = Some (e_contentHash (es ! i))" "i < length es"
  then have "j \<noteq> 0" and "e_contentHash (es ! (j - 1)) = e_contentHash (es ! i)"
    using link by (auto split: if_splits)
  moreover from this have "j - 1 = i"
    using assms(2) i(2) j(1) nth_eq_iff_index_eq[OF assms(2), of "j - 1" i] by simp
  ultimately have "j = Suc i" by simp
  then show "Suc i < length es \<and> e = es ! Suc i"
    using j by simp
qed

text \<open>A valid chain built from the events of another one, in any order and with any omissions or
  repetitions, is one of its prefixes.\<close>

lemma chain_rearranged_prefix:
  assumes "chain_ok h [] es" "distinct (map e_contentHash es)" "chain_ok h [] es'" "set es' \<subseteq> set es"
  shows "prefix es' es"
proof -
  have pos: "i < length es' \<Longrightarrow> i < length es \<and> es' ! i = es ! i" for i
  proof (induction i)
    case 0
    then have "es' ! 0 \<in> set es" using assms(4) by force
    moreover have "e_prevHash (es' ! 0) = None" using chain_prev[OF assms(3) 0] by simp
    ultimately have "es' ! 0 = es ! 0" "es \<noteq> []"
      using chain_distinct_link(1)[OF assms(1,2)] by auto
    then show ?case by simp
  next
    case (Suc i)
    then have i: "i < length es" "es' ! i = es ! i" by simp_all
    have "es' ! Suc i \<in> set es" using assms(4) Suc.prems by force
    moreover have "e_prevHash (es' ! Suc i) = Some (e_contentHash (es ! i))"
      using chain_prev[OF assms(3) Suc.prems] i by simp
    ultimately show ?case
      using chain_distinct_link(2)[OF assms(1,2)] i(1) by blast
  qed
  have len: "length es' \<le> length es"
    using pos[of "length es' - 1"] by (cases es') auto
  have "es' = take (length es') es"
    using pos len by (intro nth_equalityI) simp_all
  then show ?thesis by (metis take_is_prefix)
qed

lemma truncated_head:
  assumes "prefix es' es" "validateHead es' (Some (head_of es)) = []"
  shows "es' = es"
proof -
  from assms(2) have "length es \<le> length es'"
    by (simp add: validateHead_iff head_of_def)
  with assms(1) show ?thesis
    by (metis append_eq_conv_conj prefix_def take_all)
qed

text \<open>The sequence number of an event counts the events of its aggregate up to it.\<close>

lemma chain_seq_map:
  "chain_ok h [] es \<Longrightarrow>
     seq_map es a = (let n = length (filter (\<lambda>e. e_aggregateId e = a) es) in
       if n = 0 then None else Some (int n))"
proof (induction es rule: rev_induct)
  case Nil
  then show ?case by (simp add: seq_map_def)
next
  case (snoc e es)
  then have "chain_ok h [] es" and ok: "event_ok h es e"
    by (simp_all add: chain_ok_append)
  note IH = snoc.IH[OF this(1)]
  have "e_seq e = next_seq (seq_map es) (e_aggregateId e)"
    using ok by (simp add: event_ok_def)
  with IH show ?case
    by (cases "e_aggregateId e = a") (auto simp: Let_def next_seq_def split: if_splits)
qed

lemma chain_kind_map:
  "chain_ok h [] es \<Longrightarrow> e \<in> set es \<Longrightarrow> kind_map es (e_aggregateId e) = Some (e_aggregate e)"
proof (induction es rule: rev_induct)
  case (snoc x es)
  then have "chain_ok h [] es" and ok: "event_ok h es x"
    by (simp_all add: chain_ok_append)
  with snoc show ?case
    by (auto simp: know_kind_def event_ok_def)
qed simp

section \<open>A sample log\<close>

text \<open>An item that is created, started and delivered, framed with the hashes of the sample host.\<close>

definition sealed :: "int \<Rightarrow> sha option \<Rightarrow> event_core \<Rightarrow> track_event" where
  "sealed s p core = with_frame core s p (projr (contentHashOf unary_host core))"

definition sample_event :: "string \<Rightarrow> event_type \<Rightarrow> (string \<times> js) list \<Rightarrow> event_core" where
  "sample_event i ty fs = \<lparr>e_id = i, e_type = ty, e_aggregate = AItem, e_aggregateId = ''i1'',
     e_at = ''2026-01-01'', e_by = ''owner'', e_payload = Obj ObjectProto fs, e_prov = None,
     e_clientToken = None, e_cmdId = None, e_cmd = None\<rparr>"

definition sample1 :: track_event where
  "sample1 = sealed 1 None (sample_event ''01'' ItemCreated
     [(''kind'', Str ''bug''), (''title'', Str ''t''), (''workspace'', Str ''w'')])"

definition sample2 :: track_event where
  "sample2 = sealed 2 (Some (e_contentHash sample1))
     (sample_event ''02'' RealizationTransition [(''to'', Str ''in-progress'')])"

definition sample3 :: track_event where
  "sample3 = sealed 3 (Some (e_contentHash sample2))
     (sample_event ''03'' RealizationTransition [(''to'', Str ''done'')])"

definition sample_log :: "track_event list" where
  "sample_log = [sample1, sample2, sample3]"

lemma sealed_sel [simp]:
  "stripFrame (sealed s p c) = c" "e_seq (sealed s p c) = s" "e_prevHash (sealed s p c) = p"
  "e_aggregateId (sealed s p c) = e_aggregateId c" "e_aggregate (sealed s p c) = e_aggregate c"
  "e_cmdId (sealed s p c) = e_cmdId c" "e_cmd (sealed s p c) = e_cmd c" "e_type (sealed s p c) = e_type c"
  "e_payload (sealed s p c) = e_payload c" "e_id (sealed s p c) = e_id c"
  "e_contentHash (sealed s p c) = projr (contentHashOf unary_host c)"
  by (simp_all add: sealed_def)

lemma sample_event_sel [simp]:
  "e_aggregateId (sample_event i ty fs) = ''i1''" "e_aggregate (sample_event i ty fs) = AItem"
  "e_cmdId (sample_event i ty fs) = None" "e_cmd (sample_event i ty fs) = None"
  "e_type (sample_event i ty fs) = ty" "e_payload (sample_event i ty fs) = Obj ObjectProto fs"
  "e_id (sample_event i ty fs) = i"
  by (simp_all add: sample_event_def)

lemma sealed_hash: "inert (e_payload c) \<Longrightarrow> contentHashOf unary_host c = Inr (projr (contentHashOf unary_host c))"
  using contentHashOf_inert[of c unary_host] by auto

lemma sample_no_collision: "no_collision unary_host v w"
  if "inert v" "inert w"
  using that by (simp add: no_collision_def unary_host_def canonicalize_inert)

lemma sample_hash_inject:
  assumes "inert (e_payload c)" "inert (e_payload c')" "projr (contentHashOf unary_host c) = projr (contentHashOf unary_host c')"
  shows "e_id c = e_id c'"
proof -
  have "contentHashOf unary_host c = contentHashOf unary_host c'"
    using assms sealed_hash by metis
  with sample_no_collision[OF inert_core_js inert_core_js, OF assms(1,2)]
  have "norm_core c = norm_core c'"
    by (intro contentHashOf_inject[OF unary_host_prints assms(1,2)])
  then show ?thesis by (cases c; cases c') (simp add: norm_core_def)
qed

lemma sample_hash_neq [simp]:
  "i \<noteq> j \<Longrightarrow> inert (Obj ObjectProto fs) \<Longrightarrow> inert (Obj ObjectProto gs) \<Longrightarrow>
   projr (contentHashOf unary_host (sample_event i ty fs)) \<noteq> projr (contentHashOf unary_host (sample_event j ty' gs))"
  using sample_hash_inject[of "sample_event i ty fs" "sample_event j ty' gs"] by auto

lemma sample_distinct: "distinct (map e_contentHash sample_log)"
  by (simp add: sample_log_def sample1_def sample2_def sample3_def)

lemma event_ok_sealed:
  "inert (e_payload c) \<Longrightarrow> event_ok unary_host pre (sealed s p c) \<longleftrightarrow>
     p = last_hash pre \<and> s = next_seq (seq_map pre) (e_aggregateId c) \<and>
     kind_map pre (e_aggregateId c) \<in> {None, Some (e_aggregate c)} \<and> (e_cmdId c = None \<longleftrightarrow> e_cmd c = None)"
  using sealed_hash[of c] by (simp add: event_ok_def)

lemma sample_valid: "valid_log unary_host sample_log"
proof -
  have "chain_ok unary_host [] sample_log"
    by (simp add: sample_log_def event_ok_sealed sample1_def sample2_def sample3_def last_hash_def seq_map_def
        kind_map_def next_seq_def know_kind_def)
  moreover have "batches_ok sample_log"
    by (simp add: batches_ok_def sample_log_def sample1_def sample2_def sample3_def)
  moreover have "\<forall>e \<in> set sample_log. scope_ok e"
    by (simp add: scope_ok_def sample_log_def sample1_def sample2_def sample3_def)
  moreover have "reopens_ok Map.empty sample_log"
    by (simp add: reopen_ok_def sample_log_def sample1_def sample2_def sample3_def)
  ultimately show ?thesis by (simp add: valid_log_def)
qed

section \<open>Properties\<close>

text \<open>C1. The verdict of the whole check: \<open>validate\<close> reports nothing exactly when every event has the
  hash of its core, the hash of its predecessor, the next number of its aggregate and the one kind
  of its aggregate, every command batch is complete and contiguous, every opened blocker has the
  references its scope demands, every reopening is motivated and corrects a closure, and the head,
  when there is one, is at a position of the log that carries its hash.\<close>

theorem validate_verdict:
  "validate h es hh = Inr [] \<longleftrightarrow>
     (\<forall>i < length es. event_ok h (take i es) (es ! i)) \<and>
     (\<forall>c. members 0 c es = [] \<or> batch_ok (members 0 c es)) \<and> (\<forall>e \<in> set es. scope_ok e) \<and>
     (\<forall>i < length es. reopen_ok (replay (take i es)) (es ! i)) \<and>
     (case hh of None \<Rightarrow> True | Some x \<Rightarrow> streamLength x \<le> int (length es) \<and>
        (streamLength x < 1 \<or> Some (e_contentHash (es ! nat (streamLength x - 1))) = lastContentHash x))"
proof -
  have "reopens_ok k fs \<longleftrightarrow> (\<forall>i < length fs. reopen_ok (fold replay_realization (take i fs) k) (fs ! i))" for k fs
    by (induction fs arbitrary: k) (auto simp: All_less_Suc2)
  then have "reopens_ok Map.empty es \<longleftrightarrow> (\<forall>i < length es. reopen_ok (replay (take i es)) (es ! i))"
    by (simp add: replay_def)
  moreover have "validateHead es hh = [] \<longleftrightarrow> (case hh of None \<Rightarrow> True | Some x \<Rightarrow> streamLength x \<le> int (length es) \<and>
        (streamLength x < 1 \<or> Some (e_contentHash (es ! nat (streamLength x - 1))) = lastContentHash x))"
    by (cases hh) (auto simp: validateHead_iff, simp add: validateHead_def)
  moreover have "batches_ok es \<longleftrightarrow> (\<forall>c. members 0 c es = [] \<or> batch_ok (members 0 c es))"
    by (auto simp: batches_ok_def)
  ultimately show ?thesis
    by (simp add: validate_ok valid_log_def chain_ok_nth)
qed

theorem validate_verdict_witness:
  "validate unary_host sample_log (Some (head_of sample_log)) = Inr [] \<and> event_ok unary_host [sample1] sample2"
proof -
  have ok: "validate unary_host sample_log (Some (head_of sample_log)) = Inr []"
    using sample_valid by (simp add: validate_ok validateHead_self)
  then have all: "\<forall>i < length sample_log. event_ok unary_host (take i sample_log) (sample_log ! i)"
    unfolding validate_verdict by blast
  have "1 < length sample_log" by (simp add: sample_log_def)
  with all have "event_ok unary_host (take 1 sample_log) (sample_log ! 1)" by blast
  with ok show ?thesis by (simp add: sample_log_def)
qed

text \<open>C3. Reordering, repetition and deletion are detected: a log made of the events of a valid log whose
  events have pairwise different content hashes, in any order and any number, validates only if it is a prefix of it, and
  validates against the head of the whole log only if it is the whole log. The hashes differ when the
  identifiers do (collisions of the digest apart); a log that holds one event twice is also valid,
  and for such a log the claim is not made.\<close>

theorem rearranged_log_detected:
  assumes "validate h es None = Inr []" "distinct (map e_contentHash es)" "set es' \<subseteq> set es"
    and "validate h es' hh = Inr []"
  shows "prefix es' es \<and> (hh = Some (head_of es) \<longrightarrow> es' = es)"
proof -
  have pre: "prefix es' es"
    using assms by (intro chain_rearranged_prefix) (auto simp: validate_ok valid_log_def)
  with truncated_head[OF this] assms(4) show ?thesis
    by (auto simp: validate_ok)
qed

theorem rearranged_log_detected_witness:
  "prefix [sample1, sample2] sample_log"
proof -
  have all: "validate unary_host sample_log None = Inr []"
    using sample_valid by (simp add: validate_ok validateHead_def)
  have "valid_log unary_host ([sample1, sample2] @ [sample3])"
    using sample_valid by (simp add: sample_log_def)
  then have "valid_log unary_host [sample1, sample2]"
    unfolding valid_log_append
    by (simp add: valid_log_def batches_ok_def sample1_def sample2_def)
  then have part: "validate unary_host [sample1, sample2] (Some (head_of [sample1, sample2])) = Inr []"
    by (simp add: validate_ok validateHead_self)
  have "set [sample1, sample2] \<subseteq> set sample_log" by (simp add: sample_log_def)
  from rearranged_log_detected[OF all sample_distinct this part] show ?thesis by blast
qed

text \<open>C2. Tampering is detected: replacing any one event of a valid log, head included in the check,
  goes unreported only if the replacement has the core of the original, up to the order of payload
  members, and its frame (collisions of the digest apart).\<close>

theorem tampered_event_detected:
  assumes "prints_numbers h" and "validate h es None = Inr []" and i: "i < length es"
    and "inert (e_payload (es ! i))" "inert (e_payload e)"
    and "no_collision h (core_js (stripFrame e)) (core_js (stripFrame (es ! i)))"
    and "validate h (es[i := e]) (Some (head_of es)) = Inr []"
  shows "norm_core (stripFrame e) = norm_core (stripFrame (es ! i)) \<and> e_prevHash e = e_prevHash (es ! i) \<and>
     e_seq e = e_seq (es ! i) \<and> e_contentHash e = e_contentHash (es ! i)"
proof -
  from assms(2,7) have c: "chain_ok h [] es" and c': "chain_ok h [] (es[i := e])"
    and hd': "validateHead (es[i := e]) (Some (head_of es)) = []"
    by (auto simp: validate_ok valid_log_def)
  have hash: "e_contentHash e = e_contentHash (es ! i)"
  proof (cases "Suc i < length es")
    case True
    with chain_prev[OF c' , of "Suc i"] chain_prev[OF c True] i show ?thesis by simp
  next
    case False
    with i have n: "nat (int (length es) - 1) = i" "int (length es) \<ge> 1" "es \<noteq> []" by auto
    moreover have "length es = Suc i" using False i by simp
    then have "last es = es ! i" using n(3) by (simp add: last_conv_nth)
    ultimately show ?thesis
      using hd' i by (simp add: validateHead_iff head_of_def last_hash_def)
  qed
  from c i have ok: "event_ok h (take i es) (es ! i)" by (simp add: chain_ok_nth)
  from c' i have ok': "event_ok h (take i es) e" by (force simp: chain_ok_nth)
  have core: "norm_core (stripFrame e) = norm_core (stripFrame (es ! i))"
    by (rule contentHashOf_inject[OF assms(1)]) (use assms ok ok' hash in \<open>simp_all add: event_ok_def\<close>)
  then have "e_aggregateId (stripFrame e) = e_aggregateId (stripFrame (es ! i))"
    by (cases "stripFrame e"; cases "stripFrame (es ! i)") (simp add: norm_core_def)
  with core hash ok ok' show ?thesis by (simp add: event_ok_def)
qed

theorem tampered_event_detected_witness:
  "norm_core (stripFrame sample2) = norm_core (stripFrame (sample_log ! 1)) \<and>
   e_prevHash sample2 = e_prevHash (sample_log ! 1) \<and> e_seq sample2 = e_seq (sample_log ! 1) \<and>
   e_contentHash sample2 = e_contentHash (sample_log ! 1)"
proof (rule tampered_event_detected[OF unary_host_prints])
  show "validate unary_host sample_log None = Inr []"
    using sample_valid by (simp add: validate_ok validateHead_def)
  show "validate unary_host (sample_log[1 := sample2]) (Some (head_of sample_log)) = Inr []"
    using sample_valid by (simp add: validate_ok validateHead_self sample_log_def)
qed (simp_all add: sample_log_def sample2_def no_collision_def)

end
