(* ===== verification/Reseal.thy ===== *)
theory Reseal
  imports Integrity
begin

text \<open>
  \<open>packages/track/src/events/reseal.ts\<close>: the repair of a union-merged stream. The four steps of
  \<open>resealEvents\<close> are four definitions: the core-integrity guard, the collapse of duplicate lines,
  the re-framing, and the full validation of the result.
\<close>

section \<open>The four steps\<close>

record reseal_result =
  rr_events :: nat
  rr_resealed :: nat
  rr_deduplicated :: nat

fun coreGuard :: "host \<Rightarrow> track_event list \<Rightarrow> error + unit" where
  "coreGuard h [] = Inr ()"
| "coreGuard h (e # es) =
     bindR (contentHashOf h (stripFrame e)) (\<lambda>expected.
     if e_contentHash e \<noteq> expected
     then Inl (IntegrityError ''reseal: content-hash mismatch, refusing to reseal a tampered event'')
     else coreGuard h es)"

fun collapse :: "(ulid \<rightharpoonup> sha) \<Rightarrow> track_event list \<Rightarrow> error + (track_event list \<times> nat)" where
  "collapse first [] = Inr ([], 0)"
| "collapse first (e # es) =
     (case first (e_id e) of
        None \<Rightarrow> bindR (collapse (first(e_id e \<mapsto> e_contentHash e)) es) (\<lambda>(us, d). Inr (e # us, d))
      | Some known \<Rightarrow>
          if known = e_contentHash e
          then bindR (collapse first es) (\<lambda>(us, d). Inr (us, Suc d))
          else Inl (IntegrityError ''reseal: duplicate-event-id with divergent content, refusing to reseal''))"

definition reframed :: "(ulid \<rightharpoonup> int) \<Rightarrow> sha option \<Rightarrow> track_event \<Rightarrow> track_event" where
  "reframed nextSeq prev e =
     with_frame (stripFrame e) (next_seq nextSeq (e_aggregateId e)) prev (e_contentHash e)"

fun reframe :: "(ulid \<rightharpoonup> int) \<Rightarrow> sha option \<Rightarrow> track_event list \<Rightarrow> track_event list \<times> nat" where
  "reframe nextSeq prev [] = ([], 0)"
| "reframe nextSeq prev (e # es) =
     (let r = reframed nextSeq prev e;
          (out, n) = reframe (nextSeq(e_aggregateId e \<mapsto> e_seq r)) (Some (e_contentHash e)) es in
      (r # out, if e_seq r \<noteq> e_seq e \<or> e_prevHash r \<noteq> e_prevHash e then Suc n else n))"

definition resealEvents :: "host \<Rightarrow> track_event list \<Rightarrow> error + (track_event list \<times> reseal_result)" where
  "resealEvents h es =
     bindR (coreGuard h es) (\<lambda>_.
     bindR (collapse Map.empty es) (\<lambda>(unique, deduplicated).
     let (out, resealed) = reframe Map.empty None unique;
         hh = \<lparr>streamLength = int (length out), lastContentHash = last_hash unique\<rparr> in
     bindR (validate h out (Some hh)) (\<lambda>findings.
     if findings \<noteq> []
     then Inl (IntegrityError ''reseal: the resealed stream fails validate, refusing to write'')
     else Inr (out, \<lparr>rr_events = length out, rr_resealed = resealed, rr_deduplicated = deduplicated\<rparr>))))"

section \<open>The guard and the collapse\<close>

definition hash_ok :: "host \<Rightarrow> track_event \<Rightarrow> bool" where
  "hash_ok h e \<longleftrightarrow> contentHashOf h (stripFrame e) = Inr (e_contentHash e)"

lemma coreGuard_Inr: "coreGuard h es = Inr u \<longleftrightarrow> (\<forall>e \<in> set es. hash_ok h e)"
  by (induction es) (auto simp: hash_ok_def bindR_eq_Inr)

text \<open>The same identifier always comes with the same hash.\<close>

definition consistent_ids :: "track_event list \<Rightarrow> bool" where
  "consistent_ids es \<longleftrightarrow> (\<forall>e \<in> set es. \<forall>e' \<in> set es. e_id e = e_id e' \<longrightarrow> e_contentHash e = e_contentHash e')"

lemma consistent_ids_Cons:
  "consistent_ids (e # es) \<longleftrightarrow>
     consistent_ids es \<and> (\<forall>x \<in> set es. e_id x = e_id e \<longrightarrow> e_contentHash x = e_contentHash e)"
proof
  assume "consistent_ids (e # es)"
  then show "consistent_ids es \<and> (\<forall>x \<in> set es. e_id x = e_id e \<longrightarrow> e_contentHash x = e_contentHash e)"
    unfolding consistent_ids_def by (meson list.set_intros)
next
  assume r: "consistent_ids es \<and> (\<forall>x \<in> set es. e_id x = e_id e \<longrightarrow> e_contentHash x = e_contentHash e)"
  show "consistent_ids (e # es)"
    unfolding consistent_ids_def
  proof (intro ballI impI)
    fix a b
    assume "a \<in> set (e # es)" "b \<in> set (e # es)" "e_id a = e_id b"
    with r show "e_contentHash a = e_contentHash b"
      unfolding consistent_ids_def by (elim set_ConsD[THEN disjE]) metis+
  qed
qed

fun first_of_id :: "ulid set \<Rightarrow> track_event list \<Rightarrow> track_event list" where
  "first_of_id ids [] = []"
| "first_of_id ids (e # es) =
     (if e_id e \<in> ids then first_of_id ids es else e # first_of_id (insert (e_id e) ids) es)"

lemma collapse_spec:
  "collapse first es = Inr (us, d) \<Longrightarrow>
     us = first_of_id (dom first) es \<and> length us + d = length es \<and>
     (\<forall>e \<in> set es. case first (e_id e) of Some x \<Rightarrow> e_contentHash e = x | None \<Rightarrow> True) \<and> consistent_ids es"
proof (induction es arbitrary: first us d)
  case (Cons e es)
  show ?case
  proof (cases "first (e_id e)")
    case None
    with Cons.prems obtain us' where rest: "collapse (first(e_id e \<mapsto> e_contentHash e)) es = Inr (us', d)"
      and us: "us = e # us'"
      by (auto simp: bindR_eq_Inr)
    note IH = Cons.IH[OF rest]
    then have same: "\<forall>x \<in> set es. e_id x = e_id e \<longrightarrow> e_contentHash x = e_contentHash e"
      by (metis fun_upd_same option.simps(5))
    have other: "\<forall>x \<in> set es. case first (e_id x) of Some y \<Rightarrow> e_contentHash x = y | None \<Rightarrow> True"
    proof
      fix x
      assume "x \<in> set es"
      with IH have "case (first(e_id e \<mapsto> e_contentHash e)) (e_id x) of Some y \<Rightarrow> e_contentHash x = y | None \<Rightarrow> True"
        by blast
      with None show "case first (e_id x) of Some y \<Rightarrow> e_contentHash x = y | None \<Rightarrow> True"
        by (cases "e_id x = e_id e") simp_all
    qed
    have "consistent_ids (e # es)"
      unfolding consistent_ids_Cons using IH same by blast
    moreover have "e_id e \<notin> dom first" using None by (simp add: domIff)
    moreover have "us' = first_of_id (insert (e_id e) (dom first)) es" "length us' + d = length es"
      using conjunct1[OF IH] conjunct1[OF conjunct2[OF IH]]
      by (simp_all only: dom_fun_upd option.distinct if_False)
    ultimately have "consistent_ids (e # es)" "us = first_of_id (dom first) (e # es)"
      "length us + d = length (e # es)"
      by (simp_all add: us)
    then show ?thesis using None other by simp
  next
    case (Some x)
    with Cons.prems obtain d' where rest: "collapse first es = Inr (us, d')" and d: "d = Suc d'"
      and x: "x = e_contentHash e"
      by (auto simp: bindR_eq_Inr split: if_splits)
    note IH = Cons.IH[OF rest]
    then have same: "\<forall>y \<in> set es. e_id y = e_id e \<longrightarrow> e_contentHash y = e_contentHash e"
      using Some x by (metis option.simps(5))
    have "consistent_ids (e # es)"
      unfolding consistent_ids_Cons using IH same by blast
    moreover have "us = first_of_id (dom first) (e # es)" "length us + d = length (e # es)"
      using conjunct1[OF IH] conjunct1[OF conjunct2[OF IH]] Some d by (auto simp: domI)
    ultimately show ?thesis using Some x IH by simp
  qed
qed (simp add: consistent_ids_def)

lemma collapse_ex:
  assumes "consistent_ids es"
    and "\<forall>e \<in> set es. case first (e_id e) of Some x \<Rightarrow> e_contentHash e = x | None \<Rightarrow> True"
  shows "\<exists>us d. collapse first es = Inr (us, d)"
  using assms
proof (induction es arbitrary: first)
  case (Cons e es)
  then have con: "consistent_ids es" unfolding consistent_ids_Cons by blast
  show ?case
  proof (cases "first (e_id e)")
    case None
    have "\<forall>x \<in> set es. case (first(e_id e \<mapsto> e_contentHash e)) (e_id x) of Some y \<Rightarrow> e_contentHash x = y | None \<Rightarrow> True"
    proof
      fix x
      assume "x \<in> set es"
      then have "e_id x = e_id e \<longrightarrow> e_contentHash x = e_contentHash e"
        using Cons.prems(1) unfolding consistent_ids_Cons by blast
      moreover have "case first (e_id x) of Some y \<Rightarrow> e_contentHash x = y | None \<Rightarrow> True"
        using Cons.prems(2) \<open>x \<in> set es\<close> by simp
      ultimately show "case (first(e_id e \<mapsto> e_contentHash e)) (e_id x) of Some y \<Rightarrow> e_contentHash x = y | None \<Rightarrow> True"
        by (cases "e_id x = e_id e") simp_all
    qed
    from Cons.IH[OF con this] obtain us d
      where "collapse (first(e_id e \<mapsto> e_contentHash e)) es = Inr (us, d)" by blast
    then show ?thesis
      by (simp only: collapse.simps None option.case bindR_Inr prod.case) blast
  next
    case (Some x)
    from Cons.IH[OF con, of first] Cons.prems Some show ?thesis by auto
  qed
qed simp

lemma first_of_id_distinct: "distinct (map e_id (first_of_id ids es)) \<and> e_id ` set (first_of_id ids es) = e_id ` set es - ids"
  by (induction ids es rule: first_of_id.induct) auto

lemma first_of_id_subseq: "subseq (first_of_id ids es) es"
  by (induction ids es rule: first_of_id.induct) auto

lemma first_of_id_id: "distinct (map e_id es) \<Longrightarrow> e_id ` set es \<inter> ids = {} \<Longrightarrow> first_of_id ids es = es"
  by (induction ids es rule: first_of_id.induct) auto

section \<open>The re-framing\<close>

lemma reframe_length: "length (fst (reframe s p es)) = length es"
  by (induction es arbitrary: s p) (simp_all add: Let_def case_prod_beta)

lemma reframe_cores:
  "map stripFrame (fst (reframe s p es)) = map stripFrame es \<and>
   map e_contentHash (fst (reframe s p es)) = map e_contentHash es"
  by (induction es arbitrary: s p) (simp_all add: Let_def reframed_def case_prod_beta)

text \<open>After a prefix, a stream is its own re-framing exactly when its frame is the expected one.\<close>

lemma reframe_chain:
  "chain_ok h pre es \<Longrightarrow> reframe (seq_map pre) (last_hash pre) es = (es, 0)"
proof (induction es arbitrary: pre)
  case (Cons e es)
  then have ok: "event_ok h pre e" and rest: "chain_ok h (pre @ [e]) es" by simp_all
  have "reframed (seq_map pre) (last_hash pre) e = e"
    using ok with_frame_stripFrame[of e] by (simp add: reframed_def event_ok_def)
  then show ?case
    by (simp only: reframe.simps Let_def Cons.IH[OF rest, unfolded seq_map_snoc last_hash_snoc] prod.case)
      simp
qed simp

section \<open>Reseal\<close>

lemma resealEvents_Inr:
  "resealEvents h es = Inr (out, r) \<longleftrightarrow>
     (\<forall>e \<in> set es. hash_ok h e) \<and>
     (\<exists>us d. collapse Map.empty es = Inr (us, d) \<and> out = fst (reframe Map.empty None us) \<and>
        valid_log h out \<and> validateHead out (Some (head_of out)) = [] \<and>
        r = \<lparr>rr_events = length out, rr_resealed = snd (reframe Map.empty None us), rr_deduplicated = d\<rparr>)"
proof -
  have last: "last_hash us = last_hash (fst (reframe Map.empty None us))" for us
  proof (cases "us = []")
    case False
    let ?o = "fst (reframe Map.empty None us)"
    have "?o \<noteq> []" using False reframe_length by (metis length_0_conv)
    then have "e_contentHash (last ?o) = last (map e_contentHash ?o)" by (simp add: last_map)
    also have "\<dots> = e_contentHash (last us)"
      using False reframe_cores by (simp add: last_map)
    finally show ?thesis using False \<open>?o \<noteq> []\<close> by (simp add: last_hash_def)
  qed simp
  show ?thesis
    by (simp only: resealEvents_def bindR_eq_Inr coreGuard_Inr head_of_def[symmetric] last[symmetric] Let_def
          case_prod_beta validate_ok if_Inl_Inr split_paired_Ex)
      (auto simp: validate_ok head_of_def last[symmetric])
qed

lemma reseal_ids:
  assumes "resealEvents h es = Inr (out, r)"
  shows "map stripFrame out = map stripFrame (first_of_id {} es)"
    and "map e_contentHash out = map e_contentHash (first_of_id {} es)"
    and "rr_events r = length out" and "length out + rr_deduplicated r = length es"
    and "valid_log h out"
proof -
  from assms obtain us d where col: "collapse Map.empty es = Inr (us, d)"
    and out: "out = fst (reframe Map.empty None us)" and r: "rr_events r = length out" "rr_deduplicated r = d"
    and valid: "valid_log h out"
    unfolding resealEvents_Inr by auto
  from collapse_spec[OF col] have us: "us = first_of_id {} es" "length us + d = length es"
    unfolding dom_empty by blast+
  show "map stripFrame out = map stripFrame (first_of_id {} es)"
    "map e_contentHash out = map e_contentHash (first_of_id {} es)"
    using reframe_cores[of Map.empty None us] by (simp_all add: out us(1))
  show "rr_events r = length out" "valid_log h out" by (fact r(1) valid)+
  show "length out + rr_deduplicated r = length es"
    using us r by (simp add: out reframe_length)
qed

lemma map_id_of_core: "map e_id es = map e_id (map stripFrame es)"
  by simp

lemma reseal_noop:
  assumes "valid_log h es" "distinct (map e_id es)"
  shows "resealEvents h es = Inr (es, \<lparr>rr_events = length es, rr_resealed = 0, rr_deduplicated = 0\<rparr>)"
proof -
  have chain: "chain_ok h [] es" using assms(1) by (simp add: valid_log_def)
  then have "\<forall>e \<in> set es. hash_ok h e"
    by (auto simp: chain_ok_nth event_ok_def hash_ok_def in_set_conv_nth)
  moreover have "consistent_ids es"
    unfolding consistent_ids_def using assms(2) by (metis distinct_map inj_on_def)
  then obtain us d where col: "collapse Map.empty es = Inr (us, d)"
    using collapse_ex[of es Map.empty] by auto
  moreover have us: "us = es"
    using conjunct1[OF collapse_spec[OF col]] first_of_id_id[OF assms(2), of "{}"] by simp
  moreover have "d = 0"
    using conjunct1[OF conjunct2[OF collapse_spec[OF col]]] us by simp
  moreover have "reframe Map.empty None es = (es, 0)"
    using reframe_chain[OF chain] by (simp add: seq_map_def)
  ultimately show ?thesis
    unfolding resealEvents_Inr using assms(1) validateHead_self by auto
qed

section \<open>Merged branches\<close>

text \<open>Re-framing makes a chain out of any events with sound hashes and consistent aggregates.\<close>

fun kinds_ok :: "(ulid \<rightharpoonup> aggregate) \<Rightarrow> track_event list \<Rightarrow> bool" where
  "kinds_ok kinds [] = True"
| "kinds_ok kinds (e # es) =
     (kinds (e_aggregateId e) \<in> {None, Some (e_aggregate e)} \<and> kinds_ok (know_kind e kinds) es)"

definition aggs :: "track_event list \<Rightarrow> ulid set" where
  "aggs es = e_aggregateId ` set es"

definition framed :: "host \<Rightarrow> track_event \<Rightarrow> bool" where
  "framed h e \<longleftrightarrow> hash_ok h e \<and> (e_cmdId e = None \<longleftrightarrow> e_cmd e = None)"

lemma know_kind_reframed [simp]: "know_kind (reframed s p e) kinds = know_kind e kinds"
  by (simp add: know_kind_def reframed_def)

lemma chain_ok_reframe:
  "\<forall>e \<in> set es. framed h e \<Longrightarrow> kinds_ok (kind_map pre) es \<Longrightarrow>
     chain_ok h pre (fst (reframe (seq_map pre) (last_hash pre) es))"
proof (induction es arbitrary: pre)
  case (Cons e es)
  let ?r = "reframed (seq_map pre) (last_hash pre) e"
  have r: "e_aggregateId ?r = e_aggregateId e" "e_contentHash ?r = e_contentHash e"
    by (simp_all add: reframed_def)
  have "event_ok h pre ?r"
    using Cons.prems by (auto simp: event_ok_def reframed_def framed_def hash_ok_def)
  moreover have "chain_ok h (pre @ [?r]) (fst (reframe (seq_map (pre @ [?r])) (last_hash (pre @ [?r])) es))"
    using Cons.prems by (intro Cons.IH) simp_all
  ultimately show ?case
    by (simp add: Let_def case_prod_beta r)
qed simp

lemma reframe_append:
  "chain_ok h pre xs \<Longrightarrow> fst (reframe (seq_map pre) (last_hash pre) (xs @ ys)) =
     xs @ fst (reframe (seq_map (pre @ xs)) (last_hash (pre @ xs)) ys)"
proof (induction xs arbitrary: pre)
  case (Cons e xs)
  then have ok: "event_ok h pre e" and rest: "chain_ok h (pre @ [e]) xs" by simp_all
  have same: "reframed (seq_map pre) (last_hash pre) e = e"
    using ok with_frame_stripFrame[of e] by (simp add: reframed_def event_ok_def)
  from Cons.IH[OF rest, unfolded seq_map_snoc last_hash_snoc]
  have "fst (reframe ((seq_map pre)(e_aggregateId e \<mapsto> e_seq e)) (Some (e_contentHash e)) (xs @ ys)) =
      xs @ fst (reframe (seq_map ((pre @ [e]) @ xs)) (last_hash ((pre @ [e]) @ xs)) ys)" .
  then show ?case
    by (simp only: append_Cons reframe.simps Let_def case_prod_beta same fst_conv) simp
qed simp

lemma know_kind_other: "a \<noteq> e_aggregateId e \<Longrightarrow> know_kind e kinds a = kinds a"
  by (simp add: know_kind_def)

lemma fold_know_kind_other: "a \<notin> aggs es \<Longrightarrow> fold know_kind es kinds a = kinds a"
  by (induction es arbitrary: kinds) (auto simp: aggs_def know_kind_other)

lemma kinds_ok_agree:
  "kinds_ok k es \<Longrightarrow> \<forall>a \<in> aggs es. k' a = k a \<Longrightarrow> kinds_ok k' es"
proof (induction es arbitrary: k k')
  case (Cons e es)
  have "\<forall>a \<in> aggs es. know_kind e k' a = know_kind e k a"
    using Cons.prems(2) by (auto simp: aggs_def know_kind_def)
  with Cons show ?case by (auto simp: aggs_def)
qed simp

lemma chain_kinds_ok: "chain_ok h pre es \<Longrightarrow> kinds_ok (kind_map pre) es"
proof (induction es arbitrary: pre)
  case (Cons e es)
  from Cons.IH[of "pre @ [e]"] Cons.prems show ?case by (simp add: event_ok_def)
qed simp

lemma chain_framed: "chain_ok h pre es \<Longrightarrow> e \<in> set es \<Longrightarrow> framed h e"
  by (induction es arbitrary: pre) (auto simp: event_ok_def framed_def hash_ok_def)

lemma replay_other: "a \<noteq> e_aggregateId e \<Longrightarrow> replay_realization e known a = known a"
  by (auto simp: replay_realization_def split: js.split)

lemma fold_replay_other: "a \<notin> aggs es \<Longrightarrow> fold replay_realization es known a = known a"
  by (induction es arbitrary: known) (auto simp: aggs_def replay_other)

lemma replay_agree: "k' (e_aggregateId e) = k (e_aggregateId e) \<Longrightarrow>
    replay_realization e k' (e_aggregateId e) = replay_realization e k (e_aggregateId e)"
  by (auto simp: replay_realization_def split: js.split)

lemma reopens_ok_agree:
  "reopens_ok k es \<Longrightarrow> \<forall>a \<in> aggs es. k' a = k a \<Longrightarrow> reopens_ok k' es"
proof (induction es arbitrary: k k')
  case (Cons e es)
  have "replay_realization e k' a = replay_realization e k a" if "a \<in> aggs es" for a
    using that Cons.prems(2) replay_agree[of k' e k] by (cases "a = e_aggregateId e") (auto simp: aggs_def replay_other)
  with Cons show ?case by (auto simp: aggs_def reopen_ok_def)
qed simp

lemma core_stable:
  assumes "map stripFrame xs = map stripFrame ys"
  shows "members i c xs = members i c ys"
    and "reopens_ok k xs = reopens_ok k ys"
    and "(\<forall>e \<in> set xs. scope_ok e) = (\<forall>e \<in> set ys. scope_ok e)"
proof -
  have core: "member_of i e = member_of i e'" "e_cmdId e = e_cmdId e'" "reopen_ok k e = reopen_ok k e'"
    "replay_realization e k = replay_realization e' k" "scope_ok e = scope_ok e'"
    if "stripFrame e = stripFrame e'" for e e' :: track_event and i k
  proof -
    from that have "e_cmd e = e_cmd e'" and id: "e_cmdId e = e_cmdId e'" and "e_type e = e_type e'"
      "e_payload e = e_payload e'" "e_aggregateId e = e_aggregateId e'"
      by (metis stripFrame_sel)+
    then show "member_of i e = member_of i e'" "e_cmdId e = e_cmdId e'" "reopen_ok k e = reopen_ok k e'"
      "replay_realization e k = replay_realization e' k" "scope_ok e = scope_ok e'"
      by (auto simp: member_of_def reopen_ok_def replay_realization_def scope_ok_def addressesAggregate_def
          cong: js.case_cong)
  qed
  have rel: "list_all2 (\<lambda>e e'. stripFrame e = stripFrame e') xs ys"
    using assms by (simp add: list_all2_conv_all_nth list_eq_iff_nth_eq)
  show "members i c xs = members i c ys"
    using rel
  proof (induction arbitrary: i rule: list_all2_induct)
    case (Cons x xs y ys)
    from core(1,2)[OF Cons.hyps(1)] Cons.IH show ?case by simp
  qed simp
  show "reopens_ok k xs = reopens_ok k ys"
    using rel
  proof (induction arbitrary: k rule: list_all2_induct)
    case (Cons x xs y ys)
    from core(3,4)[OF Cons.hyps(1)] Cons.IH show ?case by simp
  qed simp
  show "(\<forall>e \<in> set xs. scope_ok e) = (\<forall>e \<in> set ys. scope_ok e)"
    using rel
  proof (induction rule: list_all2_induct)
    case (Cons x xs y ys)
    from core(5)[OF Cons.hyps(1)] Cons.IH show ?case by simp
  qed simp
qed

text \<open>The verdict on a batch does not depend on where the stream it sits in starts.\<close>

lemma members_shift: "members (i + k) c es = map (\<lambda>m. m\<lparr>bm_index := bm_index m + k\<rparr>) (members i c es)"
  by (induction es arbitrary: i) (simp_all add: member_of_def, metis add_Suc)

lemma batch_ok_shift: "batch_ok (map (\<lambda>m. m\<lparr>bm_index := bm_index m + k\<rparr>) ms) \<longleftrightarrow> batch_ok ms"
proof (cases "ms = []")
  case False
  let ?I = "bm_index ` set ms"
  have img: "bm_index ` (\<lambda>m. m\<lparr>bm_index := bm_index m + k\<rparr>) ` set ms = (\<lambda>i. i + k) ` ?I"
    by (auto simp: image_iff)
  have mono: "mono (\<lambda>i::nat. i + k)" by (simp add: mono_def)
  have "Max ((\<lambda>i. i + k) ` ?I) = Max ?I + k" "Min ((\<lambda>i. i + k) ` ?I) = Min ?I + k"
    using mono_Max_commute[OF mono, of ?I] mono_Min_commute[OF mono, of ?I] False by simp_all
  then show ?thesis
    by (auto simp: batch_ok_def img comp_def image_image)
qed (simp add: batch_ok_def)

definition cmds :: "track_event list \<Rightarrow> ulid set" where
  "cmds es = {c. \<exists>e \<in> set es. e_cmdId e = Some c}"

lemma members_outside: "c \<notin> cmds es \<Longrightarrow> members i c es = []"
  by (rule members_none) (simp add: cmds_def)

lemma members_inside: "members i c es \<noteq> [] \<Longrightarrow> c \<in> cmds es"
  using members_outside by blast

text \<open>Two valid extensions of one log, over different aggregates and with their own commands,
  merged line by line.\<close>

lemma merged_batches:
  assumes "batches_ok (p @ a)" "batches_ok (p @ b)"
    and "cmds p \<inter> cmds a = {}" "cmds p \<inter> cmds b = {}" "cmds a \<inter> cmds b = {}"
  shows "batches_ok (p @ a @ b)"
proof -
  have "batches_ok ((p @ a) @ b)"
  proof (rule batches_ok_append[OF assms(1)])
    fix c
    assume "members (length (p @ a)) c b \<noteq> []"
    then have c: "c \<in> cmds b" by (rule members_inside)
    with assms(4,5) have out: "c \<notin> cmds p" "c \<notin> cmds a" by auto
    let ?m = "members 0 c (p @ b)"
    have "?m = members (length p) c b"
      using out by (simp add: members_append members_outside)
    then have eq: "members (length (p @ a)) c b = map (\<lambda>m. m\<lparr>bm_index := bm_index m + length a\<rparr>) ?m"
      using members_shift[of "length p" "length a" c b] by simp
    then have "?m \<noteq> []"
      using \<open>members (length (p @ a)) c b \<noteq> []\<close> by auto
    then have "batch_ok ?m"
      using assms(2) unfolding batches_ok_def by blast
    then have "batch_ok (members (length (p @ a)) c b)"
      unfolding eq batch_ok_shift .
    moreover have "members 0 c (p @ a) = []"
      using out by (simp add: members_append members_outside)
    ultimately show "members 0 c (p @ a) = [] \<and> batch_ok (members (length (p @ a)) c b)"
      by blast
  qed
  then show ?thesis by simp
qed

lemma merged_valid:
  assumes a: "valid_log h (p @ a)" and b: "valid_log h (p @ b)"
    and "aggs a \<inter> aggs b = {}"
    and cmds: "cmds p \<inter> cmds a = {}" "cmds p \<inter> cmds b = {}" "cmds a \<inter> cmds b = {}"
  shows "valid_log h (fst (reframe Map.empty None (p @ a @ b)))"
proof -
  define b' where "b' = fst (reframe (seq_map (p @ a)) (last_hash (p @ a)) b)"
  have chain_a: "chain_ok h [] (p @ a)" and chain_b: "chain_ok h p b" "chain_ok h [] p"
    using a b by (simp_all add: valid_log_def chain_ok_append)
  have out: "fst (reframe Map.empty None (p @ a @ b)) = (p @ a) @ b'"
    using reframe_append[OF chain_a, of b] by (simp add: seq_map_def b'_def)
  have core: "map stripFrame b' = map stripFrame b"
    using reframe_cores unfolding b'_def by blast
  have "kind_map (p @ a) x = kind_map p x" if "x \<in> aggs b" for x
    using that assms(3) fold_know_kind_other[of x a] by (auto simp: kind_map_def)
  then have "kinds_ok (kind_map (p @ a)) b"
    using kinds_ok_agree[OF chain_kinds_ok[OF chain_b(1)]] by blast
  then have chain: "chain_ok h (p @ a) b'"
    unfolding b'_def using chain_framed[OF chain_b(1)] by (intro chain_ok_reframe) auto
  have "replay (p @ a) x = replay p x" if "x \<in> aggs b" for x
    using that assms(3) fold_replay_other[of x a] by (auto simp: replay_def)
  moreover have "reopens_ok (replay p) b"
    using b by (simp add: valid_log_append)
  ultimately have reopens: "reopens_ok (replay (p @ a)) b'"
    using reopens_ok_agree core_stable(2)[OF core] by blast
  have "members 0 c ((p @ a) @ b') = members 0 c (p @ a @ b)" for c
    using core_stable(1)[OF core] by (simp add: members_append)
  then have batches: "batches_ok ((p @ a) @ b')"
    using merged_batches[OF _ _ cmds] a b by (simp add: batches_ok_def valid_log_def)
  have "\<forall>e \<in> set b'. scope_ok e"
    using core_stable(3)[OF core] b by (auto simp: valid_log_def)
  then show ?thesis
    unfolding out valid_log_append[of h "p @ a" b']
    using a[unfolded valid_log_def] chain batches reopens by blast
qed

lemma reseal_merge:
  assumes a: "valid_log h (p @ a)" and b: "valid_log h (p @ b)"
    and "aggs a \<inter> aggs b = {}" "cmds p \<inter> cmds a = {}" "cmds p \<inter> cmds b = {}" "cmds a \<inter> cmds b = {}"
    and dist: "distinct (map e_id (p @ a @ b))"
  shows "\<exists>out r. resealEvents h (p @ a @ b) = Inr (out, r) \<and> rr_deduplicated r = 0 \<and>
     map stripFrame out = map stripFrame (p @ a @ b) \<and> prefix (p @ a) out"
proof -
  let ?es = "p @ a @ b"
  have chains: "chain_ok h [] (p @ a)" "chain_ok h p b"
    using a b by (simp_all add: valid_log_def chain_ok_append)
  have "\<forall>e \<in> set ?es. hash_ok h e"
    using chain_framed[OF chains(1)] chain_framed[OF chains(2)] by (auto simp: framed_def)
  moreover have "consistent_ids ?es"
    unfolding consistent_ids_def using dist by (metis distinct_map inj_on_def)
  then obtain us d where col: "collapse Map.empty ?es = Inr (us, d)"
    using collapse_ex[of ?es Map.empty] by auto
  have us: "us = ?es"
    using conjunct1[OF collapse_spec[OF col]] first_of_id_id[OF dist, of "{}"] by simp
  moreover have "d = 0"
    using conjunct1[OF conjunct2[OF collapse_spec[OF col]]] us by simp
  moreover define out where "out = fst (reframe Map.empty None ?es)"
  moreover have "valid_log h out"
    unfolding out_def by (rule merged_valid[OF assms(1-6)])
  ultimately have "resealEvents h ?es = Inr (out, \<lparr>rr_events = length out,
      rr_resealed = snd (reframe Map.empty None ?es), rr_deduplicated = 0\<rparr>)"
    unfolding resealEvents_Inr using col validateHead_self by auto
  moreover have "map stripFrame out = map stripFrame ?es"
    unfolding out_def using reframe_cores by blast
  moreover have "prefix (p @ a) out"
    using reframe_append[OF chains(1), of b] by (simp add: out_def seq_map_def)
  ultimately show ?thesis by fastforce
qed

section \<open>Properties\<close>

text \<open>C16. Resealing only reframes: what it writes is a valid log whose cores and hashes are, in order,
  those of the first occurrence of every event identifier, and the counts it reports add up.\<close>

theorem reseal_keeps_events:
  assumes "resealEvents h es = Inr (out, r)"
  shows "map stripFrame out = map stripFrame (first_of_id {} es) \<and>
     map e_contentHash out = map e_contentHash (first_of_id {} es) \<and> valid_log h out \<and>
     rr_events r = length out \<and> length out + rr_deduplicated r = length es"
  using reseal_ids[OF assms] by simp

theorem reseal_keeps_events_witness:
  "\<exists>out r. resealEvents unary_host (sample_log @ [sample2]) = Inr (out, r) \<and> length out + rr_deduplicated r = 4"
proof -
  have "collapse Map.empty (sample_log @ [sample2]) = Inr (sample_log, 1)"
    by (simp add: sample_log_def) (simp add: sample1_def sample2_def sample3_def)
  moreover have "reframe Map.empty None sample_log = (sample_log, 0)"
    using reframe_chain[of unary_host "[]" sample_log] sample_valid by (simp add: valid_log_def seq_map_def)
  moreover have "\<forall>e \<in> set (sample_log @ [sample2]). hash_ok unary_host e"
    by (simp add: sample_log_def hash_ok_def sample1_def sample2_def sample3_def sealed_hash[symmetric])
  ultimately have run: "resealEvents unary_host (sample_log @ [sample2]) =
      Inr (sample_log, \<lparr>rr_events = 3, rr_resealed = 0, rr_deduplicated = 1\<rparr>)"
    using sample_valid by (simp add: resealEvents_Inr validateHead_self) (simp add: sample_log_def)
  from reseal_keeps_events[OF run] run show ?thesis by (auto simp: sample_log_def)
qed

text \<open>Resealing is idempotent: a log with distinct event identifiers that validates is returned
  unchanged, with nothing resealed and nothing dropped, so resealing a resealed log does nothing.\<close>

theorem reseal_idempotent:
  assumes "resealEvents h es = Inr (out, r)"
  shows "resealEvents h out = Inr (out, \<lparr>rr_events = length out, rr_resealed = 0, rr_deduplicated = 0\<rparr>)"
proof (rule reseal_noop)
  show "valid_log h out" using reseal_ids(5)[OF assms] .
  have "map e_id out = map e_id (first_of_id {} es)"
    using reseal_ids(1)[OF assms] by (metis map_id_of_core)
  then show "distinct (map e_id out)" using first_of_id_distinct[of "{}" es] by simp
qed

theorem reseal_idempotent_witness:
  "resealEvents unary_host sample_log = Inr (sample_log, \<lparr>rr_events = length sample_log, rr_resealed = 0, rr_deduplicated = 0\<rparr>)"
proof -
  have "distinct (map e_id sample_log)"
    by (simp add: sample_log_def sample1_def sample2_def sample3_def)
  from reseal_noop[OF sample_valid this]
  show ?thesis by (rule reseal_idempotent)
qed

text \<open>C15. A union merge can be resealed: when two branches extended one valid log with events of
  different aggregates and different commands, and the identifiers of the events of the log and of both
  branches are all distinct, the merge of the three parts reseals, keeps every
  event, and keeps the log of the first branch as it is.\<close>

theorem reseal_union_merge:
  assumes "valid_log h (p @ a)" "valid_log h (p @ b)" and "aggs a \<inter> aggs b = {}"
    and "cmds p \<inter> cmds a = {}" "cmds p \<inter> cmds b = {}" "cmds a \<inter> cmds b = {}"
    and "distinct (map e_id (p @ a @ b))"
  shows "\<exists>out r. resealEvents h (p @ a @ b) = Inr (out, r) \<and> rr_deduplicated r = 0 \<and>
     map stripFrame out = map stripFrame (p @ a @ b) \<and> prefix (p @ a) out"
  by (rule reseal_merge[OF assms])

theorem reseal_union_merge_witness:
  "\<exists>out r. resealEvents unary_host ([] @ sample_log @ [sealed 1 None ((sample_event ''09'' ItemCreated [])\<lparr>e_aggregateId := ''i2''\<rparr>)])
       = Inr (out, r) \<and> rr_deduplicated r = 0 \<and>
     map stripFrame out = map stripFrame ([] @ sample_log @
       [sealed 1 None ((sample_event ''09'' ItemCreated [])\<lparr>e_aggregateId := ''i2''\<rparr>)]) \<and>
     prefix ([] @ sample_log) out"
proof (rule reseal_union_merge)
  let ?e = "sealed 1 None ((sample_event ''09'' ItemCreated [])\<lparr>e_aggregateId := ''i2''\<rparr>)"
  show "valid_log unary_host ([] @ sample_log)" using sample_valid by simp
  show "valid_log unary_host ([] @ [?e])"
    by (simp add: valid_log_def event_ok_sealed next_seq_def seq_map_def kind_map_def batches_ok_def scope_ok_def
        reopen_ok_def)
qed (auto simp: aggs_def cmds_def sample_log_def sample1_def sample2_def sample3_def)

end
