(* ===== verification/Store.thy ===== *)
theory Store
  imports Reseal
begin

text \<open>
  \<open>packages/track/src/events/store.ts\<close>: the append-only store over \<open>.track/events.jsonl\<close> and the
  writing half of \<open>head.ts\<close>. The files are the state: the pieces of the log between its newlines, each blank,
  an event or unparseable, as \<open>raw.split('\n')\<close> gives them, and the parsed content of \<open>head.json\<close>. The last piece
  is what follows the last newline: it is blank in a log that ends with one, and text appended to the file
  continues it (\<open>append_text\<close>). A line that is written is the canonical text
  of the event, so what is read back is the event with the members of its payload in canonical
  order (\<open>persisted\<close>). What the disk does with a write is a parameter (\<open>disk\<close>): the check after the
  write is there because it may not be what was asked. The critical section runs under the file
  lock, modelled in the theory \<open>Lock\<close>.
\<close>

section \<open>Files\<close>

datatype line = BlankLine | EventLine track_event | MalformedLine

record store =
  log_file :: "line list option"
  head_file :: "js option"

record disk =
  append_lines :: "line list \<Rightarrow> line list \<Rightarrow> line list"
  replace_head :: "js option \<Rightarrow> js \<Rightarrow> js option"

text \<open>Text appended to a file continues its last piece. Two objects on one line do not parse, nor does anything
  that starts with or follows a piece that does not.\<close>

fun merge_line :: "line \<Rightarrow> line \<Rightarrow> line" where
  "merge_line BlankLine l = l"
| "merge_line l BlankLine = l"
| "merge_line _ _ = MalformedLine"

definition append_text :: "line list \<Rightarrow> line list \<Rightarrow> line list" where
  "append_text old new =
     (if old = [] then new else if new = [] then old
      else butlast old @ merge_line (last old) (hd new) # tl new)"

definition honest :: disk where
  "honest = \<lparr>append_lines = append_text, replace_head = (\<lambda>old new. Some new)\<rparr>"

text \<open>The log is missing, empty or ends with a newline.\<close>

definition ends_line :: "store \<Rightarrow> bool" where
  "ends_line st \<longleftrightarrow> (case log_file st of None \<Rightarrow> True | Some ls \<Rightarrow> ls = [] \<or> last ls = BlankLine)"

fun parseLines :: "line list \<Rightarrow> error + track_event list" where
  "parseLines [] = Inr []"
| "parseLines (BlankLine # ls) = parseLines ls"
| "parseLines (EventLine e # ls) = bindR (parseLines ls) (\<lambda>es. Inr (e # es))"
| "parseLines (MalformedLine # ls) = Inl (Error ''EventStore: malformed event line'')"

definition readAll :: "store \<Rightarrow> error + track_event list" where
  "readAll st = (case log_file st of None \<Rightarrow> Inr [] | Some ls \<Rightarrow> parseLines ls)"

definition persisted :: "track_event \<Rightarrow> track_event" where
  "persisted e = e\<lparr>e_payload := norm_js (e_payload e)\<rparr>"

text \<open>The lines of some events, each ended by a newline.\<close>

definition written_lines :: "track_event list \<Rightarrow> line list" where
  "written_lines es = map (\<lambda>e. EventLine (persisted e)) es @ [BlankLine]"

definition appendAtomic :: "disk \<Rightarrow> track_event list \<Rightarrow> store \<Rightarrow> store" where
  "appendAtomic d es st =
     st\<lparr>log_file := Some (append_lines d (case log_file st of None \<Rightarrow> [] | Some ls \<Rightarrow> ls) (written_lines es))\<rparr>"

definition rewriteAtomic :: "track_event list \<Rightarrow> store \<Rightarrow> store" where
  "rewriteAtomic es st = st\<lparr>log_file := Some (written_lines es)\<rparr>"

definition writeHead :: "disk \<Rightarrow> head \<Rightarrow> store \<Rightarrow> store" where
  "writeHead d hh st = st\<lparr>head_file := replace_head d (head_file st) (head_js hh)\<rparr>"

section \<open>Idempotency\<close>

text \<open>\<open>dedupByClientToken\<close>: \<open>Inr None\<close> is a fresh write, \<open>Inr (Some es)\<close> a retry.\<close>

definition dedupByClientToken ::
  "command_event list \<Rightarrow> track_event list \<Rightarrow> error + track_event list option" where
  "dedupByClientToken inputs existing =
     (let tokens = remdups (map e_clientToken inputs) in
      if length tokens \<noteq> 1 then Inr None
      else case e_clientToken (inputs ! 0) of
        None \<Rightarrow> Inr None
      | Some token \<Rightarrow>
          (let persistedAggregates = map e_aggregateId (filter (\<lambda>e. e_clientToken e = Some token) existing);
               inputAggregates = remdups (map e_aggregateId inputs);
               presentCount = length (filter (\<lambda>a. a \<in> set persistedAggregates) inputAggregates) in
           if presentCount = 0 then Inr None
           else if presentCount \<noteq> length inputAggregates
           then Inl (Error ''EventStore.appendCommand: delivery clientToken reused across a different aggregate set'')
           else Inr (Some (filter (\<lambda>e. e_clientToken e = Some token \<and>
                                      e_aggregateId e \<in> set inputAggregates) existing))))"

section \<open>Framing a command\<close>

definition core_single :: "command_event \<Rightarrow> event_core" where
  "core_single e = command_event.extend e (event_core.fields None None)"

definition materialize_core :: "event_core \<Rightarrow> error + event_core" where
  "materialize_core core = bindR (materialize (e_payload core)) (\<lambda>p. Inr (core\<lparr>e_payload := p\<rparr>))"

text \<open>The loop over the inputs; \<open>batch\<close> is the command identifier and the size of a batch of
  several events.\<close>

fun frameEvents ::
  "host \<Rightarrow> (ulid \<times> nat) option \<Rightarrow> nat \<Rightarrow> (ulid \<rightharpoonup> int) \<Rightarrow> sha option \<Rightarrow> command_event list \<Rightarrow> error + track_event list" where
  "frameEvents h batch i lastSeq prev [] = Inr []"
| "frameEvents h batch i lastSeq prev (input # inputs) =
     (let s = next_seq lastSeq (e_aggregateId input);
          core = (case batch of
                    Some (c, n) \<Rightarrow> core_of input c \<lparr>cmd_i = int i, cmd_n = int n\<rparr>
                  | None \<Rightarrow> core_single input) in
      bindR (materialize_core core) (\<lambda>materialized.
      bindR (contentHashOf h materialized) (\<lambda>hash.
      bindR (frameEvents h batch (Suc i) (lastSeq(e_aggregateId input \<mapsto> s)) (Some hash) inputs) (\<lambda>rest.
      Inr (with_frame materialized s prev hash # rest)))))"

section \<open>Verification of the write\<close>

definition verifyAppend :: "host \<Rightarrow> nat \<Rightarrow> track_event list \<Rightarrow> head \<Rightarrow> store \<Rightarrow> error + unit" where
  "verifyAppend h before events expectedHead st =
     bindR (readAll st) (\<lambda>after.
     if length after \<noteq> before + length events
     then Inl (Error ''append verification failed: length (write did not persist)'')
     else if \<not> list_all2 (\<lambda>p e. e_id p = e_id e \<and> e_contentHash p = e_contentHash e) (drop before after) events
     then Inl (Error ''append verification failed: persisted suffix differs from generated'')
     else if readHead (head_file st) \<noteq> Some expectedHead
     then Inl (Error ''append verification failed: head mismatch'')
     else bindR (validate h after (readHead (head_file st))) (\<lambda>findings.
     if findings \<noteq> [] then Inl (Error ''append verification failed: persisted stream is invalid'')
     else Inr ()))"

section \<open>Appending a command\<close>

record hooks =
  dedupe :: "(command_event list \<Rightarrow> track_event list \<Rightarrow> error + track_event list option) option"
  recheck :: "(command_event list \<Rightarrow> track_event list \<Rightarrow> error + unit) option"

definition no_hooks :: hooks where
  "no_hooks = \<lparr>dedupe = None, recheck = None\<rparr>"

definition dedupeHook :: "hooks \<Rightarrow> command_event list \<Rightarrow> track_event list \<Rightarrow> error + track_event list option" where
  "dedupeHook hs = (case dedupe hs of None \<Rightarrow> dedupByClientToken | Some f \<Rightarrow> f)"

definition recheckHook :: "hooks \<Rightarrow> command_event list \<Rightarrow> track_event list \<Rightarrow> error + unit" where
  "recheckHook hs inputs existing = (case recheck hs of None \<Rightarrow> Inr () | Some f \<Rightarrow> f inputs existing)"

text \<open>What happens under the lock before anything is written: the events to append, or the
  originals of a retry.\<close>

datatype plan = AlreadyThere "track_event list" | ToAppend "track_event list" "track_event list"

definition planAppend ::
  "host \<Rightarrow> hooks \<Rightarrow> ulid option \<Rightarrow> command_event list \<Rightarrow> store \<Rightarrow> error + plan" where
  "planAppend h hs cmdId inputs st =
     bindR (readAll st) (\<lambda>existing.
     bindR (validate h existing (readHead (head_file st))) (\<lambda>integrity.
     if integrity \<noteq> [] then Inl (Error ''EventStore.appendCommand: refusing to extend an invalid log'')
     else bindR (dedupeHook hs inputs existing) (\<lambda>deduped.
     case deduped of
       Some original \<Rightarrow> Inr (AlreadyThere original)
     | None \<Rightarrow>
         bindR (recheckHook hs inputs existing) (\<lambda>_.
         bindR (frameEvents h (if length inputs > 1 then Some (the cmdId, length inputs) else None) 0
                  (seq_map existing) (last_hash existing) inputs) (\<lambda>events.
         bindR (validate h (existing @ events) None) (\<lambda>candidate.
         if candidate \<noteq> []
         then Inl (Error ''EventStore.appendCommand: command would produce an invalid log'')
         else Inr (ToAppend existing events)))))))"

definition appendUnderLock ::
  "host \<Rightarrow> disk \<Rightarrow> hooks \<Rightarrow> ulid option \<Rightarrow> command_event list \<Rightarrow> store \<Rightarrow> (error + track_event list) \<times> store" where
  "appendUnderLock h d hs cmdId inputs st =
     (case planAppend h hs cmdId inputs st of
        Inl e \<Rightarrow> (Inl e, st)
      | Inr (AlreadyThere original) \<Rightarrow> (Inr original, st)
      | Inr (ToAppend existing events) \<Rightarrow>
          (let expectedHead = \<lparr>streamLength = int (length existing + length events),
                 lastContentHash = Some (e_contentHash (last events))\<rparr>;
               st' = writeHead d expectedHead (appendAtomic d events st) in
           case verifyAppend h (length existing) events expectedHead st' of
             Inl e \<Rightarrow> (Inl e, st')
           | Inr _ \<Rightarrow> (Inr events, st')))"

definition appendCommand ::
  "host \<Rightarrow> disk \<Rightarrow> hooks \<Rightarrow> ulid option \<Rightarrow> command_event list \<Rightarrow> store \<Rightarrow> (error + track_event list) \<times> store" where
  "appendCommand h d hs cmdId inputs st =
     (if inputs = [] then (Inl (Error ''EventStore.appendCommand: empty command (no events)''), st)
      else if length inputs > 1 \<and> cmdId = None
      then (Inl (Error ''EventStore.appendCommand: a multi-event command requires a cmdId''), st)
      else appendUnderLock h d hs cmdId inputs st)"

definition reseal :: "host \<Rightarrow> disk \<Rightarrow> store \<Rightarrow> (error + reseal_result) \<times> store" where
  "reseal h d st =
     (case bindR (readAll st) (resealEvents h) of
        Inl e \<Rightarrow> (Inl e, st)
      | Inr (events, result) \<Rightarrow>
          (Inr result,
           writeHead d \<lparr>streamLength = int (length events), lastContentHash = last_hash events\<rparr>
             (rewriteAtomic events st)))"

section \<open>Writing and reading back\<close>

lemma norm_js_idem [simp]: "norm_js (norm_js v) = norm_js v"
proof (induction v)
  case (Obj p fs)
  let ?f = "\<lambda>(k, v). (k, norm_js v)"
  have "map ?f (map ?f fs) = map ?f fs" using Obj by auto
  moreover have "sort_key fst (sort_key fst xs) = sort_key fst xs" for xs :: "(string \<times> js) list"
    by (rule sort_key_id_if_sorted) simp
  ultimately show ?case by (simp add: sort_key_map_snd[symmetric] del: map_map)
qed auto

lemma norm_obj_cong:
  assumes "map (apsnd (map_option norm_js)) fs = map (apsnd (map_option norm_js)) gs"
  shows "norm_js (obj fs) = norm_js (obj gs)"
proof -
  let ?f = "\<lambda>(k, v). (k, norm_js v)" and ?t = "\<lambda>(k, v). map_option (Pair k) v"
  have "map ?f (List.map_filter ?t hs) = List.map_filter ?t (map (apsnd (map_option norm_js)) hs)" for hs
    by (induction hs) (auto simp: map_filter_simps split: option.split)
  note eq = this
  show ?thesis by (simp only: obj_def norm_js.simps eq assms)
qed

lemma norm_core_js: "norm_js (core_js (norm_core c)) = norm_js (core_js c)"
  unfolding core_js_def by (rule norm_obj_cong) (simp add: core_fields_def norm_core_def)

lemma inert_norm_core: "inert (e_payload c) \<Longrightarrow> inert (e_payload (norm_core c))"
  by (simp add: norm_core_def inert_norm_js)

lemma contentHashOf_norm: "inert (e_payload c) \<Longrightarrow> contentHashOf h (norm_core c) = contentHashOf h c"
  by (simp add: contentHashOf_def computeHash_inert inert_core_js inert_norm_core norm_core_js)

lemma persisted_sel [simp]:
  "e_id (persisted e) = e_id e" "e_type (persisted e) = e_type e" "e_aggregate (persisted e) = e_aggregate e"
  "e_aggregateId (persisted e) = e_aggregateId e" "e_cmdId (persisted e) = e_cmdId e" "e_cmd (persisted e) = e_cmd e"
  "e_seq (persisted e) = e_seq e" "e_prevHash (persisted e) = e_prevHash e" "e_at (persisted e) = e_at e"
  "e_contentHash (persisted e) = e_contentHash e" "e_clientToken (persisted e) = e_clientToken e"
  "e_by (persisted e) = e_by e" "e_payload (persisted e) = norm_js (e_payload e)"
  by (simp_all add: persisted_def)

lemma stripFrame_persisted: "stripFrame (persisted e) = norm_core (stripFrame e)"
  by (cases e) (simp add: persisted_def norm_core_def stripFrame_def event_core.defs)

lemma norm_js_simps [simp]:
  shows "norm_js v = Str s \<longleftrightarrow> v = Str s"
    and "norm_js v = Undef \<longleftrightarrow> v = Undef"
    and "isString (norm_js v) = isString v" and "js_str (norm_js v) = js_str v"
    and "nonEmptyString (norm_js v) = nonEmptyString v" and "nonBlankString (norm_js v) = nonBlankString v"
  by (cases v; simp add: isString_def js_str_def nonEmptyString_def nonBlankString_def)+

definition reads_as :: "track_event \<Rightarrow> track_event \<Rightarrow> bool" where
  "reads_as e e' \<longleftrightarrow> e' = e \<or> (inert (e_payload e) \<and> e' = persisted e)"

lemma reads_as_core:
  assumes "reads_as e e'"
  shows "e_aggregateId e' = e_aggregateId e" and "e_seq e' = e_seq e" and "e_contentHash e' = e_contentHash e"
    and "e_aggregate e' = e_aggregate e" and "e_cmdId e' = e_cmdId e" and "e_cmd e' = e_cmd e"
    and "e_prevHash e' = e_prevHash e" and "e_id e' = e_id e"
  using assms by (auto simp: reads_as_def)

lemma reads_as_hash: "reads_as e e' \<Longrightarrow> contentHashOf h (stripFrame e') = contentHashOf h (stripFrame e)"
  by (auto simp: reads_as_def stripFrame_persisted contentHashOf_norm)

lemma norm_checks:
  assumes "inert p"
  shows "blockerScopeReason (norm_js p) = blockerScopeReason p" and "reopenShape (norm_js p) = reopenShape p"
  by (simp_all add: blockerScopeReason_def reopenShape_def js_prop_norm[OF assms])

lemma reads_as_scope: "reads_as e e' \<Longrightarrow> scope_ok e' = scope_ok e"
  by (auto simp: reads_as_def scope_ok_def norm_checks)

lemma reads_as_reopen:
  assumes "reads_as e e'"
  shows "reopen_ok k e' = reopen_ok k e" and "replay_realization e' k = replay_realization e k"
proof -
  have addr: "addressesAggregate e' = addressesAggregate e"
    using assms by (auto simp: reads_as_def addressesAggregate_def js_prop_norm)
  then show "reopen_ok k e' = reopen_ok k e"
    using assms by (auto simp: reads_as_def reopen_ok_def norm_checks)
  have case_norm: "(case norm_js v of Str s \<Rightarrow> f s | _ \<Rightarrow> z) = (case v of Str s \<Rightarrow> f s | _ \<Rightarrow> z)" for v f and z :: "ulid \<rightharpoonup> string"
    by (cases v) simp_all
  show "replay_realization e' k = replay_realization e k"
  proof (cases "e' = e")
    case False
    with assms have e': "e' = persisted e" and inert: "inert (e_payload e)" by (auto simp: reads_as_def)
    with addr have "addressesAggregate (persisted e) = addressesAggregate e" by simp
    then show ?thesis
      unfolding e' replay_realization_def by (auto simp: js_prop_norm[OF inert] case_norm cong: js.case_cong)
  qed simp
qed

lemma reads_as_maps:
  assumes "list_all2 reads_as es es'"
  shows "seq_map es' = seq_map es" and "kind_map es' = kind_map es" and "last_hash es' = last_hash es"
    and "map e_id es' = map e_id es" and "map e_contentHash es' = map e_contentHash es"
proof -
  have "fold (\<lambda>e m. m(e_aggregateId e \<mapsto> e_seq e)) es' m = fold (\<lambda>e m. m(e_aggregateId e \<mapsto> e_seq e)) es m" for m
    using assms by (induction arbitrary: m rule: list_all2_induct) (simp_all add: reads_as_core)
  then show "seq_map es' = seq_map es" by (simp add: seq_map_def)
  have "fold know_kind es' m = fold know_kind es m" for m
    using assms by (induction arbitrary: m rule: list_all2_induct) (simp_all add: reads_as_core know_kind_def)
  then show "kind_map es' = kind_map es" by (simp add: kind_map_def)
  show "map e_id es' = map e_id es" and h: "map e_contentHash es' = map e_contentHash es"
    using assms by (induction rule: list_all2_induct) (simp_all add: reads_as_core)
  then show "last_hash es' = last_hash es"
    by (metis last_hash_def last_map list.map_disc_iff)
qed

lemma reads_as_chain:
  "list_all2 reads_as es es' \<Longrightarrow> list_all2 reads_as pre pre' \<Longrightarrow> chain_ok h pre' es' = chain_ok h pre es"
proof (induction arbitrary: pre pre' rule: list_all2_induct)
  case (Cons e es e' es')
  have "event_ok h pre' e' = event_ok h pre e"
    using reads_as_maps[OF Cons.prems] reads_as_core[OF Cons.hyps(1)] reads_as_hash[OF Cons.hyps(1)]
    by (simp add: event_ok_def)
  moreover have "list_all2 reads_as (pre @ [e]) (pre' @ [e'])"
    using Cons by (simp add: list_all2_appendI)
  ultimately show ?case using Cons.IH by simp
qed simp

lemma reads_as_valid:
  assumes "list_all2 reads_as es es'"
  shows "valid_log h es' = valid_log h es"
proof -
  have "members i c es' = members i c es" for i c
    using assms by (induction arbitrary: i rule: list_all2_induct) (simp_all add: reads_as_core member_of_def)
  moreover have "reopens_ok k es' = reopens_ok k es" for k
    using assms by (induction arbitrary: k rule: list_all2_induct) (simp_all add: reads_as_reopen)
  moreover have "(\<forall>e \<in> set es'. scope_ok e) = (\<forall>e \<in> set es. scope_ok e)"
    using assms by (induction rule: list_all2_induct) (simp_all add: reads_as_scope)
  ultimately show ?thesis
    using reads_as_chain[OF assms, of "[]" "[]"] by (simp add: valid_log_def batches_ok_def)
qed

lemma reads_as_persisted: "\<forall>e \<in> set es. inert (e_payload e) \<Longrightarrow> list_all2 reads_as es (map persisted es)"
  by (induction es) (simp_all add: reads_as_def)

lemma reads_as_refl: "list_all2 reads_as es es"
  by (simp add: list_all2_same reads_as_def)

section \<open>What framing produces\<close>

text \<open>The framed event of an input.\<close>

definition frames :: "command_event \<Rightarrow> track_event \<Rightarrow> bool" where
  "frames input e \<longleftrightarrow> e_id e = e_id input \<and> e_type e = e_type input \<and> e_aggregate e = e_aggregate input \<and>
     e_aggregateId e = e_aggregateId input \<and> e_at e = e_at input \<and> e_by e = e_by input \<and>
     e_prov e = e_prov input \<and> e_clientToken e = e_clientToken input \<and>
     materialize (e_payload input) = Inr (e_payload e)"

lemma core_single_sel [simp]:
  "e_id (core_single e) = e_id e" "e_type (core_single e) = e_type e" "e_aggregate (core_single e) = e_aggregate e"
  "e_aggregateId (core_single e) = e_aggregateId e" "e_at (core_single e) = e_at e" "e_by (core_single e) = e_by e"
  "e_payload (core_single e) = e_payload e" "e_prov (core_single e) = e_prov e"
  "e_clientToken (core_single e) = e_clientToken e" "e_cmdId (core_single e) = None" "e_cmd (core_single e) = None"
  by (simp_all add: core_single_def command_event.defs event_core.defs)

lemma materialize_core_Inr:
  "materialize_core c = Inr m \<longleftrightarrow> (\<exists>p. materialize (e_payload c) = Inr p \<and> m = c\<lparr>e_payload := p\<rparr>)"
  by (auto simp: materialize_core_def bindR_eq_Inr)

lemma frameEvents_Cons:
  "frameEvents h batch i lastSeq prev (input # inputs) = Inr evs \<longleftrightarrow>
     (\<exists>e rest. evs = e # rest \<and> frames input e \<and> e_seq e = next_seq lastSeq (e_aggregateId input) \<and>
        e_prevHash e = prev \<and> hash_ok h e \<and>
        (case batch of Some (c, n) \<Rightarrow> e_cmdId e = Some c \<and> e_cmd e = Some \<lparr>cmd_i = int i, cmd_n = int n\<rparr>
         | None \<Rightarrow> e_cmdId e = None \<and> e_cmd e = None) \<and>
        frameEvents h batch (Suc i) (lastSeq(e_aggregateId input \<mapsto> e_seq e)) (Some (e_contentHash e)) inputs = Inr rest)"
    (is "?l \<longleftrightarrow> ?r")
proof
  assume ?l
  then show ?r
    by (cases batch) (auto simp: Let_def bindR_eq_Inr materialize_core_Inr frames_def hash_ok_def)
next
  assume ?r
  then obtain e rest where evs: "evs = e # rest" and fr: "frames input e"
    and s: "e_seq e = next_seq lastSeq (e_aggregateId input)" and prev: "e_prevHash e = prev" and hash: "hash_ok h e"
    and b: "case batch of Some (c, n) \<Rightarrow> e_cmdId e = Some c \<and> e_cmd e = Some \<lparr>cmd_i = int i, cmd_n = int n\<rparr>
         | None \<Rightarrow> e_cmdId e = None \<and> e_cmd e = None"
    and rest: "frameEvents h batch (Suc i) (lastSeq(e_aggregateId input \<mapsto> e_seq e)) (Some (e_contentHash e)) inputs = Inr rest"
    by blast
  define core where "core = (case batch of Some (c, n) \<Rightarrow> core_of input c \<lparr>cmd_i = int i, cmd_n = int n\<rparr>
      | None \<Rightarrow> core_single input)"
  have "stripFrame e = core\<lparr>e_payload := e_payload e\<rparr>"
    using fr b unfolding core_def
    by (cases batch) (auto simp: frames_def intro!: event_core.equality)
  then have strip: "materialize_core core = Inr (stripFrame e)"
    using fr by (cases batch) (auto simp: materialize_core_Inr frames_def core_def)
  have "contentHashOf h (stripFrame e) = Inr (e_contentHash e)"
    using hash by (simp add: hash_ok_def)
  with strip rest show ?l
    using with_frame_stripFrame[of e]
    by (simp only: frameEvents.simps Let_def core_def[symmetric] bindR_Inr s[symmetric] prev evs)
qed

lemma frameEvents_frames: "frameEvents h batch i s p inputs = Inr evs \<Longrightarrow> list_all2 frames inputs evs"
  by (induction inputs arbitrary: i s p evs) (auto simp: frameEvents_Cons simp del: frameEvents.simps(2))

end
