(* ===== verification/Store_Laws.thy ===== *)
theory Store_Laws
  imports Store
begin

text \<open>
  What the store promises. On any disk a success is a proof that the write landed; on a disk that
  writes what it is asked a store stays sound, an error leaves it unchanged, a success extends the
  log by exactly the events returned, and a well-formed command succeeds. The append-only log is
  an interface of its own, interpreted on \<open>appendCommand\<close>.
\<close>

section \<open>Sound stores\<close>

definition events_of :: "store \<Rightarrow> track_event list" where
  "events_of st = (case readAll st of Inr es \<Rightarrow> es | Inl _ \<Rightarrow> [])"

text \<open>What the check under the lock asks of a store, and what a store is that a writer leaves behind: it also
  ends with a newline, which no check asks.\<close>

definition verified :: "host \<Rightarrow> store \<Rightarrow> bool" where
  "verified h st \<longleftrightarrow> (\<exists>es. readAll st = Inr es \<and> valid_log h es \<and> validateHead es (readHead (head_file st)) = [])"

definition sound :: "host \<Rightarrow> store \<Rightarrow> bool" where
  "sound h st \<longleftrightarrow> verified h st \<and> ends_line st"

lemma verified_log: "verified h st \<Longrightarrow> readAll st = Inr (events_of st) \<and> valid_log h (events_of st)"
  by (auto simp: verified_def events_of_def)

lemma verified_iff:
  "verified h st \<longleftrightarrow> (\<exists>es. readAll st = Inr es \<and> validate h es (readHead (head_file st)) = Inr [])"
  by (auto simp: verified_def validate_ok)

lemma soundD: "sound h st \<Longrightarrow> verified h st" "sound h st \<Longrightarrow> ends_line st"
  by (simp_all add: sound_def)

lemma sound_log: "sound h st \<Longrightarrow> readAll st = Inr (events_of st) \<and> valid_log h (events_of st)"
  by (rule verified_log[OF soundD(1)])

definition wf_input :: "command_event \<Rightarrow> bool" where
  "wf_input i \<longleftrightarrow> wf_js (e_payload i)"

lemma frames_inert: "frames i e \<Longrightarrow> wf_input i \<Longrightarrow> inert (e_payload e)"
  by (auto simp: frames_def wf_input_def intro: materialize_inert)

section \<open>The plan\<close>

lemma planAppend_ToAppend:
  assumes "planAppend h hs c inputs st = Inr (ToAppend es evs)"
  shows "readAll st = Inr es" and "valid_log h es" and "valid_log h (es @ evs)" and "list_all2 frames inputs evs"
    and "verified h st"
proof -
  from assms have read: "readAll st = Inr es" and val: "validate h es (readHead (head_file st)) = Inr []"
    and cand: "validate h (es @ evs) None = Inr []"
    and fr: "frameEvents h (if length inputs > 1 then Some (the c, length inputs) else None) 0
        (seq_map es) (last_hash es) inputs = Inr evs"
    by (auto simp: planAppend_def bindR_eq_Inr if_Inl_Inr split: option.splits)
  show "readAll st = Inr es" by (fact read)
  show "valid_log h es" "valid_log h (es @ evs)" using val cand by (simp_all add: validate_ok)
  show "list_all2 frames inputs evs" by (rule frameEvents_frames[OF fr])
  show "verified h st" using read val by (auto simp: verified_iff)
qed

lemma planAppend_AlreadyThere:
  assumes "planAppend h hs c inputs st = Inr (AlreadyThere original)"
  shows "verified h st"
    and "dedupeHook hs inputs (events_of st) = Inr (Some original)"
  using assms
  by (auto simp: planAppend_def bindR_eq_Inr if_Inl_Inr verified_iff events_of_def split: option.splits)

lemma planAppend_verified: "planAppend h hs c inputs st = Inr p \<Longrightarrow> verified h st"
  by (auto simp: planAppend_def bindR_eq_Inr if_Inl_Inr verified_iff)

section \<open>The receipt\<close>

text \<open>A verified write: the events are the tail of a valid log whose head is theirs.\<close>

definition receipt :: "host \<Rightarrow> nat \<Rightarrow> track_event list \<Rightarrow> store \<Rightarrow> bool" where
  "receipt h before events st \<longleftrightarrow>
     (\<exists>es tail. readAll st = Inr (es @ tail) \<and> length es = before \<and> valid_log h (es @ tail) \<and>
        map e_id tail = map e_id events \<and> map e_contentHash tail = map e_contentHash events \<and>
        readHead (head_file st) = Some (head_of (es @ tail)))"

lemma list_all2_maps: "list_all2 (\<lambda>p e. f p = f e \<and> g p = g e) xs ys \<longleftrightarrow> map f xs = map f ys \<and> map g xs = map g ys"
  by (auto simp: list_all2_conv_all_nth list_eq_iff_nth_eq)

lemma verifyAppend_receipt:
  assumes "verifyAppend h before events \<lparr>streamLength = int (before + length events),
      lastContentHash = Some (e_contentHash (last events))\<rparr> st = Inr u" "events \<noteq> []"
  shows "receipt h before events st"
proof -
  let ?H = "\<lparr>streamLength = int (before + length events), lastContentHash = Some (e_contentHash (last events))\<rparr>"
  from assms(1) obtain after where read: "readAll st = Inr after" and len: "length after = before + length events"
    and same: "map e_id (drop before after) = map e_id events" "map e_contentHash (drop before after) = map e_contentHash events"
    and hd: "readHead (head_file st) = Some ?H" and val: "validate h after (Some ?H) = Inr []"
    by (auto simp: verifyAppend_def bindR_eq_Inr if_Inl_Inr list_all2_maps)
  have ne: "drop before after \<noteq> []" using assms(2) len by auto
  have "e_contentHash (last after) = last (map e_contentHash (drop before after))"
    using ne by (simp add: last_map)
  also have "\<dots> = e_contentHash (last events)"
    unfolding same(2) using assms(2) by (simp add: last_map)
  finally have "?H = head_of after"
    using ne len by (auto simp: head_of_def last_hash_def)
  with read len same hd val show ?thesis
    unfolding receipt_def
    by (intro exI[of _ "take before after"] exI[of _ "drop before after"]) (simp add: validate_ok)
qed

lemma appendCommand_Inr:
  "appendCommand h d hs c inputs st = (Inr r, st') \<Longrightarrow>
     inputs \<noteq> [] \<and> (length inputs > 1 \<longrightarrow> c \<noteq> None) \<and> appendUnderLock h d hs c inputs st = (Inr r, st')"
  by (auto simp: appendCommand_def split: if_splits)

lemma appendCommand_receipt:
  assumes "appendCommand h d hs c inputs st = (Inr events, st')"
  shows "(st' = st \<and> verified h st \<and> dedupeHook hs inputs (events_of st) = Inr (Some events)) \<or>
         (list_all2 frames inputs events \<and> receipt h (length (events_of st)) events st')"
proof -
  from appendCommand_Inr[OF assms] have ne: "inputs \<noteq> []"
    and run: "appendUnderLock h d hs c inputs st = (Inr events, st')" by simp_all
  show ?thesis
  proof (cases "planAppend h hs c inputs st")
    case (Inl e)
    with run show ?thesis by (simp add: appendUnderLock_def)
  next
    case (Inr p)
    show ?thesis
    proof (cases p)
      case (AlreadyThere original)
      with run Inr have "original = events" "st' = st" by (simp_all add: appendUnderLock_def)
      with planAppend_AlreadyThere[OF Inr[unfolded AlreadyThere]] show ?thesis by simp
    next
      case (ToAppend es evs)
      note plan = planAppend_ToAppend[OF Inr[unfolded ToAppend]]
      from run Inr ToAppend have "evs = events"
        and v: "verifyAppend h (length es) events \<lparr>streamLength = int (length es + length events),
           lastContentHash = Some (e_contentHash (last events))\<rparr> st' = Inr ()"
        by (auto simp: appendUnderLock_def Let_def split: sum.splits)
      moreover have "events \<noteq> []" using plan(4) ne \<open>evs = events\<close> by auto
      moreover have "events_of st = es" using plan(1) by (simp add: events_of_def)
      ultimately show ?thesis
        using verifyAppend_receipt[OF v] plan(4) by simp
    qed
  qed
qed

section \<open>An honest disk\<close>

lemma parseLines_append:
  "parseLines (ls @ ms) = bindR (parseLines ls) (\<lambda>es. bindR (parseLines ms) (\<lambda>fs. Inr (es @ fs)))"
proof (induction ls rule: parseLines.induct)
  case 1
  then show ?case by (cases "parseLines ms") simp_all
next
  case (3 e ls)
  then show ?case by (cases "parseLines ls"; cases "parseLines ms") simp_all
qed simp_all

lemma parseLines_written [simp]: "parseLines (written_lines es) = Inr (map persisted es)"
  by (induction es) (simp_all add: written_lines_def)

lemma written_not_Nil [simp]: "written_lines es \<noteq> []" and last_written [simp]: "last (written_lines es) = BlankLine"
  by (simp_all add: written_lines_def)

lemma append_text_ended:
  assumes "ls = [] \<or> last ls = BlankLine" and "new \<noteq> []"
  shows "append_text ls new = butlast ls @ new"
  using assms by (cases new) (auto simp: append_text_def)

lemma parseLines_butlast: "ls = [] \<or> last ls = BlankLine \<Longrightarrow> parseLines (butlast ls) = parseLines ls"
proof (cases "ls = []")
  case False
  assume "ls = [] \<or> last ls = BlankLine"
  with False have "ls = butlast ls @ [BlankLine]" by (metis append_butlast_last_id)
  then have "parseLines ls = parseLines (butlast ls @ [BlankLine])" by simp
  then show ?thesis by (cases "parseLines (butlast ls)") (simp_all add: parseLines_append)
qed simp

lemma log_append:
  assumes "ends_line st"
  shows "log_file (appendAtomic honest new st) =
    Some (butlast (case log_file st of None \<Rightarrow> [] | Some ls \<Rightarrow> ls) @ written_lines new)"
  using assms by (auto simp: appendAtomic_def honest_def ends_line_def append_text_ended split: option.splits)

lemma readAll_append:
  assumes "readAll st = Inr es" and "ends_line st"
  shows "readAll (appendAtomic honest new st) = Inr (es @ map persisted new)"
proof (cases "log_file st")
  case (Some ls)
  with assms have "parseLines (butlast ls) = Inr es"
    using parseLines_butlast[of ls] by (simp add: ends_line_def readAll_def)
  then show ?thesis
    by (simp add: readAll_def log_append[OF assms(2)] Some parseLines_append)
qed (use assms in \<open>simp add: readAll_def log_append\<close>)

lemma ends_line_append: "ends_line st \<Longrightarrow> ends_line (appendAtomic honest new st)"
  by (simp add: ends_line_def[of "appendAtomic honest new st"] log_append)

lemma ends_line_writeHead [simp]: "ends_line (writeHead d hh st) = ends_line st"
  by (simp add: ends_line_def writeHead_def)

lemma readAll_writeHead [simp]: "readAll (writeHead d hh st) = readAll st"
  by (simp add: readAll_def writeHead_def)

lemma hash_prefix: "computeHash h v = Inr s \<Longrightarrow> has_prefix ''sha256:'' s"
  by (auto simp: computeHash_def bindR_eq_Inr has_prefix_def)

lemma chain_hash_prefix: "chain_ok h pre es \<Longrightarrow> e \<in> set es \<Longrightarrow> has_prefix ''sha256:'' (e_contentHash e)"
  by (auto simp: contentHashOf_def framed_def hash_ok_def dest!: chain_framed intro: hash_prefix)

lemma head_of_proper: "valid_log h es \<Longrightarrow> proper_head (head_of es)"
  using chain_hash_prefix[of h "[]" es "last es"]
  by (auto simp: proper_head_def head_of_def last_hash_def valid_log_def)

lemma honest_head [simp]: "head_file (writeHead honest hh st) = Some (head_js hh)"
  by (simp add: writeHead_def honest_def)

lemma honest_write:
  assumes plan: "planAppend h hs c inputs st = Inr (ToAppend es events)" and ne: "inputs \<noteq> []"
    and wf: "\<forall>i \<in> set inputs. wf_input i" and line: "ends_line st"
  defines "hh \<equiv> \<lparr>streamLength = int (length es + length events), lastContentHash = Some (e_contentHash (last events))\<rparr>"
  defines "st' \<equiv> writeHead honest hh (appendAtomic honest events st)"
  shows "readAll st' = Inr (es @ map persisted events)" and "valid_log h (es @ map persisted events)"
    and "readHead (head_file st') = Some (head_of (es @ map persisted events))"
    and "verifyAppend h (length es) events hh st' = Inr ()" and "ends_line st'"
proof -
  note p = planAppend_ToAppend[OF plan]
  have ev: "events \<noteq> []" using p(4) ne by auto
  let ?after = "es @ map persisted events"
  show read: "readAll st' = Inr ?after"
    using readAll_append[OF p(1) line] by (simp add: st'_def)
  show "ends_line st'" by (simp add: st'_def ends_line_append line)
  have "\<forall>e \<in> set events. inert (e_payload e)"
    using p(4) wf by (auto dest!: list_all2_setD2 intro: frames_inert)
  then have "list_all2 reads_as (es @ events) ?after"
    by (intro list_all2_appendI reads_as_refl reads_as_persisted)
  then show valid: "valid_log h ?after"
    using p(3) reads_as_valid by blast
  have hh: "hh = head_of ?after"
    using ev by (simp add: hh_def head_of_def last_hash_def last_map)
  then show head: "readHead (head_file st') = Some (head_of ?after)"
    using readHead_head_js[OF head_of_proper[OF valid]] by (simp add: st'_def)
  have "list_all2 (\<lambda>p e. e_id p = e_id e \<and> e_contentHash p = e_contentHash e) (drop (length es) ?after) events"
    unfolding list_all2_maps by (simp add: comp_def)
  moreover have "validate h ?after (Some (head_of ?after)) = Inr []"
    using valid validateHead_self by (simp add: validate_ok)
  ultimately show "verifyAppend h (length es) events hh st' = Inr ()"
    using read head hh by (simp add: verifyAppend_def)
qed

lemma appendUnderLock_honest:
  assumes ne: "inputs \<noteq> []" and wf: "\<forall>i \<in> set inputs. wf_input i" and line: "ends_line st"
    and run: "appendUnderLock h honest hs c inputs st = (r, st')"
  shows "case r of
      Inl e \<Rightarrow> st' = st
    | Inr events \<Rightarrow> sound h st \<and> sound h st' \<and>
        (st' = st \<and> dedupeHook hs inputs (events_of st) = Inr (Some events) \<or>
         list_all2 frames inputs events \<and> events_of st' = events_of st @ map persisted events)"
proof (cases "planAppend h hs c inputs st")
  case (Inl e)
  with run show ?thesis by (auto simp: appendUnderLock_def)
next
  case (Inr p)
  show ?thesis
  proof (cases p)
    case (AlreadyThere original)
    with run Inr have "r = Inr original" "st' = st" by (simp_all add: appendUnderLock_def)
    with planAppend_AlreadyThere[OF Inr[unfolded AlreadyThere]] line show ?thesis by (simp add: sound_def)
  next
    case (ToAppend es events)
    note plan = Inr[unfolded ToAppend]
    note p = planAppend_ToAppend[OF plan] and w = honest_write[OF plan ne wf line]
    let ?st' = "writeHead honest \<lparr>streamLength = int (length es + length events),
        lastContentHash = Some (e_contentHash (last events))\<rparr> (appendAtomic honest events st)"
    have "appendUnderLock h honest hs c inputs st = (Inr events, ?st')"
      by (simp only: appendUnderLock_def plan sum.case plan.case Let_def w(4))
    then have r: "r = Inr events" "st' = ?st'" using run by simp_all
    have "sound h st'"
      unfolding sound_def verified_def r(2) w(1,3) using w(2,5) validateHead_self by blast
    moreover have "events_of st' = events_of st @ map persisted events"
      unfolding events_of_def r(2) w(1) p(1) by simp
    ultimately show ?thesis using p line by (simp add: r(1) sound_def[of h st])
  qed
qed

lemma appendCommand_honest:
  assumes wf: "\<forall>i \<in> set inputs. wf_input i" and line: "ends_line st" and run: "appendCommand h honest hs c inputs st = (r, st')"
  shows "case r of
      Inl e \<Rightarrow> st' = st
    | Inr events \<Rightarrow> sound h st \<and> sound h st' \<and>
        (st' = st \<and> dedupeHook hs inputs (events_of st) = Inr (Some events) \<or>
         list_all2 frames inputs events \<and> events_of st' = events_of st @ map persisted events)"
proof (cases "inputs = [] \<or> (length inputs > 1 \<and> c = None)")
  case True
  with run show ?thesis by (auto simp: appendCommand_def split: if_splits)
next
  case False
  with run have "appendUnderLock h honest hs c inputs st = (r, st')"
    by (auto simp: appendCommand_def split: if_splits)
  with appendUnderLock_honest[OF _ wf line] False show ?thesis by blast
qed

section \<open>A well-formed command succeeds\<close>

lemma frameEvents_ex:
  "\<forall>i \<in> set inputs. wf_input i \<and> (\<exists>p. materialize (e_payload i) = Inr p) \<Longrightarrow>
     \<exists>evs. frameEvents h batch k s prev inputs = Inr evs"
proof (induction inputs arbitrary: k s prev)
  case (Cons i inputs)
  then obtain p where p: "materialize (e_payload i) = Inr p" by auto
  have "inert p"
    using materialize_inert[OF p] Cons.prems by (simp add: wf_input_def)
  define core where "core = (case batch of Some (c, n) \<Rightarrow> core_of i c \<lparr>cmd_i = int k, cmd_n = int n\<rparr>
      | None \<Rightarrow> core_single i)"
  have "e_payload core = e_payload i"
    by (cases batch) (auto simp: core_def)
  then have m: "materialize_core core = Inr (core\<lparr>e_payload := p\<rparr>)"
    using p by (simp add: materialize_core_def)
  obtain x where x: "contentHashOf h (core\<lparr>e_payload := p\<rparr>) = Inr x"
    using contentHashOf_inert[of "core\<lparr>e_payload := p\<rparr>"] \<open>inert p\<close> by auto
  obtain rest where "frameEvents h batch (Suc k) (s(e_aggregateId i \<mapsto> next_seq s (e_aggregateId i))) (Some x) inputs = Inr rest"
    using Cons by fastforce
  then show ?case
    by (simp only: frameEvents.simps Let_def core_def[symmetric] m x bindR_Inr) blast
qed simp

lemma frameEvents_chain:
  "frameEvents h batch k (seq_map pre) (last_hash pre) inputs = Inr evs \<Longrightarrow> kinds_ok (kind_map pre) evs \<Longrightarrow>
     chain_ok h pre evs"
proof (induction inputs arbitrary: k pre evs)
  case (Cons i inputs)
  from Cons.prems(1) obtain e rest where evs: "evs = e # rest" and fr: "frames i e"
    and s: "e_seq e = next_seq (seq_map pre) (e_aggregateId i)" "e_prevHash e = last_hash pre" "hash_ok h e"
    and b: "case batch of Some (c, n) \<Rightarrow> e_cmdId e = Some c \<and> e_cmd e = Some \<lparr>cmd_i = int k, cmd_n = int n\<rparr>
         | None \<Rightarrow> e_cmdId e = None \<and> e_cmd e = None"
    and rest: "frameEvents h batch (Suc k) ((seq_map pre)(e_aggregateId i \<mapsto> e_seq e)) (Some (e_contentHash e)) inputs = Inr rest"
    unfolding frameEvents_Cons by blast
  have agg: "e_aggregateId e = e_aggregateId i" using fr by (simp add: frames_def)
  have "event_ok h pre e"
    using s b Cons.prems(2) evs by (auto simp: event_ok_def agg hash_ok_def split: option.splits)
  moreover have "chain_ok h (pre @ [e]) rest"
  proof (rule Cons.IH)
    show "frameEvents h batch (Suc k) (seq_map (pre @ [e])) (last_hash (pre @ [e])) inputs = Inr rest"
      unfolding seq_map_snoc last_hash_snoc agg by (rule rest)
    show "kinds_ok (kind_map (pre @ [e])) rest" using Cons.prems(2) evs by simp
  qed
  ultimately show ?case by (simp add: evs)
qed simp

definition batch_members :: "nat \<Rightarrow> nat \<Rightarrow> nat \<Rightarrow> nat \<Rightarrow> batch_member list" where
  "batch_members k i n m = map (\<lambda>j. \<lparr>bm_index = k + j, bm_i = Some (int (i + j)), bm_n = Some (int n)\<rparr>) [0..<m]"

lemma batch_members_Suc:
  "batch_members k i n (Suc m) = \<lparr>bm_index = k, bm_i = Some (int i), bm_n = Some (int n)\<rparr> # batch_members (Suc k) (Suc i) n m"
  by (simp add: batch_members_def upt_rec[of 0] map_Suc_upt[symmetric] comp_def del: upt_Suc)

lemma frameEvents_members:
  "frameEvents h (Some (c, n)) i s prev inputs = Inr evs \<Longrightarrow>
     members k c evs = batch_members k i n (length inputs) \<and> cmds evs \<subseteq> {c}"
proof (induction inputs arbitrary: i s prev evs k)
  case (Cons x inputs)
  from Cons.prems obtain e rest where evs: "evs = e # rest"
    and b: "e_cmdId e = Some c" "e_cmd e = Some \<lparr>cmd_i = int i, cmd_n = int n\<rparr>"
    and rest: "frameEvents h (Some (c, n)) (Suc i) (s(e_aggregateId x \<mapsto> e_seq e)) (Some (e_contentHash e)) inputs = Inr rest"
    unfolding frameEvents_Cons by auto
  from Cons.IH[OF rest, of "Suc k"] show ?case
    using b by (auto simp: evs batch_members_Suc member_of_def cmds_def)
qed (simp add: batch_members_def cmds_def)

lemma frameEvents_single: "frameEvents h None i s prev inputs = Inr evs \<Longrightarrow> cmds evs = {}"
proof (induction inputs arbitrary: i s prev evs)
  case (Cons x inputs)
  from Cons.prems obtain e rest where evs: "evs = e # rest" "e_cmdId e = None"
    and rest: "frameEvents h None (Suc i) (s(e_aggregateId x \<mapsto> e_seq e)) (Some (e_contentHash e)) inputs = Inr rest"
    unfolding frameEvents_Cons by auto
  from Cons.IH[OF rest] evs show ?case by (simp add: cmds_def)
qed (simp add: cmds_def)

lemma batch_members_ok: "n > 0 \<Longrightarrow> batch_ok (batch_members k 0 n n)"
proof -
  assume n: "n > 0"
  have "bm_index ` set (batch_members k 0 n n) = (\<lambda>j. k + j) ` {0..<n}"
    by (simp add: batch_members_def image_image)
  then have "bm_index ` set (batch_members k 0 n n) = {k..<k + n}"
    by (simp add: add.commute)
  moreover have "Max {k..<k + n} = k + n - 1" "Min {k..<k + n} = k"
    using n by (auto intro!: Max_eqI Min_eqI)
  moreover have "bm_i ` set (batch_members k 0 n n) = Some ` int ` {0..<n}"
    by (auto simp: batch_members_def image_iff)
  moreover have "distinct (map bm_i (batch_members k 0 n n))"
    by (auto simp: batch_members_def comp_def distinct_map inj_on_def)
  ultimately show ?thesis
    using n by (auto simp: batch_ok_def image_int_atLeastLessThan) (auto simp: batch_members_def)
qed

lemma appendCommand_succeeds:
  assumes st: "sound h st" and ne: "inputs \<noteq> []"
    and wf: "\<forall>i \<in> set inputs. wf_input i \<and> (\<exists>p. materialize (e_payload i) = Inr p)"
    and cmd: "length inputs > 1 \<Longrightarrow> \<exists>x. c = Some x \<and> x \<notin> cmds (events_of st)"
    and hooks: "dedupeHook hs inputs (events_of st) = Inr None" "recheckHook hs inputs (events_of st) = Inr ()"
    and content: "\<And>evs. list_all2 frames inputs evs \<Longrightarrow>
      kinds_ok (kind_map (events_of st)) evs \<and> (\<forall>e \<in> set evs. scope_ok e) \<and> reopens_ok (replay (events_of st)) evs"
  shows "\<exists>evs st'. appendCommand h honest hs c inputs st = (Inr evs, st') \<and> list_all2 frames inputs evs \<and>
     events_of st' = events_of st @ map persisted evs \<and> sound h st'"
proof -
  let ?es = "events_of st"
  let ?b = "if length inputs > 1 then Some (the c, length inputs) else None"
  from st have read: "readAll st = Inr ?es" and valid: "valid_log h ?es"
    and val: "validate h ?es (readHead (head_file st)) = Inr []"
    using sound_log[OF st] soundD(1)[OF st] by (auto simp: verified_iff)
  from frameEvents_ex[OF wf] obtain evs where fr: "frameEvents h ?b 0 (seq_map ?es) (last_hash ?es) inputs = Inr evs"
    by blast
  note frames = frameEvents_frames[OF fr]
  have "batches_ok (?es @ evs)"
  proof (rule batches_ok_append)
    show "batches_ok ?es" using valid by (simp add: valid_log_def)
    fix x
    assume m: "members (length ?es) x evs \<noteq> []"
    then have x: "x \<in> cmds evs" by (rule members_inside)
    show "members 0 x ?es = [] \<and> batch_ok (members (length ?es) x evs)"
    proof (cases "length inputs > 1")
      case True
      with cmd obtain y where y: "c = Some y" "y \<notin> cmds ?es" by blast
      with fr True have "members (length ?es) y evs = batch_members (length ?es) 0 (length inputs) (length inputs)"
        "cmds evs \<subseteq> {y}"
        using frameEvents_members[of h y "length inputs" 0 "seq_map ?es" "last_hash ?es" inputs evs "length ?es"]
        by simp_all
      with x y ne show ?thesis
        using batch_members_ok[of "length inputs" "length ?es"] by (auto simp: members_outside)
    next
      case False
      with fr have "cmds evs = {}" using frameEvents_single by fastforce
      with x show ?thesis by simp
    qed
  qed
  then have "valid_log h (?es @ evs)"
    unfolding valid_log_append
    using valid[unfolded valid_log_def] content[OF frames] frameEvents_chain[OF fr] by blast
  then have "validate h (?es @ evs) None = Inr []"
    by (simp add: validate_ok validateHead_def)
  then have plan: "planAppend h hs c inputs st = Inr (ToAppend ?es evs)"
    by (simp only: planAppend_def read val hooks fr bindR_Inr option.case not_True_eq_False if_False refl)
  have "length inputs > 1 \<Longrightarrow> c \<noteq> None" using cmd by auto
  then have body: "appendCommand h honest hs c inputs st = appendUnderLock h honest hs c inputs st"
    using ne by (auto simp: appendCommand_def)
  have "\<forall>i \<in> set inputs. wf_input i" using wf by blast
  note w = honest_write[OF plan ne this soundD(2)[OF st]]
  have run: "\<exists>st'. appendCommand h honest hs c inputs st = (Inr evs, st') \<and> readAll st' = Inr (?es @ map persisted evs) \<and>
      readHead (head_file st') = Some (head_of (?es @ map persisted evs)) \<and> ends_line st'"
    unfolding body by (simp only: appendUnderLock_def plan sum.case plan.case Let_def w(4)) (use w(1,3,5) in blast)
  then obtain st' where st': "appendCommand h honest hs c inputs st = (Inr evs, st')"
    "readAll st' = Inr (?es @ map persisted evs)" "readHead (head_file st') = Some (head_of (?es @ map persisted evs))" "ends_line st'"
    by blast
  then have "events_of st' = ?es @ map persisted evs" "sound h st'"
    using w(2) validateHead_self by (auto simp: events_of_def sound_def verified_def)
  with st' frames show ?thesis by blast
qed

section \<open>Retries\<close>

definition carries :: "string \<Rightarrow> track_event list \<Rightarrow> ulid \<Rightarrow> bool" where
  "carries token es a \<longleftrightarrow> (\<exists>e \<in> set es. e_clientToken e = Some token \<and> e_aggregateId e = a)"

definition originals :: "string \<Rightarrow> ulid set \<Rightarrow> track_event list \<Rightarrow> track_event list" where
  "originals token as es = filter (\<lambda>e. e_clientToken e = Some token \<and> e_aggregateId e \<in> as) es"

lemma distinct_singleton: "distinct xs \<Longrightarrow> set xs = {a} \<Longrightarrow> xs = [a]"
  by (cases xs; cases "tl xs") auto

lemma remdups_single: "xs \<noteq> [] \<Longrightarrow> set xs \<subseteq> {a} \<Longrightarrow> remdups xs = [a]"
  by (rule distinct_singleton) (auto simp: subset_singleton_iff)

text \<open>The three cases of the rule.\<close>

lemma dedup_cases:
  assumes "inputs \<noteq> []" "\<forall>i \<in> set inputs. e_clientToken i = Some token"
  shows "dedupByClientToken inputs es =
     (let as = set (map e_aggregateId inputs) in
      if \<forall>a \<in> as. \<not> carries token es a then Inr None
      else if \<forall>a \<in> as. carries token es a then Inr (Some (originals token as es))
      else Inl (Error ''EventStore.appendCommand: delivery clientToken reused across a different aggregate set''))"
proof -
  have tok: "remdups (map e_clientToken inputs) = [Some token]"
    using assms by (intro remdups_single) auto
  have first: "e_clientToken (inputs ! 0) = Some token" using assms by (cases inputs) simp_all
  let ?P = "map e_aggregateId (filter (\<lambda>e. e_clientToken e = Some token) es)"
  have P: "a \<in> set ?P \<longleftrightarrow> carries token es a" for a
    by (auto simp: carries_def)
  let ?I = "remdups (map e_aggregateId inputs)"
  have zero: "length (filter (\<lambda>a. a \<in> set ?P) ?I) = 0 \<longleftrightarrow> (\<forall>a \<in> set (map e_aggregateId inputs). \<not> carries token es a)"
    unfolding P by (simp add: filter_empty_conv)
  have all: "length (filter (\<lambda>a. a \<in> set ?P) ?I) = length ?I \<longleftrightarrow> (\<forall>a \<in> set (map e_aggregateId inputs). carries token es a)"
  proof
    assume "length (filter (\<lambda>a. a \<in> set ?P) ?I) = length ?I"
    then have "filter (\<lambda>a. a \<in> set ?P) ?I = ?I"
      by (metis filter_True length_filter_less less_irrefl)
    then show "\<forall>a \<in> set (map e_aggregateId inputs). carries token es a"
      unfolding P by (metis filter_id_conv set_remdups)
  next
    assume "\<forall>a \<in> set (map e_aggregateId inputs). carries token es a"
    then show "length (filter (\<lambda>a. a \<in> set ?P) ?I) = length ?I"
      unfolding P by simp
  qed
  show ?thesis
    unfolding dedupByClientToken_def Let_def tok first option.case zero all originals_def
    by simp
qed

lemma retry_succeeds:
  assumes st: "verified h st" and ne: "inputs \<noteq> []" "length inputs > 1 \<Longrightarrow> c \<noteq> None"
    and tok: "\<forall>i \<in> set inputs. e_clientToken i = Some token"
    and there: "\<forall>i \<in> set inputs. carries token (events_of st) (e_aggregateId i)"
    and hook: "dedupe hs = None"
  shows "appendCommand h d hs c inputs st =
     (Inr (originals token (e_aggregateId ` set inputs) (events_of st)), st)"
proof -
  from st have read: "readAll st = Inr (events_of st)"
    and val: "validate h (events_of st) (readHead (head_file st)) = Inr []"
    using verified_log[OF st] st by (auto simp: verified_iff)
  obtain i where "i \<in> set inputs" using ne(1) by (cases inputs) auto
  with there have "dedupeHook hs inputs (events_of st) =
      Inr (Some (originals token (e_aggregateId ` set inputs) (events_of st)))"
    using dedup_cases[OF ne(1) tok, of "events_of st"] by (auto simp: dedupeHook_def hook Let_def)
  then have "planAppend h hs c inputs st =
      Inr (AlreadyThere (originals token (e_aggregateId ` set inputs) (events_of st)))"
    by (simp add: planAppend_def read val)
  then show ?thesis
    using ne by (auto simp: appendCommand_def appendUnderLock_def)
qed

lemma originals_of_new:
  assumes "list_all2 frames inputs evs" "\<forall>i \<in> set inputs. e_clientToken i = Some token"
    and "\<forall>i \<in> set inputs. \<not> carries token es (e_aggregateId i)"
  shows "originals token (e_aggregateId ` set inputs) (es @ map persisted evs) = map persisted evs"
proof -
  have "originals token (e_aggregateId ` set inputs) es = []"
    using assms(3) by (auto simp: originals_def filter_empty_conv carries_def)
  moreover have "e_clientToken e = Some token \<and> e_aggregateId e \<in> e_aggregateId ` set inputs" if "e \<in> set evs" for e
    using list_all2_setD2[OF assms(1) that] assms(2) by (auto simp: frames_def)
  then have "originals token (e_aggregateId ` set inputs) (map persisted evs) = map persisted evs"
    by (auto simp: originals_def)
  ultimately show ?thesis by (simp add: originals_def)
qed

lemma append_then_retry:
  assumes st: "sound h st" and tok: "\<forall>i \<in> set inputs. e_clientToken i = Some token \<and> wf_input i"
    and fresh: "\<forall>i \<in> set inputs. \<not> carries token (events_of st) (e_aggregateId i)"
    and hooks: "dedupe hs = None" "dedupe hs' = None"
    and run: "appendCommand h honest hs c inputs st = (Inr evs, st1)"
    and again: "inputs' \<noteq> []" "length inputs' > 1 \<Longrightarrow> c' \<noteq> None"
      "\<forall>i \<in> set inputs'. e_clientToken i = Some token"
      "e_aggregateId ` set inputs' = e_aggregateId ` set inputs"
  shows "appendCommand h d hs' c' inputs' st1 = (Inr (map persisted evs), st1)"
proof -
  from appendCommand_Inr[OF run] have ne: "inputs \<noteq> []" by simp
  then obtain i where i: "i \<in> set inputs" by (cases inputs) auto
  have "dedupeHook hs inputs (events_of st) = Inr None"
    using dedup_cases[OF ne, of token "events_of st"] tok fresh by (simp add: dedupeHook_def hooks)
  with appendCommand_honest[OF _ soundD(2)[OF st] run] tok have st1: "sound h st1" and fr: "list_all2 frames inputs evs"
    and log: "events_of st1 = events_of st @ map persisted evs"
    by auto
  have there: "carries token (events_of st1) (e_aggregateId j)" if "j \<in> set inputs" for j
  proof -
    from list_all2_setD1[OF fr that] obtain e where "e \<in> set evs" "frames j e" by blast
    then show ?thesis
      using tok that by (auto simp: carries_def log frames_def intro!: bexI[of _ "persisted e"])
  qed
  have "\<forall>i \<in> set inputs'. carries token (events_of st1) (e_aggregateId i)"
    using again(4) there by (metis imageE imageI)
  from retry_succeeds[OF soundD(1)[OF st1] again(1,2,3) this hooks(2)]
  show ?thesis
    using originals_of_new[OF fr _ fresh] tok by (simp add: again(4) log)
qed

section \<open>The append-only log as an interface\<close>

text \<open>What a client of the store relies on: a command leaves a sound store sound, only ever
  extends its log, and changes nothing when it fails.\<close>

locale append_only =
  fixes content :: "'s \<Rightarrow> 'e list"
    and ok :: "'s \<Rightarrow> bool"
    and wf :: "'c \<Rightarrow> bool"
    and append :: "'c \<Rightarrow> 's \<Rightarrow> ('x + 'r) \<times> 's"
  assumes keeps: "ok s \<Longrightarrow> wf c \<Longrightarrow> ok (snd (append c s)) \<and> prefix (content s) (content (snd (append c s)))"
    and refuses: "ok s \<Longrightarrow> wf c \<Longrightarrow> append c s = (Inl x, s') \<Longrightarrow> s' = s"
begin

definition run :: "'c list \<Rightarrow> 's \<Rightarrow> 's" where
  "run cs s = fold (\<lambda>c s. snd (append c s)) cs s"

lemma run_keeps: "ok s \<Longrightarrow> \<forall>c \<in> set cs. wf c \<Longrightarrow> ok (run cs s) \<and> prefix (content s) (content (run cs s))"
proof (induction cs arbitrary: s)
  case (Cons c cs)
  then have "ok (snd (append c s))" "prefix (content s) (content (snd (append c s)))"
    using keeps by simp_all
  with Cons.IH[of "snd (append c s)"] Cons.prems show ?case
    by (auto simp: run_def intro: prefix_order.trans)
qed (simp add: run_def)

lemma run_history:
  "ok s \<Longrightarrow> \<forall>c \<in> set (cs @ ds). wf c \<Longrightarrow> prefix (content (run cs s)) (content (run (cs @ ds) s))"
  using run_keeps[of "run cs s" ds] run_keeps[of s cs] by (simp add: run_def)

lemma refused_is_nothing:
  assumes "ok s" "wf c" "fst (append c s) = Inl x"
  shows "run (c # cs) s = run cs s"
proof -
  have "append c s = (Inl x, snd (append c s))" by (metis assms(3) prod.collapse)
  then have "snd (append c s) = s" using refuses[OF assms(1,2)] by blast
  then show ?thesis by (simp add: run_def)
qed

end

text \<open>A command as the store receives it.\<close>

record command =
  co_hooks :: hooks
  co_cmdId :: "ulid option"
  co_inputs :: "command_event list"

definition wf_command :: "command \<Rightarrow> bool" where
  "wf_command co \<longleftrightarrow> (\<forall>i \<in> set (co_inputs co). wf_input i)"

definition submit :: "host \<Rightarrow> command \<Rightarrow> store \<Rightarrow> (error + track_event list) \<times> store" where
  "submit h co st = appendCommand h honest (co_hooks co) (co_cmdId co) (co_inputs co) st"

interpretation event_store: append_only events_of "sound h" wf_command "submit h" for h
proof unfold_locales
  fix st co
  assume st: "sound h st" and wf: "wf_command co"
  obtain r st' where run: "submit h co st = (r, st')" by (cases "submit h co st")
  note H = appendCommand_honest[OF wf[unfolded wf_command_def] soundD(2)[OF st] run[unfolded submit_def]]
  show "sound h (snd (submit h co st)) \<and> prefix (events_of st) (events_of (snd (submit h co st)))"
    using H st by (cases r) (auto simp: run)
next
  fix co st x st'
  assume st: "sound h st" and wf: "wf_command co" and run: "submit h co st = (Inl x, st')"
  show "st' = st"
    using appendCommand_honest[OF wf[unfolded wf_command_def] soundD(2)[OF st] run[unfolded submit_def]] by simp
qed

section \<open>Resealing the store\<close>

lemma reseal_refused: "reseal h d st = (Inl e, st') \<Longrightarrow> st' = st"
  by (auto simp: reseal_def split: sum.splits)

section \<open>A sample store\<close>

definition empty_store :: store where
  "empty_store = \<lparr>log_file = None, head_file = None\<rparr>"

definition sample_input :: "string \<Rightarrow> command_event" where
  "sample_input i = \<lparr>e_id = i, e_type = ItemCreated, e_aggregate = AItem, e_aggregateId = ''i1'',
     e_at = ''2026-01-01'', e_by = ''owner'', e_payload = Obj ObjectProto [(''title'', Str ''t'')],
     e_prov = None, e_clientToken = Some ''tok''\<rparr>"

lemma empty_sound: "sound h empty_store" and empty_events: "events_of empty_store = []"
  by (simp_all add: sound_def verified_def ends_line_def empty_store_def readAll_def valid_log_def batches_ok_def validateHead_def readHead_def
      events_of_def)

lemma sample_input_wf: "wf_input (sample_input i)"
  by (simp add: wf_input_def sample_input_def)

lemma sample_append:
  "\<exists>e st'. appendCommand h honest no_hooks None [sample_input i] empty_store = (Inr [e], st') \<and>
     e_id e = i \<and> e_aggregateId e = ''i1'' \<and> e_aggregate e = AItem \<and> e_clientToken e = Some ''tok'' \<and>
     events_of st' = [persisted e] \<and> sound h st'"
proof -
  have "\<exists>evs st'. appendCommand h honest no_hooks None [sample_input i] empty_store = (Inr evs, st') \<and>
      list_all2 frames [sample_input i] evs \<and> events_of st' = events_of empty_store @ map persisted evs \<and> sound h st'"
  proof (rule appendCommand_succeeds[OF empty_sound])
    show "dedupeHook no_hooks [sample_input i] (events_of empty_store) = Inr None"
      by (simp add: dedupeHook_def no_hooks_def dedupByClientToken_def empty_events sample_input_def)
    show "recheckHook no_hooks [sample_input i] (events_of empty_store) = Inr ()"
      by (simp add: recheckHook_def no_hooks_def)
    show "kinds_ok (kind_map (events_of empty_store)) evs \<and> (\<forall>e \<in> set evs. scope_ok e) \<and>
        reopens_ok (replay (events_of empty_store)) evs"
      if "list_all2 frames [sample_input i] evs" for evs
      using that
      by (auto simp: list_all2_Cons1 frames_def sample_input_def empty_events kind_map_def scope_ok_def reopen_ok_def)
  qed (simp_all add: sample_input_wf, simp add: sample_input_def rejectExoticContainer_def)
  then show ?thesis
    by (auto simp: list_all2_Cons1 frames_def sample_input_def empty_events)
qed

section \<open>Properties\<close>

text \<open>C4. A receipt is a proof: whatever the disk does with the writes, an append that returns events
  either returns the originals of a retry from a store that passes the check and that it leaves alone, or the log now reads
  back as a valid log of the old length followed by events with the identifiers and hashes of the
  returned ones, and the head names its last event.\<close>

theorem append_receipt:
  assumes "appendCommand h d hs c inputs st = (Inr events, st')"
  shows "st' = st \<and> verified h st \<and> dedupeHook hs inputs (events_of st) = Inr (Some events) \<or>
     list_all2 frames inputs events \<and> receipt h (length (events_of st)) events st'"
  by (rule appendCommand_receipt[OF assms])

theorem append_receipt_witness:
  "\<exists>events st'. appendCommand unary_host honest no_hooks None [sample_input ''01''] empty_store = (Inr events, st') \<and>
     (st' = empty_store \<and> verified unary_host empty_store \<and>
         dedupeHook no_hooks [sample_input ''01''] (events_of empty_store) = Inr (Some events) \<or>
      list_all2 frames [sample_input ''01''] events \<and>
        receipt unary_host (length (events_of empty_store)) events st')"
proof -
  from sample_append[of unary_host "''01''"] obtain e st'
    where run: "appendCommand unary_host honest no_hooks None [sample_input ''01''] empty_store = (Inr [e], st')"
    by blast
  from run append_receipt[OF run] show ?thesis by blast
qed

text \<open>C5. An append is all or nothing: on a disk that writes what it is asked and a log that is empty or ends
  with a newline, an error leaves the store as it was, and a success leaves a sound store whose log is the old log followed by exactly the
  returned events, or the store untouched when the command was a retry.\<close>

theorem append_all_or_nothing:
  assumes "\<forall>i \<in> set inputs. wf_input i" and "ends_line st" and "appendCommand h honest hs c inputs st = (r, st')"
  shows "case r of Inl e \<Rightarrow> st' = st
     | Inr events \<Rightarrow> sound h st \<and> sound h st' \<and>
         (events_of st' = events_of st @ map persisted events \<and> list_all2 frames inputs events \<or>
          st' = st \<and> dedupeHook hs inputs (events_of st) = Inr (Some events))"
  using appendCommand_honest[OF assms] by (auto split: sum.splits)

theorem append_all_or_nothing_witness:
  "\<exists>r st'. appendCommand unary_host honest no_hooks None [sample_input ''01''] empty_store = (r, st') \<and>
    (case r of Inl e \<Rightarrow> st' = empty_store
     | Inr events \<Rightarrow> sound unary_host empty_store \<and> sound unary_host st' \<and>
         (events_of st' = events_of empty_store @ map persisted events \<and>
            list_all2 frames [sample_input ''01''] events \<or>
          st' = empty_store \<and> dedupeHook no_hooks [sample_input ''01''] (events_of empty_store) = Inr (Some events)))"
proof -
  obtain r st' where run: "appendCommand unary_host honest no_hooks None [sample_input ''01''] empty_store = (r, st')"
    by (cases "appendCommand unary_host honest no_hooks None [sample_input ''01''] empty_store")
  have wf: "\<forall>i \<in> set [sample_input ''01'']. wf_input i" by (simp add: sample_input_wf)
  have "ends_line empty_store" by (simp add: ends_line_def empty_store_def)
  from run append_all_or_nothing[OF wf this run] show ?thesis by blast
qed

text \<open>C8. A legal command is accepted: on a sound store and an honest disk, a non-empty command whose
  payloads can be copied, that is fresh, passes its recheck and creates no illegal kind, blocker or
  reopening, appends its events, in order, and leaves a sound store.\<close>

theorem append_progress:
  assumes "sound h st" and "inputs \<noteq> []"
    and "\<forall>i \<in> set inputs. wf_input i \<and> (\<exists>p. materialize (e_payload i) = Inr p)"
    and "length inputs > 1 \<Longrightarrow> \<exists>x. c = Some x \<and> x \<notin> cmds (events_of st)"
    and "dedupeHook hs inputs (events_of st) = Inr None" "recheckHook hs inputs (events_of st) = Inr ()"
    and "\<And>evs. list_all2 frames inputs evs \<Longrightarrow>
      kinds_ok (kind_map (events_of st)) evs \<and> (\<forall>e \<in> set evs. scope_ok e) \<and> reopens_ok (replay (events_of st)) evs"
  shows "\<exists>evs st'. appendCommand h honest hs c inputs st = (Inr evs, st') \<and> list_all2 frames inputs evs \<and>
     events_of st' = events_of st @ map persisted evs \<and> sound h st'"
  by (rule appendCommand_succeeds) (fact assms)+

theorem append_progress_witness:
  "\<exists>evs st'. appendCommand unary_host honest no_hooks (Some ''c1'')
       [(sample_input ''01'')\<lparr>e_clientToken := None\<rparr>, (sample_input ''02'')\<lparr>e_clientToken := None\<rparr>] empty_store = (Inr evs, st') \<and>
     list_all2 frames [(sample_input ''01'')\<lparr>e_clientToken := None\<rparr>, (sample_input ''02'')\<lparr>e_clientToken := None\<rparr>] evs \<and>
     events_of st' = events_of empty_store @ map persisted evs \<and> sound unary_host st'"
proof (rule append_progress[OF empty_sound])
  show "kinds_ok (kind_map (events_of empty_store)) evs \<and> (\<forall>e \<in> set evs. scope_ok e) \<and>
        reopens_ok (replay (events_of empty_store)) evs"
    if "list_all2 frames [(sample_input ''01'')\<lparr>e_clientToken := None\<rparr>, (sample_input ''02'')\<lparr>e_clientToken := None\<rparr>] evs" for evs
    using that
    by (auto simp: list_all2_Cons1 frames_def sample_input_def empty_events kind_map_def scope_ok_def reopen_ok_def
        know_kind_def)
qed (auto simp: sample_input_def wf_input_def rejectExoticContainer_def empty_events cmds_def dedupeHook_def
    recheckHook_def no_hooks_def dedupByClientToken_def)

text \<open>C9. Retries are idempotent: a command whose delivery token was fresh, appended once, and sent again
  with newly minted events over the same aggregates returns the persisted events of the first
  delivery and changes nothing, whatever the disk would do.\<close>

theorem append_retry_idempotent:
  assumes "sound h st" and "\<forall>i \<in> set inputs. e_clientToken i = Some token \<and> wf_input i"
    and "\<forall>i \<in> set inputs. \<not> carries token (events_of st) (e_aggregateId i)"
    and "appendCommand h honest no_hooks c inputs st = (Inr evs, st1)"
    and "inputs' \<noteq> []" "length inputs' > 1 \<Longrightarrow> c' \<noteq> None"
    and "\<forall>i \<in> set inputs'. e_clientToken i = Some token"
    and "e_aggregateId ` set inputs' = e_aggregateId ` set inputs"
  shows "appendCommand h d no_hooks c' inputs' st1 = (Inr (map persisted evs), st1)"
  by (rule append_then_retry[OF assms(1,2,3) _ _ assms(4,5,6,7,8)]) (simp_all add: no_hooks_def)

theorem append_retry_idempotent_witness:
  "\<exists>e st1. appendCommand unary_host honest no_hooks None [sample_input ''01''] empty_store = (Inr [e], st1) \<and>
     appendCommand unary_host honest no_hooks None [sample_input ''02''] st1 = (Inr [persisted e], st1)"
proof -
  from sample_append[of unary_host "''01''"] obtain e st1
    where run: "appendCommand unary_host honest no_hooks None [sample_input ''01''] empty_store = (Inr [e], st1)"
    by blast
  have "appendCommand unary_host honest no_hooks None [sample_input ''02''] st1 = (Inr (map persisted [e]), st1)"
    by (rule append_retry_idempotent[where token = "''tok''", OF empty_sound _ _ run])
      (simp_all add: sample_input_wf empty_events carries_def, simp_all add: sample_input_def)
  with run show ?thesis by auto
qed

text \<open>The log is a history: on a disk that writes what it is asked, along any sequence of well-formed
  commands, accepted or refused, the store stays sound and what the log held at any moment is a prefix of what it holds later.\<close>

theorem log_is_history:
  assumes "sound h st" and "\<forall>c \<in> set (cs @ ds). wf_command c"
  shows "sound h (fold (\<lambda>c s. snd (submit h c s)) (cs @ ds) st) \<and>
    prefix (events_of (fold (\<lambda>c s. snd (submit h c s)) cs st))
      (events_of (fold (\<lambda>c s. snd (submit h c s)) (cs @ ds) st))"
  using event_store.run_keeps[OF assms] event_store.run_history[OF assms]
  by (simp add: event_store.run_def)

theorem log_is_history_witness:
  "prefix (events_of (fold (\<lambda>c s. snd (submit unary_host c s)) [\<lparr>co_hooks = no_hooks, co_cmdId = None, co_inputs = [sample_input ''01'']\<rparr>] empty_store))
     (events_of (fold (\<lambda>c s. snd (submit unary_host c s))
        ([\<lparr>co_hooks = no_hooks, co_cmdId = None, co_inputs = [sample_input ''01'']\<rparr>] @
         [\<lparr>co_hooks = no_hooks, co_cmdId = None, co_inputs = []\<rparr>]) empty_store))"
proof -
  have "\<forall>c \<in> set ([\<lparr>co_hooks = no_hooks, co_cmdId = None, co_inputs = [sample_input ''01'']\<rparr>] @
      [\<lparr>co_hooks = no_hooks, co_cmdId = None, co_inputs = []\<rparr>]). wf_command c"
    by (simp add: wf_command_def sample_input_wf)
  from log_is_history[OF empty_sound this] show ?thesis by blast
qed

end
