(* ===== verification/Crash.thy ===== *)
theory Crash
  imports Store_Laws
begin

text \<open>
  An append that is cut off: \<open>EventStore.appendAtomic\<close> (\<open>packages/track/src/events/store.ts\<close>) writes the lines
  of a command byte by byte as far as the system takes them, and \<open>writeHead\<close> renames a finished file, so
  a process that dies leaves any prefix of the bytes of its lines, with the old head. The states of the
  store during an append are listed here; the theory \<open>Lock\<close> interleaves them.
\<close>

section \<open>The writes of an append\<close>

text \<open>How far the lines of a command got: so many lines, a torn line after them, or a line whose newline is
  missing. A proper prefix of the text of an event, which is an object, does not parse.\<close>

datatype cut = Whole nat | Torn nat | Unended nat

fun cut_text :: "cut \<Rightarrow> line list \<Rightarrow> line list" where
  "cut_text (Whole i) ls = take i ls @ [BlankLine]"
| "cut_text (Torn i) ls = (if i < length ls then take i ls @ [MalformedLine] else ls @ [BlankLine])"
| "cut_text (Unended i) ls = (if i < length ls then take (Suc i) ls else ls @ [BlankLine])"

definition cut_append :: "cut \<Rightarrow> track_event list \<Rightarrow> store \<Rightarrow> store" where
  "cut_append c es st =
     st\<lparr>log_file := Some (append_text (case log_file st of None \<Rightarrow> [] | Some ls \<Rightarrow> ls)
          (cut_text c (map (\<lambda>e. EventLine (persisted e)) es)))\<rparr>"

text \<open>The states of the store after each write of a command: the short writes that \<open>cuts\<close> names, the last
  one, the new head. A command that is refused or a retry writes nothing.\<close>

definition append_steps :: "host \<Rightarrow> cut list \<Rightarrow> command \<Rightarrow> store \<Rightarrow> store list" where
  "append_steps h cuts co st =
     (let inputs = co_inputs co in
      if inputs = [] \<or> (length inputs > 1 \<and> co_cmdId co = None) then []
      else case planAppend h (co_hooks co) (co_cmdId co) inputs st of
        Inr (ToAppend existing events) \<Rightarrow>
          map (\<lambda>c. cut_append c events st) cuts @
          [appendAtomic honest events st,
           writeHead honest \<lparr>streamLength = int (length existing + length events),
             lastContentHash = Some (e_contentHash (last events))\<rparr> (appendAtomic honest events st)]
      | _ \<Rightarrow> [])"

lemma append_steps_last: "last (st # append_steps h cuts co st) = snd (submit h co st)"
  by (auto simp: append_steps_def submit_def appendCommand_def appendUnderLock_def Let_def
      split: sum.split plan.split)

lemma append_steps_cases:
  assumes "st' \<in> set (append_steps h cuts co st)"
  obtains es evs where "co_inputs co \<noteq> []"
    and "planAppend h (co_hooks co) (co_cmdId co) (co_inputs co) st = Inr (ToAppend es evs)"
    and "(\<exists>k. st' = cut_append k evs st) \<or> st' = appendAtomic honest evs st \<or>
      (\<exists>hh. st' = writeHead honest hh (appendAtomic honest evs st))"
proof -
  have ne: "co_inputs co \<noteq> []" using assms by (auto simp: append_steps_def Let_def split: if_splits)
  show thesis
  proof (cases "planAppend h (co_hooks co) (co_cmdId co) (co_inputs co) st")
    case (Inr pl)
    with assms show ?thesis
      by (cases pl) (auto simp: append_steps_def Let_def split: if_splits intro: that[OF ne])
  qed (use assms in \<open>auto simp: append_steps_def Let_def split: if_splits\<close>)
qed

section \<open>A store that refuses every command\<close>

definition refuses :: "host \<Rightarrow> store \<Rightarrow> bool" where
  "refuses h st \<longleftrightarrow> (\<forall>d hs c inputs. \<exists>e. appendCommand h d hs c inputs st = (Inl e, st))"

lemma unverified_refuses: "\<not> verified h st \<Longrightarrow> refuses h st"
  unfolding refuses_def
proof (intro allI)
  fix d hs c inputs
  assume bad: "\<not> verified h st"
  obtain e where "planAppend h hs c inputs st = Inl e"
    using bad planAppend_verified[of h hs c inputs st] by (cases "planAppend h hs c inputs st") auto
  then show "\<exists>e. appendCommand h d hs c inputs st = (Inl e, st)"
    by (auto simp: appendCommand_def appendUnderLock_def)
qed

text \<open>And only such a store: another one takes a retry.\<close>

lemma refuses_iff: "refuses h st \<longleftrightarrow> \<not> verified h st"
proof
  assume ref: "refuses h st"
  show "\<not> verified h st"
  proof
    assume "verified h st"
    then obtain es where read: "readAll st = Inr es" and val: "validate h es (readHead (head_file st)) = Inr []"
      by (auto simp: verified_iff)
    let ?hs = "\<lparr>dedupe = Some (\<lambda>_ _. Inr (Some [])), recheck = None\<rparr>"
    have "planAppend h ?hs None [undefined] st = Inr (AlreadyThere [])"
      by (simp add: planAppend_def read val dedupeHook_def)
    then have "appendCommand h honest ?hs None [undefined] st = (Inr [], st)"
      by (simp add: appendCommand_def appendUnderLock_def)
    with ref show False unfolding refuses_def by (metis Inl_Inr_False prod.inject)
  qed
qed (rule unverified_refuses)

section \<open>What a cut leaves\<close>

lemma readAll_cut:
  assumes "readAll st = Inr es" and "ends_line st"
  shows "readAll (cut_append c events st) = bindR (parseLines (cut_text c (map (\<lambda>e. EventLine (persisted e)) events)))
    (\<lambda>new. Inr (es @ new))"
proof -
  let ?new = "cut_text c (map (\<lambda>e. EventLine (persisted e)) events)"
  let ?old = "case log_file st of None \<Rightarrow> [] | Some ls \<Rightarrow> ls"
  have ne: "?new \<noteq> []" by (cases c) auto
  have ended: "?old = [] \<or> last ?old = BlankLine" using assms(2) by (auto simp: ends_line_def split: option.splits)
  have "parseLines (butlast ?old) = Inr es"
    using assms(1) parseLines_butlast[OF ended] by (auto simp: readAll_def split: option.splits)
  then show ?thesis
    by (simp add: readAll_def cut_append_def append_text_ended[OF ended ne] parseLines_append)
qed

lemma parseLines_events [simp]: "parseLines (map (\<lambda>e. EventLine (f e)) es) = Inr (map f es)"
  by (induction es) simp_all

lemma parseLines_cut:
  "parseLines (cut_text (Whole i) (map (\<lambda>e. EventLine (f e)) es)) = Inr (map f (take i es))"
  "i < length es \<Longrightarrow> \<exists>x. parseLines (cut_text (Torn i) (map (\<lambda>e. EventLine (f e)) es)) = Inl x"
  "i < length es \<Longrightarrow> parseLines (cut_text (Unended i) (map (\<lambda>e. EventLine (f e)) es)) = Inr (map f (take (Suc i) es))"
  by (simp_all add: parseLines_append take_map)

lemma head_cut [simp]: "head_file (cut_append c events st) = head_file st"
  by (simp add: cut_append_def)

lemma batch_whole: "batch_ok ms \<Longrightarrow> m \<in> set ms \<Longrightarrow> bm_n m = Some (int (length ms))"
  by (auto simp: batch_ok_def)

lemma stale_head:
  assumes "validateHead es hh = []"
  shows "validateHead (es @ new) hh = []"
  using assms by (cases hh) (auto simp: validateHead_iff nth_append, simp add: validateHead_def)

text \<open>The lines of a cut batch carry its size, and there are fewer of them.\<close>

lemma frameEvents_size:
  "frameEvents h (Some (c, n)) i s prev inputs = Inr evs \<Longrightarrow>
     \<forall>e \<in> set evs. e_cmdId e = Some c \<and> map_option cmd_n (e_cmd e) = Some (int n)"
proof (induction inputs arbitrary: i s prev evs)
  case (Cons x inputs)
  from Cons.prems obtain e rest where evs: "evs = e # rest" "e_cmdId e = Some c"
    "e_cmd e = Some \<lparr>cmd_i = int i, cmd_n = int n\<rparr>"
    and rest: "frameEvents h (Some (c, n)) (Suc i) (s(e_aggregateId x \<mapsto> e_seq e)) (Some (e_contentHash e)) inputs = Inr rest"
    unfolding frameEvents_Cons by auto
  from Cons.IH[OF rest] evs show ?case by simp
qed simp

lemma members_size:
  "\<forall>e \<in> set es. e_cmdId e = Some c \<and> map_option cmd_n (e_cmd e) = Some n \<Longrightarrow>
     length (members k c es) = length es \<and> (\<forall>m \<in> set (members k c es). bm_n m = Some n)"
  by (induction es arbitrary: k) (auto simp: member_of_def)

lemma partial_batch_invalid:
  assumes plan: "planAppend h hs c inputs st = Inr (ToAppend es events)" and i: "0 < i" "i < length events"
  shows "\<not> valid_log h (es @ map persisted (take i events))"
proof
  note p = planAppend_ToAppend[OF plan]
  let ?n = "int (length inputs)" and ?part = "map persisted (take i events)"
  have n: "length events = length inputs" using list_all2_lengthD[OF p(4)] by simp
  then have "frameEvents h (Some (the c, length inputs)) 0 (seq_map es) (last_hash es) inputs = Inr events"
    using plan i by (auto simp: planAppend_def bindR_eq_Inr if_Inl_Inr split: option.splits)
  note size = frameEvents_size[OF this]
  have part: "\<forall>e \<in> set ?part. e_cmdId e = Some (the c) \<and> map_option cmd_n (e_cmd e) = Some ?n"
    using size by (auto dest: in_set_takeD)
  note full = members_size[OF size, of "length es"] and cut = members_size[OF part, of "length es"]
  have alone: "members 0 (the c) es = []"
  proof -
    let ?ms = "members 0 (the c) (es @ events)"
    obtain m where m: "m \<in> set ?ms" "bm_n m = Some ?n"
      using full i by (cases "members (length es) (the c) events") (auto simp: members_append)
    have "?ms \<noteq> []" using m(1) by (cases ?ms) simp_all
    with p(3) have "batch_ok ?ms" by (simp add: valid_log_def batches_ok_def)
    from batch_whole[OF this m(1)] m(2) have "length ?ms = length inputs" by simp
    with full n show ?thesis by (simp add: members_append)
  qed
  assume "valid_log h (es @ ?part)"
  moreover have "members 0 (the c) (es @ ?part) = members (length es) (the c) ?part"
    by (simp add: members_append alone)
  moreover have ne: "members (length es) (the c) ?part \<noteq> []"
    using cut i by auto
  ultimately have "batch_ok (members (length es) (the c) ?part)"
    unfolding valid_log_def batches_ok_def by metis
  then have "length (members (length es) (the c) ?part) = length inputs"
    using cut ne batch_whole[of "members (length es) (the c) ?part" "hd (members (length es) (the c) ?part)"]
    by simp
  with cut n i show False by simp
qed

lemma cut_whole: "length events \<le> i \<Longrightarrow> cut_append (Whole i) events st = appendAtomic honest events st"
  and cut_past: "length events \<le> i \<Longrightarrow> cut_append (Torn i) events st = appendAtomic honest events st"
    "length events \<le> i \<Longrightarrow> cut_append (Unended i) events st = appendAtomic honest events st"
  by (simp_all add: cut_append_def appendAtomic_def honest_def written_lines_def)

lemma partial_refuses:
  assumes "planAppend h hs c inputs st = Inr (ToAppend es events)" and "0 < i" "i < length events"
    and "readAll st' = Inr (es @ map persisted (take i events))"
  shows "refuses h st'"
  using partial_batch_invalid[OF assms(1-3)] assms(4) by (intro unverified_refuses) (auto simp: verified_def)

lemma crash_cases:
  assumes "sound h st" and "inputs \<noteq> []" and "\<forall>i \<in> set inputs. wf_input i"
    and "planAppend h hs c inputs st = Inr (ToAppend es events)"
  shows "case k of
      Whole i \<Rightarrow> (if i = 0 then sound h (cut_append k events st) \<and> events_of (cut_append k events st) = es
        else if i < length events then refuses h (cut_append k events st)
        else sound h (cut_append k events st) \<and> events_of (cut_append k events st) = es @ map persisted events)
    | Torn i \<Rightarrow> (if i < length events then refuses h (cut_append k events st)
        else sound h (cut_append k events st) \<and> events_of (cut_append k events st) = es @ map persisted events)
    | Unended i \<Rightarrow> (if Suc i < length events then refuses h (cut_append k events st)
        else verified h (cut_append k events st) \<and> events_of (cut_append k events st) = es @ map persisted events \<and>
          (ends_line (cut_append k events st) \<longleftrightarrow> i \<noteq> length events - 1))"
proof -
  note p = planAppend_ToAppend[OF assms(4)] and line = soundD(2)[OF assms(1)]
  note rd = readAll_cut[OF p(1) line]
  let ?lines = "map (\<lambda>e. EventLine (persisted e)) events"
  have ev: "events \<noteq> []" using p(4) assms(2) by auto
  have "\<forall>e \<in> set events. inert (e_payload e)"
    using p(4) assms(3) by (auto dest!: list_all2_setD2 intro: frames_inert)
  then have "list_all2 reads_as (es @ events) (es @ map persisted events)"
    by (intro list_all2_appendI reads_as_refl reads_as_persisted)
  with p(3) have valid: "valid_log h (es @ map persisted events)" using reads_as_valid by blast
  have old: "valid_log h es" "validateHead es (readHead (head_file st)) = []"
    using p(5) p(1) by (auto simp: verified_def)
  note all_there = stale_head[OF old(2)]
  have there: "verified h st'" "events_of st' = es @ map persisted events"
    if "readAll st' = Inr (es @ map persisted events)" "head_file st' = head_file st" for st'
    using that valid all_there by (auto simp: verified_def events_of_def)
  have whole: "sound h (appendAtomic honest events st)" "events_of (appendAtomic honest events st) = es @ map persisted events"
    using there[of "appendAtomic honest events st"] readAll_append[OF p(1) line] ends_line_append[OF line]
    by (auto simp: sound_def) (auto simp: appendAtomic_def)
  show ?thesis
  proof (cases k)
    case (Whole i)
    have read: "readAll (cut_append k events st) = Inr (es @ map persisted (take i events))"
      unfolding Whole rd parseLines_cut(1) by simp
    have "ends_line (cut_append (Whole 0) events st)"
      using line by (auto simp: ends_line_def cut_append_def append_text_ended split: option.splits)
    then show ?thesis
      using read old partial_refuses[OF assms(4) _ _ read] whole
      by (auto simp: Whole sound_def verified_def events_of_def cut_whole)
  next
    case (Torn i)
    have "refuses h (cut_append k events st)" if "i < length events"
      using parseLines_cut(2)[OF that, of persisted] by (intro unverified_refuses) (auto simp: verified_def Torn rd)
    then show ?thesis using whole by (auto simp: Torn cut_past)
  next
    case (Unended i)
    show ?thesis
    proof (cases "i < length events")
      case True
      have read: "readAll (cut_append k events st) = Inr (es @ map persisted (take (Suc i) events))"
        unfolding Unended rd parseLines_cut(3)[OF True] by simp
      have "\<not> ends_line (cut_append (Unended i) events st)"
        using True line by (auto simp: ends_line_def cut_append_def append_text_ended take_Suc_conv_app_nth split: option.splits)
      then show ?thesis
        using True read there[of "cut_append k events st"] partial_refuses[OF assms(4) _ _ read]
        by (auto simp: Unended)
    next
      case False
      then show ?thesis using whole ev by (auto simp: Unended cut_past sound_def)
    qed
  qed
qed

section \<open>A log whose last line is not ended\<close>

lemma append_text_unended:
  assumes "readAll st = Inr es" and "\<not> ends_line st" and "new \<noteq> []" "hd new \<noteq> BlankLine"
    and "log_file st' = Some (append_text (case log_file st of None \<Rightarrow> [] | Some ls \<Rightarrow> ls) new)"
  shows "\<exists>x. readAll st' = Inl x"
proof -
  from assms(2) obtain ls where ls: "log_file st = Some ls" "ls \<noteq> []" "last ls \<noteq> BlankLine"
    by (auto simp: ends_line_def split: option.splits)
  have split: "ls = butlast ls @ [last ls]" using ls(2) by simp
  have "parseLines (butlast ls @ [last ls]) = Inr es"
    using assms(1) split by (simp add: readAll_def ls(1))
  then obtain es0 es1 where pre: "parseLines (butlast ls) = Inr es0" and "parseLines [last ls] = Inr es1"
    by (auto simp: parseLines_append bindR_eq_Inr)
  then have "last ls \<noteq> MalformedLine" by auto
  with ls(3) assms(4) have "merge_line (last ls) (hd new) = MalformedLine"
    by (cases "last ls"; cases "hd new") simp_all
  then show ?thesis
    using assms(3,5) ls pre by (simp add: readAll_def append_text_def parseLines_append)
qed

lemma append_unended:
  assumes "readAll st = Inr es" and "\<not> ends_line st" and "events \<noteq> []"
  shows "\<exists>x. readAll (appendAtomic honest events st) = Inl x"
proof -
  have "hd (written_lines events) \<noteq> BlankLine" using assms(3) by (cases events) (simp_all add: written_lines_def)
  from append_text_unended[OF assms(1,2) _ this] show ?thesis by (simp add: appendAtomic_def honest_def)
qed

section \<open>A sample batch\<close>

definition sample_batch :: "command_event list" where
  "sample_batch = [(sample_input ''01'')\<lparr>e_clientToken := None\<rparr>, (sample_input ''02'')\<lparr>e_clientToken := None\<rparr>]"

lemma sample_batch_wf: "\<forall>i \<in> set sample_batch. wf_input i"
  by (simp add: sample_batch_def wf_input_def sample_input_def)

lemma appendCommand_plan:
  assumes "appendCommand h honest hs c inputs st = (Inr evs, st')" "events_of st' \<noteq> events_of st"
  shows "planAppend h hs c inputs st = Inr (ToAppend (events_of st) evs)"
proof (cases "planAppend h hs c inputs st")
  case (Inr p)
  show ?thesis
  proof (cases p)
    case (ToAppend es events)
    with Inr assms planAppend_ToAppend(1)[OF Inr[unfolded ToAppend]] show ?thesis
      by (auto simp: appendCommand_def appendUnderLock_def Let_def events_of_def split: if_splits sum.splits)
  qed (use Inr assms in \<open>auto simp: appendCommand_def appendUnderLock_def split: if_splits\<close>)
qed (use assms in \<open>auto simp: appendCommand_def appendUnderLock_def split: if_splits\<close>)

lemma sample_plan:
  "\<exists>evs. planAppend h no_hooks (Some ''c1'') sample_batch empty_store = Inr (ToAppend [] evs) \<and> length evs = 2"
proof -
  have "\<exists>evs st'. appendCommand h honest no_hooks (Some ''c1'') sample_batch empty_store = (Inr evs, st') \<and>
      list_all2 frames sample_batch evs \<and> events_of st' = events_of empty_store @ map persisted evs \<and> sound h st'"
  proof (rule appendCommand_succeeds[OF empty_sound])
    show "kinds_ok (kind_map (events_of empty_store)) evs \<and> (\<forall>e \<in> set evs. scope_ok e) \<and>
          reopens_ok (replay (events_of empty_store)) evs"
      if "list_all2 frames sample_batch evs" for evs
      using that
      by (auto simp: sample_batch_def list_all2_Cons1 frames_def sample_input_def empty_events kind_map_def scope_ok_def
          reopen_ok_def know_kind_def)
  qed (auto simp: sample_batch_def sample_input_def wf_input_def rejectExoticContainer_def empty_events cmds_def
      dedupeHook_def recheckHook_def no_hooks_def dedupByClientToken_def)
  then obtain evs st' where run: "appendCommand h honest no_hooks (Some ''c1'') sample_batch empty_store = (Inr evs, st')"
    and fr: "list_all2 frames sample_batch evs" and log: "events_of st' = map persisted evs"
    by (auto simp: empty_events)
  have len: "length evs = 2" using list_all2_lengthD[OF fr] by (simp add: sample_batch_def)
  then have "events_of st' \<noteq> events_of empty_store" using log by (auto simp: empty_events)
  from appendCommand_plan[OF run this] len show ?thesis by (simp add: empty_events)
qed

text \<open>A second command on the store the first one left, and the same with the newline lost.\<close>

definition sample_second :: command_event where
  "sample_second = (sample_input ''02'')\<lparr>e_clientToken := None\<rparr>"

lemma sample_second_wf: "wf_input sample_second"
  by (simp add: sample_second_def wf_input_def sample_input_def)

lemma second_plan:
  "\<exists>e st evs. appendCommand h honest no_hooks None [sample_input ''01''] empty_store = (Inr [e], st) \<and>
     planAppend h no_hooks None [sample_input ''01''] empty_store = Inr (ToAppend [] [e]) \<and>
     sound h st \<and> events_of st = [persisted e] \<and> planAppend h no_hooks None [sample_second] st = Inr (ToAppend [persisted e] evs)"
proof -
  from sample_append[of h "''01''"] obtain e st
    where first: "appendCommand h honest no_hooks None [sample_input ''01''] empty_store = (Inr [e], st)"
    and e: "e_aggregateId e = ''i1''" and kind: "e_aggregate e = AItem"
    and log: "events_of st = [persisted e]" and st: "sound h st"
    by (elim exE conjE) (rule that; assumption)
  have "\<exists>evs st'. appendCommand h honest no_hooks None [sample_second] st = (Inr evs, st') \<and>
      list_all2 frames [sample_second] evs \<and> events_of st' = events_of st @ map persisted evs \<and> sound h st'"
  proof (rule appendCommand_succeeds[OF st])
    show "kinds_ok (kind_map (events_of st)) evs \<and> (\<forall>e \<in> set evs. scope_ok e) \<and> reopens_ok (replay (events_of st)) evs"
      if "list_all2 frames [sample_second] evs" for evs
      using that e kind
      by (auto simp: log list_all2_Cons1 frames_def sample_second_def sample_input_def kind_map_def scope_ok_def
          reopen_ok_def know_kind_def)
  qed (auto simp: sample_second_def sample_input_def wf_input_def rejectExoticContainer_def
      dedupeHook_def recheckHook_def no_hooks_def dedupByClientToken_def)
  then obtain evs st2 where run: "appendCommand h honest no_hooks None [sample_second] st = (Inr evs, st2)"
    and fr: "list_all2 frames [sample_second] evs" and log2: "events_of st2 = events_of st @ map persisted evs"
    by blast
  have "evs \<noteq> []" using fr by auto
  with log2 have "events_of st2 \<noteq> events_of st" by simp
  from appendCommand_plan[OF run this] have plan: "planAppend h no_hooks None [sample_second] st =
      Inr (ToAppend [persisted e] evs)" by (simp add: log)
  have "events_of st \<noteq> events_of empty_store" by (simp add: log empty_events)
  from appendCommand_plan[OF first this] have "planAppend h no_hooks None [sample_input ''01''] empty_store = Inr (ToAppend [] [e])"
    by (simp add: empty_events)
  with first st log plan show ?thesis by blast
qed

lemma planAppend_cong:
  "readAll st' = readAll st \<Longrightarrow> head_file st' = head_file st \<Longrightarrow> planAppend h hs c inputs st' = planAppend h hs c inputs st"
  by (simp add: planAppend_def)

lemma unended_sample:
  "\<exists>e evs st. log_file st = Some [EventLine e] \<and> planAppend h no_hooks None [sample_second] st = Inr (ToAppend [e] evs)"
proof -
  from second_plan[of h] obtain e st evs where st: "sound h st" and log: "events_of st = [persisted e]"
    and plan: "planAppend h no_hooks None [sample_second] st = Inr (ToAppend [persisted e] evs)"
    by (elim exE conjE) (rule that; assumption)
  let ?st = "st\<lparr>log_file := Some [EventLine (persisted e)]\<rparr>"
  have "readAll ?st = readAll st" using sound_log[OF st] by (simp add: readAll_def[of ?st] log)
  from planAppend_cong[OF this] plan have "planAppend h no_hooks None [sample_second] ?st =
      Inr (ToAppend [persisted e] evs)" by simp
  then show ?thesis by (intro exI[of _ "persisted e"] exI[of _ evs] exI[of _ ?st]) simp
qed

section \<open>Properties\<close>

text \<open>C6. What a crash leaves: when a process dies while it appends the lines of a command to a sound store,
  after any number of them, inside one, before the newline of one, or after all of them and before the
  head is written, then either nothing of the command is there, or all of it is and the old head
  still fits, or the store refuses every later command until it is repaired. The log never holds a
  part of a command that a later reader or writer takes for the whole.\<close>

theorem append_crash:
  assumes "sound h st" and "inputs \<noteq> []" and "\<forall>i \<in> set inputs. wf_input i"
    and "planAppend h hs c inputs st = Inr (ToAppend es events)"
  shows "case k of
      Whole i \<Rightarrow> (if i = 0 then sound h (cut_append k events st) \<and> events_of (cut_append k events st) = es
        else if i < length events then refuses h (cut_append k events st)
        else sound h (cut_append k events st) \<and> events_of (cut_append k events st) = es @ map persisted events)
    | Torn i \<Rightarrow> (if i < length events then refuses h (cut_append k events st)
        else sound h (cut_append k events st) \<and> events_of (cut_append k events st) = es @ map persisted events)
    | Unended i \<Rightarrow> (if Suc i < length events then refuses h (cut_append k events st)
        else verified h (cut_append k events st) \<and> events_of (cut_append k events st) = es @ map persisted events \<and>
          (ends_line (cut_append k events st) \<longleftrightarrow> i \<noteq> length events - 1))"
  by (rule crash_cases[OF assms])

theorem append_crash_witness:
  "\<exists>evs. planAppend unary_host no_hooks (Some ''c1'') sample_batch empty_store = Inr (ToAppend [] evs) \<and>
     refuses unary_host (cut_append (Whole 1) evs empty_store) \<and>
     refuses unary_host (cut_append (Torn 1) evs empty_store) \<and>
     verified unary_host (cut_append (Unended 1) evs empty_store) \<and>
     events_of (cut_append (Unended 1) evs empty_store) = map persisted evs"
proof -
  from sample_plan[of unary_host] obtain evs
    where plan: "planAppend unary_host no_hooks (Some ''c1'') sample_batch empty_store = Inr (ToAppend [] evs)"
    and len: "length evs = 2" by blast
  have ne: "sample_batch \<noteq> []" by (simp add: sample_batch_def)
  note crash = append_crash[OF empty_sound ne sample_batch_wf plan]
  show ?thesis
    using crash[of "Whole 1"] crash[of "Torn 1"] crash[of "Unended 1"] plan len
    by (intro exI[of _ evs]) simp
qed

text \<open>C7. A missing newline ruins the next append: a store that reads back as a valid log but whose last line
  lost its newline, which the check under the lock accepts, is made unreadable by the next command
  that would be accepted: its first event is glued to that line, the check after the write fails, and
  the store that is left refuses everything.\<close>

theorem unended_line_breaks_next_append:
  assumes "planAppend h hs c inputs st = Inr (ToAppend es events)" and "inputs \<noteq> []" "length inputs > 1 \<Longrightarrow> c \<noteq> None"
    and "\<not> ends_line st"
  shows "\<exists>x. appendCommand h honest hs c inputs st = (Inl x, snd (appendCommand h honest hs c inputs st)) \<and>
    refuses h (snd (appendCommand h honest hs c inputs st))"
proof -
  note p = planAppend_ToAppend[OF assms(1)]
  have "events \<noteq> []" using p(4) assms(2) by auto
  from append_unended[OF p(1) assms(4) this] obtain x where x: "readAll (appendAtomic honest events st) = Inl x" by blast
  let ?hh = "\<lparr>streamLength = int (length es + length events), lastContentHash = Some (e_contentHash (last events))\<rparr>"
  have run: "appendCommand h honest hs c inputs st = (Inl x, writeHead honest ?hh (appendAtomic honest events st))"
    using assms(2,3) by (auto simp: appendCommand_def appendUnderLock_def assms(1) verifyAppend_def x)
  show ?thesis
    unfolding run by (simp add: unverified_refuses verified_def x)
qed

theorem unended_line_breaks_next_append_witness:
  "\<exists>e evs st. log_file st = Some [EventLine e] \<and>
     planAppend unary_host no_hooks None [sample_second] st = Inr (ToAppend [e] evs) \<and>
     refuses unary_host (snd (appendCommand unary_host honest no_hooks None [sample_second] st))"
proof -
  from unended_sample[of unary_host] obtain e evs st where st: "log_file st = Some [EventLine e]"
    and plan: "planAppend unary_host no_hooks None [sample_second] st = Inr (ToAppend [e] evs)"
    by (elim exE conjE) (rule that; assumption)
  have "\<not> ends_line st" by (simp add: ends_line_def st)
  from unended_line_breaks_next_append[OF plan _ _ this] st plan show ?thesis by auto
qed

end
