(* ===== verification/Lock.thy ===== *)
theory Lock
  imports Crash
begin

text \<open>
  \<open>packages/track/src/events/lock.ts\<close>: the cross-process lock around the critical section of an
  append, as a step relation over the lock file, the protected file and the phase of every
  process. A step is one system call or one decision of \<open>withFileLock\<close>; processes interleave
  freely, may die anywhere, and a person may delete the lock of a writer that is gone, as the
  timeout message advises. The critical section reads the protected file and then writes it any number
  of times (\<open>body\<close> lists the states it goes through), so that the interleavings the lock is there to
  exclude exist in the model, and so do the files that a process which dies between or inside its writes
  leaves behind.
\<close>

section \<open>The system\<close>

text \<open>\<open>Waiting\<close>: in the acquisition loop. \<open>Created\<close>: the exclusive open succeeded, the holder record is
  not yet written. \<open>Inside\<close>: running \<open>fn\<close>. \<open>Releasing\<close>: in the \<open>finally\<close> block. \<open>Unlinking\<close>: the record
  carried our token. \<open>Leaked\<close>: the process went on without removing the file it created, since writing the
  record failed, which leaves the loop, or the record was written short, or the file could not be removed.\<close>

datatype phase = Waiting | Created | Inside | Releasing | Unlinking | Returned | TimedOut | Leaked | Dead

text \<open>The lock file: the process that created it and whether its holder record is complete. The
  token of an acquisition is unique, so it is read as its process. \<open>view\<close>: the protected file as a process
  inside read it, and how many of its writes it has done. \<open>history\<close>: the processes that left the critical section, with the number of
  their writes, in order.\<close>

record ('p, 'f) system =
  lockfile :: "('p \<times> bool) option"
  phase :: "'p \<Rightarrow> phase"
  shared :: 'f
  view :: "'p \<Rightarrow> ('f \<times> nat) option"
  history :: "('p \<times> nat) list"

definition readHolder :: "('p, 'f) system \<Rightarrow> 'p option" where
  "readHolder s = (case lockfile s of Some (q, True) \<Rightarrow> Some q | _ \<Rightarrow> None)"

definition enter :: "'p \<Rightarrow> phase \<Rightarrow> ('p, 'f) system \<Rightarrow> ('p, 'f) system" where
  "enter p ph s = s\<lparr>phase := (phase s)(p := ph)\<rparr>"

text \<open>The critical section of a process ends here: it returns, a read or a write raises, or the process dies.\<close>

definition ended :: "'p \<Rightarrow> ('p, 'f) system \<Rightarrow> ('p, 'f) system" where
  "ended p s = s\<lparr>history := history s @
     (case view s p of Some (f, k) \<Rightarrow> if phase s p = Inside then [(p, k)] else [] | None \<Rightarrow> [])\<rparr>"

inductive lstep :: "('p \<Rightarrow> 'f \<Rightarrow> 'f list) \<Rightarrow> ('p, 'f) system \<Rightarrow> ('p, 'f) system \<Rightarrow> bool" for body where
  create: "phase s p = Waiting \<Longrightarrow> lockfile s = None \<Longrightarrow>
     lstep body s (enter p Created (s\<lparr>lockfile := Some (p, False)\<rparr>))"
| sleep: "phase s p = Waiting \<Longrightarrow> lockfile s \<noteq> None \<Longrightarrow> lstep body s s"
| timeout: "phase s p = Waiting \<Longrightarrow> lockfile s \<noteq> None \<Longrightarrow> lstep body s (enter p TimedOut s)"
| mark: "phase s p = Created \<Longrightarrow>
     lstep body s (enter p Inside (s\<lparr>lockfile := (case lockfile s of
        Some (q, b) \<Rightarrow> if q = p then Some (p, whole) else Some (q, b) | None \<Rightarrow> None), view := (view s)(p := None)\<rparr>))"
| record_fails: "phase s p = Created \<Longrightarrow> lstep body s (enter p Leaked s)"
| read: "phase s p = Inside \<Longrightarrow> view s p = None \<Longrightarrow> lstep body s (s\<lparr>view := (view s)(p \<mapsto> (shared s, 0))\<rparr>)"
| modify: "phase s p = Inside \<Longrightarrow> view s p = Some (f, k) \<Longrightarrow> k < length (body p f) \<Longrightarrow>
     lstep body s (s\<lparr>shared := body p f ! k, view := (view s)(p \<mapsto> (f, Suc k))\<rparr>)"
| finish: "phase s p = Inside \<Longrightarrow> view s p = Some (f, length (body p f)) \<Longrightarrow>
     lstep body s (enter p Releasing (ended p s))"
| raise: "phase s p = Inside \<Longrightarrow> lstep body s (enter p Releasing (ended p s))"
| release: "phase s p = Releasing \<Longrightarrow> readHolder s = Some p \<Longrightarrow> lstep body s (enter p Unlinking s)"
| leave: "phase s p = Releasing \<Longrightarrow> readHolder s \<noteq> Some p \<Longrightarrow>
     lstep body s (enter p (if lockfile s = Some (p, False) then Leaked else Returned) s)"
| unlink: "phase s p = Unlinking \<Longrightarrow> lstep body s (enter p Returned (s\<lparr>lockfile := None\<rparr>))"
| unlink_fails: "phase s p = Unlinking \<Longrightarrow> lstep body s (enter p Leaked s)"
| die: "lstep body s (enter p Dead (ended p s))"
| clean: "lockfile s = Some (p, b) \<Longrightarrow> phase s p \<in> {Dead, Leaked} \<Longrightarrow> lstep body s (s\<lparr>lockfile := None\<rparr>)"

inductive reachable :: "('p \<Rightarrow> 'f \<Rightarrow> 'f list) \<Rightarrow> 'f \<Rightarrow> ('p, 'f) system \<Rightarrow> bool" for body init where
  start: "lockfile s = None \<Longrightarrow> (\<forall>p. phase s p = Waiting) \<Longrightarrow> shared s = init \<Longrightarrow> history s = [] \<Longrightarrow>
     reachable body init s"
| more: "reachable body init s \<Longrightarrow> lstep body s t \<Longrightarrow> reachable body init t"

inductive_cases lstepE: "lstep body s t"
inductive_simps lstep_iff: "lstep body s t"

section \<open>Serial runs\<close>

text \<open>What a process leaves that read \<open>f\<close> and did so many of its writes, and the processes of a history up to
  the first one that did not do all of its writes.\<close>

definition cut_run :: "('p \<Rightarrow> 'f \<Rightarrow> 'f list) \<Rightarrow> 'p \<times> nat \<Rightarrow> 'f \<Rightarrow> 'f" where
  "cut_run body pk f = last (f # take (snd pk) (body (fst pk) f))"

fun intact :: "('p \<Rightarrow> 'f \<Rightarrow> 'f list) \<Rightarrow> 'f \<Rightarrow> ('p \<times> nat) list \<Rightarrow> 'p list" where
  "intact body f [] = []"
| "intact body f ((p, k) # hs) = (if k < length (body p f) then [] else p # intact body (cut_run body (p, k) f) hs)"

text \<open>The part of the process inside, if it has read the file.\<close>

definition running :: "('p, 'f) system \<Rightarrow> ('p \<times> nat) list \<Rightarrow> bool" where
  "running s r \<longleftrightarrow> (case r of
      [] \<Rightarrow> \<forall>p. phase s p = Inside \<longrightarrow> view s p = None
    | [(p, k)] \<Rightarrow> phase s p = Inside \<and> map_option snd (view s p) = Some k
    | _ \<Rightarrow> False)"

lemma cut_run_simps [simp]: "cut_run body (p, 0) f = f"
  and cut_run_Suc: "k < length (body p f) \<Longrightarrow> cut_run body (p, Suc k) f = body p f ! k"
  by (simp_all add: cut_run_def take_Suc_conv_app_nth)

section \<open>The invariant\<close>

definition holding :: "phase \<Rightarrow> bool" where
  "holding ph \<longleftrightarrow> ph \<in> {Created, Inside, Releasing, Unlinking}"

definition before :: "phase \<Rightarrow> bool" where
  "before ph \<longleftrightarrow> ph \<in> {Waiting, Created, Inside}"

definition lock_inv :: "('p \<Rightarrow> 'f \<Rightarrow> 'f list) \<Rightarrow> 'f \<Rightarrow> ('p, 'f) system \<Rightarrow> bool" where
  "lock_inv body init s \<longleftrightarrow>
     (\<forall>p. holding (phase s p) \<longrightarrow> (\<exists>b. lockfile s = Some (p, b))) \<and>
     (\<forall>p f k. phase s p = Inside \<longrightarrow> view s p = Some (f, k) \<longrightarrow>
        f = fold (cut_run body) (history s) init \<and> shared s = cut_run body (p, k) f) \<and>
     ((\<forall>p. phase s p = Inside \<longrightarrow> view s p = None) \<longrightarrow> shared s = fold (cut_run body) (history s) init) \<and>
     distinct (map fst (history s)) \<and> (\<forall>p \<in> fst ` set (history s). \<not> before (phase s p))"

lemma enter_sel [simp]:
  "lockfile (enter p ph s) = lockfile s" "phase (enter p ph s) q = (if q = p then ph else phase s q)"
  "shared (enter p ph s) = shared s" "view (enter p ph s) = view s" "history (enter p ph s) = history s"
  by (simp_all add: enter_def)

lemma ended_sel [simp]:
  "lockfile (ended p s) = lockfile s" "phase (ended p s) = phase s" "shared (ended p s) = shared s" "view (ended p s) = view s"
  by (simp_all add: ended_def)

lemma lock_invI:
  assumes "\<And>p. holding (phase s p) \<Longrightarrow> \<exists>b. lockfile s = Some (p, b)"
    and "\<And>p f k. phase s p = Inside \<Longrightarrow> view s p = Some (f, k) \<Longrightarrow>
      f = fold (cut_run body) (history s) init \<and> shared s = cut_run body (p, k) f"
    and "(\<And>p. phase s p = Inside \<Longrightarrow> view s p = None) \<Longrightarrow> shared s = fold (cut_run body) (history s) init"
    and "distinct (map fst (history s))" and "\<And>p. p \<in> fst ` set (history s) \<Longrightarrow> \<not> before (phase s p)"
  shows "lock_inv body init s"
  using assms unfolding lock_inv_def by blast

lemma lock_invD:
  assumes "lock_inv body init s"
  shows "holding (phase s p) \<Longrightarrow> \<exists>b. lockfile s = Some (p, b)"
    and "phase s p = Inside \<Longrightarrow> view s p = Some (f, k) \<Longrightarrow> f = fold (cut_run body) (history s) init \<and> shared s = cut_run body (p, k) f"
    and "(\<And>p. phase s p = Inside \<Longrightarrow> view s p = None) \<Longrightarrow> shared s = fold (cut_run body) (history s) init"
    and "distinct (map fst (history s))" and "p \<in> fst ` set (history s) \<Longrightarrow> \<not> before (phase s p)"
  using assms unfolding lock_inv_def by blast+

lemma phase_simps [simp]:
  "\<not> holding Waiting" "holding Created" "holding Inside" "holding Releasing" "holding Unlinking"
  "\<not> holding Returned" "\<not> holding TimedOut" "\<not> holding Leaked" "\<not> holding Dead"
  "before Waiting" "before Created" "before Inside" "\<not> before Releasing" "\<not> before Unlinking"
  "\<not> before Returned" "\<not> before TimedOut" "\<not> before Leaked" "\<not> before Dead"
  by (simp_all add: holding_def before_def)

lemma sole_holder:
  assumes "lock_inv body init s" "lockfile s = Some (p, b)" "holding (phase s q)"
  shows "q = p"
  using lock_invD(1)[OF assms(1,3)] assms(2) by auto

lemma nobody_holds: "lock_inv body init s \<Longrightarrow> lockfile s = None \<Longrightarrow> \<not> holding (phase s q)"
  using lock_invD(1) by fastforce

lemma sole_inside:
  assumes "lock_inv body init s" "phase s p = Inside" "phase s q = Inside"
  shows "q = p"
  using lock_invD(1)[OF assms(1), of p] sole_holder[OF assms(1), of p _ q] assms(2,3) by auto

text \<open>The critical section of a process ends: the file is what the history, with its part in it, makes of the
  initial one.\<close>

lemma ended_serial:
  assumes inv: "lock_inv body init s" and in_p: "phase s p = Inside"
  shows "shared s = fold (cut_run body) (history (ended p s)) init" and "distinct (map fst (history (ended p s)))"
    and "set (map fst (history (ended p s))) \<subseteq> insert p (set (map fst (history s)))"
proof -
  have new: "p \<notin> fst ` set (history s)" using lock_invD(5)[OF inv, of p] in_p by auto
  show "distinct (map fst (history (ended p s)))"
    using lock_invD(4)[OF inv] new by (auto simp: ended_def split: option.splits)
  show "set (map fst (history (ended p s))) \<subseteq> insert p (set (map fst (history s)))"
    by (auto simp: ended_def split: option.splits if_splits)
  show "shared s = fold (cut_run body) (history (ended p s)) init"
  proof (cases "view s p")
    case None
    then have "view s q = None" if "phase s q = Inside" for q using sole_inside[OF inv in_p that] by simp
    from lock_invD(3)[OF inv this] None show ?thesis by (simp add: ended_def)
  next
    case (Some fk)
    obtain f k where fk: "fk = (f, k)" by (cases fk)
    from lock_invD(2)[OF inv in_p Some[unfolded fk]] show ?thesis by (simp add: ended_def Some fk in_p)
  qed
qed

text \<open>A process leaves the critical section, or changes only its phase to one after it.\<close>

lemma lock_inv_leave:
  assumes inv: "lock_inv body init s" and later: "\<not> before ph" and hold: "holding ph \<Longrightarrow> holding (phase s p)"
  shows "lock_inv body init (enter p ph (ended p s))"
proof (rule lock_invI)
  let ?t = "enter p ph (ended p s)"
  show "\<exists>b. lockfile ?t = Some (q, b)" if "holding (phase ?t q)" for q
    using lock_invD(1)[OF inv, of q] that hold by (cases "q = p") auto
  have nh: "history ?t = history s" if "phase s p \<noteq> Inside" using that by (simp add: ended_def split: option.splits)
  have ph: "ph \<noteq> Inside" using later by auto
  show "f = fold (cut_run body) (history ?t) init \<and> shared ?t = cut_run body (q, k) f"
    if q: "phase ?t q = Inside" "view ?t q = Some (f, k)" for q f k
  proof -
    have "q \<noteq> p" "phase s q = Inside" using q ph by (auto split: if_splits)
    then have "phase s p \<noteq> Inside" using sole_inside[OF inv, of p q] by auto
    with nh lock_invD(2)[OF inv \<open>phase s q = Inside\<close>] q(2) show ?thesis by simp
  qed
  show "shared ?t = fold (cut_run body) (history ?t) init" if none: "\<And>q. phase ?t q = Inside \<Longrightarrow> view ?t q = None"
  proof (cases "phase s p = Inside")
    case True
    from ended_serial(1)[OF inv True] show ?thesis by simp
  next
    case False
    have "view s q = None" if "phase s q = Inside" for q using none[of q] that False by (cases "q = p") auto
    from lock_invD(3)[OF inv this] nh[OF False] show ?thesis by simp
  qed
  show "distinct (map fst (history ?t))"
    using ended_serial(2)[OF inv] lock_invD(4)[OF inv] nh by (cases "phase s p = Inside") auto
  show "\<not> before (phase ?t q)" if "q \<in> fst ` set (history ?t)" for q
    using ended_serial(3)[OF inv, of p] lock_invD(5)[OF inv, of q] that nh later by (cases "phase s p = Inside") auto
qed

lemma ended_outside [simp]: "phase s p \<noteq> Inside \<Longrightarrow> ended p s = s"
  by (simp add: ended_def split: option.splits)

lemma lock_inv_quit:
  assumes "lock_inv body init s" "\<not> before ph" "phase s p \<noteq> Inside" "holding ph \<Longrightarrow> holding (phase s p)"
  shows "lock_inv body init (enter p ph s)"
  using lock_inv_leave[OF assms(1,2,4)] assms(3) by simp

text \<open>The lock file is removed while nobody holds it.\<close>

lemma lock_inv_unlock:
  assumes inv: "lock_inv body init s" and none: "\<And>q. \<not> holding (phase s q)"
  shows "lock_inv body init (s\<lparr>lockfile := None\<rparr>)"
proof -
  have "phase s q \<noteq> Inside" for q using none[of q] by auto
  then show ?thesis
    using none lock_invD(3,4,5)[OF inv] by (intro lock_invI) simp_all
qed

lemma lock_inv_step: "lstep body s t \<Longrightarrow> lock_inv body init s \<Longrightarrow> lock_inv body init t"
proof (induction rule: lstep.induct)
  case (create s p)
  have none: "\<not> holding (phase s q)" for q by (rule nobody_holds[OF create(3,2)])
  have "phase s q \<noteq> Inside" for q using none[of q] by auto
  moreover have "p \<notin> fst ` set (history s)" using lock_invD(5)[OF create(3), of p] create(1) by auto
  ultimately show ?case
    using none lock_invD(3,4,5)[OF create(3)] by (intro lock_invI) (auto split: if_splits)
next
  case (mark s p whole)
  obtain b where own: "lockfile s = Some (p, b)"
    using lock_invD(1)[OF mark(2), of p] mark(1) by auto
  have none: "phase s q \<noteq> Inside" for q
    using sole_holder[OF mark(2) own, of q] mark(1) by auto
  have "p \<notin> fst ` set (history s)" using lock_invD(5)[OF mark(2), of p] mark(1) by auto
  then show ?case
    using none sole_holder[OF mark(2) own] own lock_invD(3,4,5)[OF mark(2)]
    by (intro lock_invI) (auto split: if_splits)
next
  case (read s p)
  have "shared s = fold (cut_run body) (history s) init"
    using lock_invD(3)[OF read(3)] sole_inside[OF read(3,1)] read(2) by blast
  then show ?case
    using lock_invD(1,4,5)[OF read(3)] sole_inside[OF read(3,1)] by (intro lock_invI) (auto split: if_splits)
next
  case (modify s p f k)
  note inv = modify(4) and sole = sole_inside[OF modify(4,1)]
  have f: "f = fold (cut_run body) (history s) init" using lock_invD(2)[OF inv modify(1,2)] by simp
  let ?t = "s\<lparr>shared := body p f ! k, view := (view s)(p \<mapsto> (f, Suc k))\<rparr>"
  show ?case
  proof (rule lock_invI)
    show "\<exists>b. lockfile ?t = Some (q, b)" if "holding (phase ?t q)" for q
      using lock_invD(1)[OF inv, of q] that by simp
    show "g = fold (cut_run body) (history ?t) init \<and> shared ?t = cut_run body (q, j) g"
      if "phase ?t q = Inside" "view ?t q = Some (g, j)" for q g j
      using that sole[of q] cut_run_Suc[of k body p f, OF modify(3)] f by simp
    show "shared ?t = fold (cut_run body) (history ?t) init" if "\<And>q. phase ?t q = Inside \<Longrightarrow> view ?t q = None"
      using that[of p] modify(1) by simp
    show "distinct (map fst (history ?t))" using lock_invD(4)[OF inv] by simp
    show "\<not> before (phase ?t q)" if "q \<in> fst ` set (history ?t)" for q using lock_invD(5)[OF inv, of q] that by simp
  qed
next
  case (unlink s p)
  obtain b where own: "lockfile s = Some (p, b)"
    using lock_invD(1)[OF unlink(2), of p] unlink(1) by auto
  have "lock_inv body init (enter p Returned s)"
    by (rule lock_inv_quit[OF unlink(2)]) (simp_all add: unlink(1))
  moreover have "\<not> holding (phase (enter p Returned s) q)" for q
    using sole_holder[OF unlink(2) own, of q] by auto
  ultimately have "lock_inv body init ((enter p Returned s)\<lparr>lockfile := None\<rparr>)" by (rule lock_inv_unlock)
  moreover have "enter p Returned (s\<lparr>lockfile := None\<rparr>) = (enter p Returned s)\<lparr>lockfile := None\<rparr>"
    by (cases s) (simp add: enter_def)
  ultimately show ?case by simp
next
  case (clean s p b)
  have "\<not> holding (phase s q)" for q
    using sole_holder[OF clean(3,1), of q] clean(2) by auto
  from lock_inv_unlock[OF clean(3) this] show ?case .
qed (auto intro: lock_inv_quit lock_inv_leave)

lemma reachable_inv: "reachable body init s \<Longrightarrow> lock_inv body init s"
proof (induction rule: reachable.induct)
  case (start s)
  then show ?case by (intro lock_invI) auto
next
  case (more s t)
  show ?case by (rule lock_inv_step[OF more(2) more(3)])
qed

lemma reachable_mutex: "reachable body init s \<Longrightarrow> holding (phase s p) \<Longrightarrow> holding (phase s q) \<Longrightarrow> p = q"
  using lock_invD(1)[OF reachable_inv, of body init s p] lock_invD(1)[OF reachable_inv, of body init s q] by auto

lemma reachable_serial:
  assumes "reachable body init s"
  shows "\<exists>r. running s r \<and> shared s = fold (cut_run body) (history s @ r) init \<and> distinct (map fst (history s @ r))"
proof (cases "\<exists>p fk. phase s p = Inside \<and> view s p = Some fk")
  case True
  then obtain p f k where p: "phase s p = Inside" and v: "view s p = Some (f, k)" by auto
  note inv = reachable_inv[OF assms]
  show ?thesis
    using lock_invD(2)[OF inv p v] lock_invD(4)[OF inv] lock_invD(5)[OF inv, of p] p v
    by (intro exI[of _ "[(p, k)]"]) (auto simp: running_def)
next
  case False
  note inv = reachable_inv[OF assms]
  have outside: "view s p = None" if "phase s p = Inside" for p
    using False that by (cases "view s p") auto
  from lock_invD(3)[OF inv this] have "shared s = fold (cut_run body) (history s) init" .
  then show ?thesis
    using lock_invD(4)[OF inv] outside by (intro exI[of _ "[]"]) (simp add: running_def)
qed

text \<open>No stealing: while its creator lives and has not leaked it, only the creator removes a lock.\<close>

lemma no_steal:
  assumes "lstep body s t" "lockfile s = Some (p, b)" "lockfile t = None" "lock_inv body init s"
  shows "phase s p = Unlinking \<or> phase s p \<in> {Dead, Leaked}"
  using assms(1)
proof cases
  case (unlink q)
  with sole_holder[OF assms(4,2), of q] show ?thesis by simp
qed (use assms in \<open>auto split: if_splits option.splits\<close>)

section \<open>Runs of one process\<close>

lemma run_inside:
  assumes "reachable body init s" "lockfile s = None" "phase s p = Waiting"
  shows "k \<le> length (body p (shared s)) \<Longrightarrow> \<exists>t. reachable body init t \<and> phase t = (phase s)(p := Inside) \<and>
     lockfile t = Some (p, True) \<and> view t p = Some (shared s, k) \<and> shared t = cut_run body (p, k) (shared s) \<and>
     history t = history s"
proof (induction k)
  case 0
  let ?s1 = "enter p Created (s\<lparr>lockfile := Some (p, False)\<rparr>)"
  have r1: "reachable body init ?s1" by (rule reachable.more[OF assms(1) lstep.create[OF assms(3,2)]])
  let ?s2 = "enter p Inside (?s1\<lparr>lockfile := (case lockfile ?s1 of
        Some (q, b) \<Rightarrow> if q = p then Some (p, True) else Some (q, b) | None \<Rightarrow> None), view := (view ?s1)(p := None)\<rparr>)"
  have r2: "reachable body init ?s2" by (rule reachable.more[OF r1 lstep.mark]) simp
  let ?s3 = "?s2\<lparr>view := (view ?s2)(p \<mapsto> (shared ?s2, 0))\<rparr>"
  have "reachable body init ?s3" by (rule reachable.more[OF r2 lstep.read]) simp_all
  then show ?case by (intro exI[of _ ?s3]) (simp add: enter_def fun_eq_iff)
next
  case (Suc k)
  from Suc.IH[OF Suc_leD[OF Suc.prems]] obtain t where t: "reachable body init t" "phase t = (phase s)(p := Inside)"
    "lockfile t = Some (p, True)" "view t p = Some (shared s, k)" "history t = history s"
    by (elim exE conjE) (rule that; assumption)
  let ?t = "t\<lparr>shared := body p (shared s) ! k, view := (view t)(p \<mapsto> (shared s, Suc k))\<rparr>"
  have "reachable body init ?t"
    by (rule reachable.more[OF t(1) lstep.modify[OF _ t(4)]]) (use t(2) Suc.prems in simp_all)
  moreover have "shared ?t = cut_run body (p, Suc k) (shared s)"
    using cut_run_Suc[of k body p "shared s"] Suc.prems by simp
  ultimately show ?case using t by (intro exI[of _ ?t]) simp
qed

lemma run_unlinking:
  assumes "reachable body init s" "lockfile s = None" "phase s p = Waiting"
  shows "\<exists>t. reachable body init t \<and> phase t = (phase s)(p := Unlinking) \<and> lockfile t = Some (p, True) \<and>
     shared t = cut_run body (p, length (body p (shared s))) (shared s) \<and>
     history t = history s @ [(p, length (body p (shared s)))]"
proof -
  obtain t where t: "reachable body init t" "phase t = (phase s)(p := Inside)" "lockfile t = Some (p, True)"
    "view t p = Some (shared s, length (body p (shared s)))" "history t = history s"
    and sh: "shared t = cut_run body (p, length (body p (shared s))) (shared s)"
    using run_inside[where body = body and k = "length (body p (shared s))", OF assms] by auto
  let ?t1 = "enter p Releasing (ended p t)"
  have r1: "reachable body init ?t1"
    by (rule reachable.more[OF t(1) lstep.finish[where body = body and f = "shared s"]]) (simp_all add: t(2,4))
  have "reachable body init (enter p Unlinking ?t1)"
    by (rule reachable.more[OF r1 lstep.release]) (simp_all add: readHolder_def t(3))
  then show ?thesis
    using t sh by (intro exI[of _ "enter p Unlinking ?t1"]) (simp add: enter_def ended_def)
qed

lemma run_through:
  assumes "reachable body init s" "lockfile s = None" "phase s p = Waiting"
  shows "\<exists>t. reachable body init t \<and> phase t = (phase s)(p := Returned) \<and> lockfile t = None \<and>
     shared t = cut_run body (p, length (body p (shared s))) (shared s) \<and>
     history t = history s @ [(p, length (body p (shared s)))]"
proof -
  from run_unlinking[OF assms] obtain t where t: "reachable body init t" "phase t = (phase s)(p := Unlinking)"
    and rest: "shared t = cut_run body (p, length (body p (shared s))) (shared s)"
    "history t = history s @ [(p, length (body p (shared s)))]"
    by auto
  let ?t = "enter p Returned (t\<lparr>lockfile := None\<rparr>)"
  have "reachable body init ?t" by (rule reachable.more[OF t(1) lstep.unlink]) (simp add: t(2))
  then show ?thesis using t rest by (intro exI[of _ ?t]) (simp add: enter_def)
qed

lemma run_dies:
  assumes "reachable body init s" "lockfile s = None" "phase s p = Waiting" and "k \<le> length (body p (shared s))"
  shows "\<exists>t. reachable body init t \<and> phase t = (phase s)(p := Dead) \<and>
     shared t = cut_run body (p, k) (shared s) \<and> history t = history s @ [(p, k)]"
proof -
  from run_inside[where body = body and k = k, OF assms] obtain t where t: "reachable body init t"
    "phase t = (phase s)(p := Inside)" "view t p = Some (shared s, k)" "history t = history s"
    and sh: "shared t = cut_run body (p, k) (shared s)" by auto
  have "reachable body init (enter p Dead (ended p t))" by (rule reachable.more[OF t(1) lstep.die])
  then show ?thesis
    using t sh by (intro exI[of _ "enter p Dead (ended p t)"]) (simp add: enter_def ended_def)
qed

lemma idle_reachable:
  "reachable body init \<lparr>lockfile = None, phase = (\<lambda>_. Waiting), shared = init, view = (\<lambda>_. None), history = []\<rparr>"
  by (rule reachable.start) simp_all

section \<open>Concurrent writers of the event store\<close>

text \<open>Every process submits one command; the protected file is the store. \<open>cuts\<close> says which short writes of
  its lines can be seen before they are all there.\<close>

definition writer :: "host \<Rightarrow> ('p \<Rightarrow> cut list) \<Rightarrow> ('p \<Rightarrow> command) \<Rightarrow> 'p \<Rightarrow> store \<Rightarrow> store list" where
  "writer h cuts co p st = append_steps h (cuts p) (co p) st"

text \<open>A log that another one extends by the events of whole commands.\<close>

definition whole_commands :: "('p \<Rightarrow> command) \<Rightarrow> track_event list \<Rightarrow> track_event list \<Rightarrow> bool" where
  "whole_commands co es es' \<longleftrightarrow>
     (\<exists>ps evss. list_all2 (\<lambda>p evs. list_all2 frames (co_inputs (co p)) evs) ps evss \<and>
        es' = es @ concat (map (map persisted) evss))"

definition log_lines :: "store \<Rightarrow> line list" where
  "log_lines st = (case log_file st of None \<Rightarrow> [] | Some ls \<Rightarrow> ls)"

lemma whole_commands_refl [simp]: "whole_commands co es es"
  unfolding whole_commands_def by (intro exI[of _ "[]"]) simp

lemma whole_commands_snoc:
  assumes "whole_commands co es es'" "list_all2 frames (co_inputs (co p)) evs"
  shows "whole_commands co es (es' @ map persisted evs)"
proof -
  from assms(1) obtain ps evss where "list_all2 (\<lambda>p evs. list_all2 frames (co_inputs (co p)) evs) ps evss"
    "es' = es @ concat (map (map persisted) evss)" by (auto simp: whole_commands_def)
  with assms(2) show ?thesis
    unfolding whole_commands_def by (intro exI[of _ "ps @ [p]"] exI[of _ "evss @ [evs]"]) (simp add: list_all2_appendI)
qed

lemma merge_blank [simp]: "merge_line l BlankLine = l"
  by (cases l) simp_all

text \<open>The lines a store had, all but what follows its last newline, stay.\<close>

lemma append_text_keeps: "prefix (butlast old) (butlast (append_text old new))"
proof (cases "old = [] \<or> new = []")
  case False
  then show ?thesis by (simp add: append_text_def butlast_append)
qed (auto simp: append_text_def)

lemma writer_keeps_lines: "st' \<in> set (writer h cuts co p st) \<Longrightarrow> prefix (butlast (log_lines st)) (butlast (log_lines st'))"
  unfolding writer_def
  by (erule append_steps_cases)
    (auto simp add: log_lines_def cut_append_def appendAtomic_def writeHead_def honest_def append_text_keeps)

lemma writer_refused: "\<not> verified h st \<Longrightarrow> writer h cuts co p st = []"
  using planAppend_verified[of h "co_hooks (co p)" "co_cmdId (co p)" "co_inputs (co p)" st]
  by (auto simp: writer_def append_steps_def Let_def split: sum.split)

lemma writer_whole:
  assumes "st' \<in> set (writer h cuts co p st)" "verified h st" "verified h st'" "wf_command (co p)"
  shows "events_of st' = events_of st \<or>
    (\<exists>evs. list_all2 frames (co_inputs (co p)) evs \<and> events_of st' = events_of st @ map persisted evs)"
proof -
  let ?c = "co p"
  from assms(1) obtain es evs where ne: "co_inputs ?c \<noteq> []"
    and plan: "planAppend h (co_hooks ?c) (co_cmdId ?c) (co_inputs ?c) st = Inr (ToAppend es evs)"
    and st': "(\<exists>k. st' = cut_append k evs st) \<or> st' = appendAtomic honest evs st \<or>
      (\<exists>hh. st' = writeHead honest hh (appendAtomic honest evs st))"
    unfolding writer_def by (rule append_steps_cases)
  note p = planAppend_ToAppend[OF plan]
  have es: "events_of st = es" by (simp add: events_of_def p(1))
  have ev: "evs \<noteq> []" using p(4) ne by auto
  have wf: "\<forall>i \<in> set (co_inputs ?c). wf_input i" using assms(4) by (simp add: wf_command_def)
  obtain es' where rd: "readAll st' = Inr es'" using assms(3) by (auto simp: verified_def)
  then have ev': "events_of st' = es'" by (simp add: events_of_def)
  show ?thesis
  proof (cases "ends_line st")
    case True
    then have sound: "sound h st" using assms(2) by (simp add: sound_def)
    from st' consider k where "st' = cut_append k evs st" | "readAll st' = readAll (appendAtomic honest evs st)" by auto
    then show ?thesis
    proof cases
      case (1 k)
      have ref: "\<not> refuses h st'" by (simp add: refuses_iff assms(3))
      show ?thesis
        using crash_cases[OF sound ne wf plan, of k] ref p(4) unfolding es 1
        by (cases k) (auto split: if_splits)
    next
      case 2
      then show ?thesis using rd ev' es readAll_append[OF p(1) True] p(4) by auto
    qed
  next
    case False
    from append_unended[OF p(1) False ev] rd st' obtain k where k: "st' = cut_append k evs st" by auto
    let ?new = "cut_text k (map (\<lambda>e. EventLine (persisted e)) evs)"
    have new: "?new \<noteq> []" by (cases k) auto
    have "hd ?new = BlankLine"
    proof (rule ccontr)
      assume "hd ?new \<noteq> BlankLine"
      from append_text_unended[OF p(1) False new this, of st'] rd show False by (auto simp: k cut_append_def)
    qed
    then have "k = Whole 0"
      using ev by (cases k; cases evs) (auto simp: take_Cons' split: if_splits)
    have "log_file st' = log_file st"
      using False by (auto simp: k \<open>k = Whole 0\<close> cut_append_def append_text_def ends_line_def split: option.splits)
    then have "es' = es" using rd p(1) by (simp add: readAll_def)
    then show ?thesis by (simp add: ev' es)
  qed
qed

lemma cut_run_mem: "cut_run body pk f = f \<or> cut_run body pk f \<in> set (body (fst pk) f)"
proof -
  have "cut_run body pk f \<in> set (f # take (snd pk) (body (fst pk) f))"
    unfolding cut_run_def by (rule last_in_set) simp
  then show ?thesis by (auto dest: in_set_takeD)
qed

lemma writers_keep_lines:
  "prefix (butlast (log_lines f)) (butlast (log_lines (fold (cut_run (writer h cuts co)) hs f)))"
proof (induction hs arbitrary: f)
  case (Cons pk hs)
  have "prefix (butlast (log_lines f)) (butlast (log_lines (cut_run (writer h cuts co) pk f)))"
    using cut_run_mem[of "writer h cuts co" pk f] writer_keeps_lines[of _ h cuts co "fst pk" f] by auto
  with Cons[of "cut_run (writer h cuts co) pk f"] show ?case by (auto intro: prefix_order.trans)
qed simp

lemma writers_whole:
  assumes "\<forall>p. wf_command (co p)"
  shows "refuses h f \<or> verified h f \<and> whole_commands co es (events_of f) \<Longrightarrow>
    refuses h (fold (cut_run (writer h cuts co)) hs f) \<or>
    verified h (fold (cut_run (writer h cuts co)) hs f) \<and>
      whole_commands co es (events_of (fold (cut_run (writer h cuts co)) hs f))"
proof (induction hs arbitrary: f)
  case (Cons pk hs)
  let ?g = "cut_run (writer h cuts co) pk f"
  have "refuses h ?g \<or> verified h ?g \<and> whole_commands co es (events_of ?g)"
  proof (cases "verified h f \<and> verified h ?g \<and> ?g \<noteq> f")
    case True
    then have "?g \<in> set (writer h cuts co (fst pk) f)" using cut_run_mem[of "writer h cuts co" pk f] by simp
    from writer_whole[OF this] True assms Cons.prems show ?thesis
      by (auto simp: refuses_iff intro: whole_commands_snoc)
  next
    case False
    have "?g = f" if "\<not> verified h f"
      using writer_refused[OF that, of cuts co "fst pk"] by (simp add: cut_run_def)
    with False Cons.prems show ?thesis by (auto simp: refuses_iff)
  qed
  from Cons.IH[OF this] show ?case by simp
qed simp

text \<open>The processes that did all of their writes before the first one that did not ran as one after the other.\<close>

lemma intact_fold:
  "\<exists>rest. fold (cut_run body) hs f = fold (cut_run body) rest (fold (\<lambda>p f. last (f # body p f)) (intact body f hs) f) \<and>
     (length (intact body f hs) = length hs \<longrightarrow> rest = [])"
proof (induction hs arbitrary: f)
  case (Cons pk hs)
  obtain p k where pk: "pk = (p, k)" by (cases pk)
  show ?case
  proof (cases "k < length (body p f)")
    case True
    then show ?thesis by (intro exI[of _ "(p, k) # hs"]) (simp add: pk)
  next
    case False
    then have "cut_run body (p, k) f = last (f # body p f)" by (simp add: cut_run_def)
    with Cons[of "cut_run body (p, k) f"] False show ?thesis by (simp add: pk)
  qed
qed simp

lemma writers_base: "fold (\<lambda>p f. last (f # writer h cuts co p f)) ps st = event_store.run h (map co ps) st"
  by (induction ps arbitrary: st) (simp_all add: event_store.run_def writer_def append_steps_last del: last.simps)

lemma concurrent_sound:
  assumes "sound h st" "\<forall>p. wf_command (co p)" and run: "f = fold (cut_run (writer h cuts co)) hs st"
  defines "ps \<equiv> intact (writer h cuts co) st hs"
  defines "base \<equiv> event_store.run h (map co ps) st"
  shows "sound h base" "prefix (events_of st) (events_of base)" "prefix (butlast (log_lines base)) (log_lines f)"
    "refuses h f \<or> verified h f \<and> whole_commands co (events_of base) (events_of f)"
    "length ps = length hs \<Longrightarrow> f = base"
proof -
  show base: "sound h base" "prefix (events_of st) (events_of base)"
    using event_store.run_keeps[OF assms(1), of "map co ps"] assms(2) by (simp_all add: base_def)
  obtain rest where rest: "f = fold (cut_run (writer h cuts co)) rest base" "length ps = length hs \<longrightarrow> rest = []"
    using intact_fold[of "writer h cuts co" hs st] unfolding run base_def ps_def writers_base by blast
  show "refuses h f \<or> verified h f \<and> whole_commands co (events_of base) (events_of f)"
    unfolding rest(1) by (rule writers_whole[OF assms(2)]) (simp add: soundD(1)[OF base(1)])
  show "prefix (butlast (log_lines base)) (log_lines f)"
    using prefix_order.trans[OF writers_keep_lines prefixeq_butlast] unfolding rest(1) .
  show "f = base" if "length ps = length hs" using rest that by simp
qed

section \<open>Properties\<close>

text \<open>C10. Mutual exclusion: in every reachable state of any number of processes, whatever they do, die
  or fail to write, at most one is between the creation and the removal of the lock file.\<close>

theorem lock_mutual_exclusion:
  assumes "reachable body init s" and "holding (phase s p)" "holding (phase s q)"
  shows "p = q"
  by (rule reachable_mutex[OF assms])

text \<open>Two writes of every process, of which the first process has done one.\<close>

definition two_writes :: "nat \<Rightarrow> nat \<Rightarrow> nat list" where
  "two_writes p f = [f + p, f + 2 * p]"

lemma half_way: "\<exists>s. reachable two_writes 0 s \<and> phase s 1 = Inside \<and> shared s = 1 \<and> view s 1 = Some (0, 1)"
  using run_inside[where body = two_writes and init = 0 and p = 1 and k = 1, OF idle_reachable] by (auto simp: two_writes_def cut_run_def)

theorem lock_mutual_exclusion_witness:
  "\<exists>s :: (nat, nat) system. phase s 1 = Inside \<and> {q. holding (phase s q)} = {1}"
proof -
  from half_way obtain s where s: "reachable two_writes 0 s" "phase s 1 = Inside" by blast
  then have "{q. holding (phase s q)} = {1}"
    by (auto intro: lock_mutual_exclusion[OF s(1)])
  with s show ?thesis by blast
qed

text \<open>C11. No lost update: in every reachable state the protected file is the initial one transformed by
  the critical sections one after the other, in the order in which they ended, each as far as it
  came, those of processes that died or failed between two writes included, and by the writes so far of
  the one that is running; no process runs more than once.\<close>

theorem lock_serialises:
  assumes "reachable body init s"
  shows "\<exists>r. running s r \<and> shared s = fold (cut_run body) (history s @ r) init \<and> distinct (map fst (history s @ r))"
  by (rule reachable_serial[OF assms])

theorem lock_serialises_witness:
  "\<exists>s r. phase s 1 = Inside \<and> shared s = 1 \<and> running s r \<and> shared s = fold (cut_run two_writes) (history s @ r) 0 \<and>
     distinct (map fst (history s @ r))"
proof -
  from half_way obtain s where s: "reachable two_writes 0 s" "phase s 1 = Inside" "shared s = 1" by blast
  from lock_serialises[OF s(1)] s(2,3) show ?thesis by blast
qed

text \<open>C12. A lock is never stolen: while a writer that created the lock file is alive and has not lost it
  to a failed write or removal of its record, no step of any process but its own release removes the file.\<close>

theorem lock_never_stolen:
  assumes "reachable body init s" and "lstep body s t"
    and "lockfile s = Some (p, b)" and "phase s p \<notin> {Dead, Leaked}" and "lockfile t = None"
  shows "phase s p = Unlinking"
  using no_steal[OF assms(2,3,5) reachable_inv[OF assms(1)]] assms(4) by simp

theorem lock_never_stolen_witness:
  "\<exists>s t. lockfile s = Some (1, True) \<and> phase s 1 = Unlinking \<and> lstep two_writes s t \<and> lockfile t = None"
proof -
  from run_unlinking[where body = two_writes and init = 0 and p = 1, OF idle_reachable] obtain s where s: "reachable two_writes 0 s"
    "phase s 1 = Unlinking" "lockfile s = Some (1, True)" by auto
  let ?t = "enter 1 Returned (s\<lparr>lockfile := None\<rparr>)"
  have st: "lstep two_writes s ?t" by (rule lstep.unlink[OF s(2)])
  have "phase s 1 = Unlinking"
    by (rule lock_never_stolen[OF s(1) st s(3)]) (simp_all add: s(2) del: One_nat_def)
  with st s(3) show ?thesis by (intro exI[of _ s] exI[of _ ?t]) simp
qed

text \<open>C13. Concurrent writers are safe, crashes included: let any number of processes submit well-formed
  commands to one store under the lock, interleaved in any way, on a disk that writes what it is asked
  but where any of them may die between or inside its writes. The commands of the processes that did all their writes before the
  first one that did not leave a sound store, the one that a single process would have produced with
  them in order, whose log extends the initial one; every line of that log is still
  there; and the store either refuses every further command or still holds a valid log that
  extends it by the events of whole commands. When no process was cut off and none is in between, it is
  that store.\<close>

theorem concurrent_writers_sound:
  assumes "reachable (writer h cuts co) st s" "sound h st" "\<forall>p. wf_command (co p)"
  shows "\<exists>r. running s r \<and>
    (let ps = intact (writer h cuts co) st (history s @ r);
         base = fold (\<lambda>p st. snd (submit h (co p) st)) ps st in
     sound h base \<and> prefix (events_of st) (events_of base) \<and> prefix (butlast (log_lines base)) (log_lines (shared s)) \<and>
     (refuses h (shared s) \<or>
      verified h (shared s) \<and> whole_commands co (events_of base) (events_of (shared s))) \<and>
     (length ps = length (history s @ r) \<longrightarrow> shared s = base))"
proof -
  from reachable_serial[OF assms(1)] obtain r where r: "running s r"
    and run: "shared s = fold (cut_run (writer h cuts co)) (history s @ r) st" by blast
  have "event_store.run h (map co ps) st = fold (\<lambda>p st. snd (submit h (co p) st)) ps st" for ps
    by (simp add: event_store.run_def fold_map comp_def)
  with concurrent_sound[OF assms(2,3) run] r show ?thesis by (intro exI[of _ r]) (simp add: Let_def)
qed

text \<open>Process 1 appends its command, process 2 dies in the middle of the line of its own.\<close>

definition two_commands :: "nat \<Rightarrow> command" where
  "two_commands p = \<lparr>co_hooks = no_hooks, co_cmdId = None, co_inputs = [if p = 1 then sample_input ''01'' else sample_second]\<rparr>"

definition torn_second :: "nat \<Rightarrow> cut list" where
  "torn_second p = (if p = 2 then [Torn 0] else [])"

lemma torn_run:
  "\<exists>s st. reachable (writer h torn_second two_commands) empty_store s \<and> history s = [(1, 2), (2, 1)] \<and>
     (\<forall>p. phase s p \<noteq> Inside) \<and> phase s 2 = Dead \<and> st = snd (submit h (two_commands 1) empty_store) \<and>
     length (events_of st) = 1 \<and> intact (writer h torn_second two_commands) empty_store (history s) = [1]"
proof -
  let ?w = "writer h torn_second two_commands"
  from second_plan[of h] obtain e st evs
    where run: "appendCommand h honest no_hooks None [sample_input ''01''] empty_store = (Inr [e], st)"
    and plan1: "planAppend h no_hooks None [sample_input ''01''] empty_store = Inr (ToAppend [] [e])"
    and st: "events_of st = [persisted e]"
    and plan2: "planAppend h no_hooks None [sample_second] st = Inr (ToAppend [persisted e] evs)"
    by (elim exE conjE) (rule that; assumption)
  have sub: "submit h (two_commands 1) empty_store = (Inr [e], st)" by (simp add: submit_def two_commands_def run)
  have len1: "length (?w 1 empty_store) = 2"
    by (simp add: writer_def append_steps_def two_commands_def torn_second_def plan1)
  have len2: "length (?w 2 st) = 3"
    by (simp add: writer_def append_steps_def two_commands_def torn_second_def plan2)
  have one: "cut_run ?w (1, 2) empty_store = st"
    using append_steps_last[of empty_store h "torn_second 1" "two_commands 1"] len1 sub
    by (simp add: cut_run_def writer_def del: last.simps)
  have "\<exists>t. reachable ?w empty_store t \<and> phase t = (\<lambda>_. Waiting)(1 := Returned) \<and> lockfile t = None \<and>
      shared t = cut_run ?w (1, 2) empty_store \<and> history t = [(1, 2)]"
    using run_through[where body = ?w and init = empty_store and p = 1, OF idle_reachable]
    by (simp add: len1 del: One_nat_def)
  then obtain s1 where s1: "reachable ?w empty_store s1" "phase s1 = (\<lambda>_. Waiting)(1 := Returned)" "lockfile s1 = None"
    "shared s1 = cut_run ?w (1, 2) empty_store" "history s1 = [(1, 2)]"
    by (elim exE conjE) (rule that; assumption)
  have "phase s1 2 = Waiting" "1 \<le> length (?w 2 (shared s1))" using s1(2,4) one len2 by simp_all
  from run_dies[OF s1(1,3) this] obtain s2 where s2: "reachable ?w empty_store s2" "phase s2 = (phase s1)(2 := Dead)"
    "history s2 = [(1, 2), (2, 1)]" by (auto simp: s1(5))
  have "intact ?w empty_store (history s2) = [1]" by (simp add: s2(3) len1 one len2 del: One_nat_def)
  with s1(2) s2 st sub show ?thesis by (intro exI[of _ s2] exI[of _ st]) (simp del: One_nat_def)
qed

theorem concurrent_writers_sound_witness:
  "\<exists>(s :: (nat, store) system) st. history s = [(1, 2), (2, 1)] \<and> phase s 2 = Dead \<and> st = snd (submit unary_host (two_commands 1) empty_store) \<and>
     length (events_of st) = 1 \<and> sound unary_host st \<and> prefix (butlast (log_lines st)) (log_lines (shared s)) \<and>
     (refuses unary_host (shared s) \<or>
      verified unary_host (shared s) \<and> whole_commands two_commands (events_of st) (events_of (shared s)))"
proof -
  let ?w = "writer unary_host torn_second two_commands"
  from torn_run[of unary_host] obtain s st where s: "reachable ?w empty_store s" "history s = [(1, 2), (2, 1)]"
    "phase s 2 = Dead" "st = snd (submit unary_host (two_commands 1) empty_store)" "length (events_of st) = 1"
    and out: "\<forall>p. phase s p \<noteq> Inside" and intact: "intact ?w empty_store (history s) = [1]"
    by (elim exE conjE) (rule that; assumption)
  have wf: "\<forall>p. wf_command (two_commands p)"
    by (simp add: wf_command_def two_commands_def sample_input_wf sample_second_wf)
  from concurrent_writers_sound[OF s(1) empty_sound wf] obtain r where r: "running s r"
    and safe: "let ps = intact ?w empty_store (history s @ r); base = fold (\<lambda>p st. snd (submit unary_host (two_commands p) st)) ps empty_store in
     sound unary_host base \<and> prefix (events_of empty_store) (events_of base) \<and> prefix (butlast (log_lines base)) (log_lines (shared s)) \<and>
     (refuses unary_host (shared s) \<or>
      verified unary_host (shared s) \<and> whole_commands two_commands (events_of base) (events_of (shared s))) \<and>
     (length ps = length (history s @ r) \<longrightarrow> shared s = base)"
    by (elim exE conjE) (rule that; assumption)
  have "r = []" using r out by (cases r; cases "tl r") (auto simp: running_def)
  with safe have "sound unary_host st \<and> prefix (butlast (log_lines st)) (log_lines (shared s)) \<and>
     (refuses unary_host (shared s) \<or>
      verified unary_host (shared s) \<and> whole_commands two_commands (events_of st) (events_of (shared s)))"
    by (simp add: Let_def intact s(4) del: One_nat_def)
  with s(2-5) show ?thesis by blast
qed

end
