(* ===== verification/Lifecycle.thy ===== *)
theory Lifecycle
  imports Prelude
begin

text \<open>
  The interface of a status machine given as a table of allowed next states, as the specification,
  realization, outcome and demand machines of \<open>packages/track/src/model\<close> are: what a closed state
  guarantees, and what a machine whose transitions climb a rank guarantees.
\<close>

inductive leads_to :: "('s \<Rightarrow> 's list) \<Rightarrow> 's \<Rightarrow> 's \<Rightarrow> bool" for nexts where
  stay: "leads_to nexts s s"
| step: "leads_to nexts s t \<Longrightarrow> u \<in> set (nexts t) \<Longrightarrow> leads_to nexts s u"

inductive_cases leads_toE: "leads_to nexts s t"

lemma leads_to_trans: "leads_to nexts t u \<Longrightarrow> leads_to nexts s t \<Longrightarrow> leads_to nexts s u"
  by (induction rule: leads_to.induct) (auto intro: leads_to.intros)

locale lifecycle =
  fixes nexts :: "'s \<Rightarrow> 's list"
    and closed :: "'s \<Rightarrow> bool"
  assumes closed_empty: "closed s \<Longrightarrow> nexts s = []"
begin

lemma closed_absorbing: "leads_to nexts s t \<Longrightarrow> closed s \<Longrightarrow> t = s"
  by (induction rule: leads_to.induct) (auto simp: closed_empty)

lemma closed_refuses: "closed s \<Longrightarrow> t \<notin> set (nexts s)"
  by (simp add: closed_empty)

end

locale ranked_lifecycle = lifecycle nexts closed for nexts :: "'s \<Rightarrow> 's list" and closed +
  fixes rank :: "'s \<Rightarrow> nat"
  assumes climbs: "t \<in> set (nexts s) \<Longrightarrow> rank s < rank t"
begin

lemma leads_to_rank: "leads_to nexts s t \<Longrightarrow> t = s \<or> rank s < rank t"
  by (induction rule: leads_to.induct) (auto dest: climbs)

lemma never_returns: "leads_to nexts s t \<Longrightarrow> leads_to nexts t s \<Longrightarrow> s = t"
  using leads_to_rank[of s t] leads_to_rank[of t s] by auto

end

end
