(* ===== verification/Item.thy ===== *)
theory Item
  imports Codec Lifecycle
begin

text \<open>
  \<open>packages/track/src/model/item.ts\<close>: the item record and its value types, the role-nesting
  rule, the specification and realization machines, and the fail-closed validators of links,
  scopes and reopenings. Validators read an untyped value and return the normalised record.
\<close>

section \<open>Value types\<close>

datatype item_kind = KFeature | KBug | KChore | KDecision | KDefect

datatype item_role = Workpackage | SpecPhase | Stream

datatype spec_status = ToSpecify | Specified

text \<open>\<open>SpecStatus | 'n/a'\<close>.\<close>

datatype spec_axis = Axis spec_status | NotApplicable

datatype realization = ToDo | InProgress | Done | Cancelled | Rejected

datatype gate = Orientation | Commitment

datatype disposition = DRequired | DSkipped | DNotApplicable | DCompleted

datatype reopen_motive = ClosedWithoutOwnerUat | RegressionObserved

record scope_decl =
  allowed :: "string list option"
  forbidden :: "string list option"
  conditional :: "string list option"

record link =
  link_kind :: string
  link_locator :: string
  link_reason :: "string option"

record reopen_record =
  reopen_from :: realization
  reopen_motive :: reopen_motive
  reopen_reason :: string
  reopen_at :: string
  reopen_by :: actor_id

definition item_kinds :: "(string \<times> item_kind) list" where
  "item_kinds = [(''feature'', KFeature), (''bug'', KBug), (''chore'', KChore), (''decision'', KDecision),
     (''defect'', KDefect)]"

fun item_kind_js :: "item_kind \<Rightarrow> js" where
  "item_kind_js KFeature = Str ''feature''"
| "item_kind_js KBug = Str ''bug''"
| "item_kind_js KChore = Str ''chore''"
| "item_kind_js KDecision = Str ''decision''"
| "item_kind_js KDefect = Str ''defect''"

definition item_roles :: "(string \<times> item_role) list" where
  "item_roles = [(''workpackage'', Workpackage), (''spec-phase'', SpecPhase), (''stream'', Stream)]"

fun item_role_js :: "item_role \<Rightarrow> js" where
  "item_role_js Workpackage = Str ''workpackage''"
| "item_role_js SpecPhase = Str ''spec-phase''"
| "item_role_js Stream = Str ''stream''"

definition spec_statuses :: "(string \<times> spec_status) list" where
  "spec_statuses = [(''to-specify'', ToSpecify), (''specified'', Specified)]"

fun spec_status_js :: "spec_status \<Rightarrow> js" where
  "spec_status_js ToSpecify = Str ''to-specify''"
| "spec_status_js Specified = Str ''specified''"

definition realizations :: "(string \<times> realization) list" where
  "realizations = [(''to-do'', ToDo), (''in-progress'', InProgress), (''done'', Done),
     (''cancelled'', Cancelled), (''rejected'', Rejected)]"

fun realization_str :: "realization \<Rightarrow> string" where
  "realization_str ToDo = ''to-do''"
| "realization_str InProgress = ''in-progress''"
| "realization_str Done = ''done''"
| "realization_str Cancelled = ''cancelled''"
| "realization_str Rejected = ''rejected''"

definition realization_js :: "realization \<Rightarrow> js" where
  "realization_js r = Str (realization_str r)"

definition gates :: "(string \<times> gate) list" where
  "gates = [(''orientation'', Orientation), (''commitment'', Commitment)]"

fun gate_js :: "gate \<Rightarrow> js" where
  "gate_js Orientation = Str ''orientation''"
| "gate_js Commitment = Str ''commitment''"

definition dispositions :: "(string \<times> disposition) list" where
  "dispositions = [(''required'', DRequired), (''skipped'', DSkipped), (''not-applicable'', DNotApplicable),
     (''completed'', DCompleted)]"

fun disposition_js :: "disposition \<Rightarrow> js" where
  "disposition_js DRequired = Str ''required''"
| "disposition_js DSkipped = Str ''skipped''"
| "disposition_js DNotApplicable = Str ''not-applicable''"
| "disposition_js DCompleted = Str ''completed''"

definition REOPEN_MOTIVES :: "(string \<times> reopen_motive) list" where
  "REOPEN_MOTIVES = [(''closed-without-owner-uat'', ClosedWithoutOwnerUat),
     (''regression-observed'', RegressionObserved)]"

fun reopen_motive_js :: "reopen_motive \<Rightarrow> js" where
  "reopen_motive_js ClosedWithoutOwnerUat = Str ''closed-without-owner-uat''"
| "reopen_motive_js RegressionObserved = Str ''regression-observed''"

lemma enum_round_trips [simp, codec_simps]:
  shows "enum_of item_kinds (item_kind_js k) = Some k"
    and "enum_of item_roles (item_role_js r) = Some r"
    and "enum_of spec_statuses (spec_status_js s) = Some s"
    and "enum_of realizations (realization_js z) = Some z"
    and "enum_of gates (gate_js g) = Some g"
    and "enum_of dispositions (disposition_js d) = Some d"
    and "enum_of REOPEN_MOTIVES (reopen_motive_js m) = Some m"
  subgoal by (cases k) (simp_all add: enum_of_def item_kinds_def)
  subgoal by (cases r) (simp_all add: enum_of_def item_roles_def)
  subgoal by (cases s) (simp_all add: enum_of_def spec_statuses_def)
  subgoal by (cases z) (simp_all add: enum_of_def realizations_def realization_js_def)
  subgoal by (cases g) (simp_all add: enum_of_def gates_def)
  subgoal by (cases d) (simp_all add: enum_of_def dispositions_def)
  subgoal by (cases m) (simp_all add: enum_of_def REOPEN_MOTIVES_def)
  done

lemma enum_not_Undef [simp]:
  shows "item_kind_js k \<noteq> Undef" and "item_role_js r \<noteq> Undef" and "spec_status_js s \<noteq> Undef"
    and "realization_js z \<noteq> Undef" and "gate_js g \<noteq> Undef" and "disposition_js d \<noteq> Undef"
    and "reopen_motive_js m \<noteq> Undef"
  subgoal by (cases k) simp_all
  subgoal by (cases r) simp_all
  subgoal by (cases s) simp_all
  subgoal by (simp add: realization_js_def)
  subgoal by (cases g) simp_all
  subgoal by (cases d) simp_all
  subgoal by (cases m) simp_all
  done

section \<open>The item\<close>

record item_state =
  item_report :: "js option"
  item_id :: ulid
  item_kind :: item_kind
  item_title :: string
  item_workspace :: string
  item_specStatus :: spec_axis
  item_realization :: realization
  item_disposition :: "gate \<Rightarrow> disposition"
  item_priority :: "js option"
  item_parentId :: "ulid option"
  item_role :: "item_role option"
  item_code :: "string option"
  item_scope :: "scope_decl option"
  item_sourceKey :: "string option"
  item_body :: "string option"
  item_links :: "link list option"
  item_accountable :: "actor_id option"
  item_responsible :: "actor_id list option"
  item_engagementRef :: "string option"
  item_realizedCommit :: "string option"
  item_demandId :: "ulid option"
  item_reopenings :: "reopen_record list option"

definition isRoleContainer :: "item_role option \<Rightarrow> bool" where
  "isRoleContainer r \<longleftrightarrow> r = Some Workpackage \<or> r = Some SpecPhase \<or> r = Some Stream"

section \<open>Payload interfaces\<close>

definition link_js :: "link \<Rightarrow> js" where
  "link_js l = obj [(''kind'', Some (Str (link_kind l))), (''locator'', Some (Str (link_locator l))),
     (''reason'', map_option Str (link_reason l))]"

definition link_of :: "js \<Rightarrow> link option" where
  "link_of v = (if \<not> is_object v then None else do {
     k \<leftarrow> str_of (js_prop v ''kind'');
     l \<leftarrow> str_of (js_prop v ''locator'');
     r \<leftarrow> opt str_of (js_prop v ''reason'');
     Some \<lparr>link_kind = k, link_locator = l, link_reason = r\<rparr> })"

definition scope_js :: "scope_decl \<Rightarrow> js" where
  "scope_js s = obj [(''allowed'', map_option strs (allowed s)), (''forbidden'', map_option strs (forbidden s)),
     (''conditional'', map_option strs (conditional s))]"

definition scope_of :: "js \<Rightarrow> scope_decl option" where
  "scope_of v = (if \<not> is_object v then None else do {
     a \<leftarrow> opt (list_of str_of) (js_prop v ''allowed'');
     f \<leftarrow> opt (list_of str_of) (js_prop v ''forbidden'');
     c \<leftarrow> opt (list_of str_of) (js_prop v ''conditional'');
     Some \<lparr>allowed = a, forbidden = f, conditional = c\<rparr> })"

record item_created_payload =
  icp_kind :: item_kind
  icp_title :: string
  icp_workspace :: string
  icp_parentId :: "ulid option"
  icp_role :: "item_role option"
  icp_scope :: "scope_decl option"
  icp_sourceKey :: "string option"
  icp_body :: "string option"
  icp_links :: "link list option"
  icp_accountable :: "actor_id option"
  icp_responsible :: "actor_id list option"
  icp_engagementRef :: "string option"
  icp_demandId :: "ulid option"

definition links_js :: "link list \<Rightarrow> js" where
  "links_js ls = Arr (map link_js ls)"

definition ItemCreatedPayload_js :: "item_created_payload \<Rightarrow> js" where
  "ItemCreatedPayload_js p = obj [
     (''kind'', Some (item_kind_js (icp_kind p))),
     (''title'', Some (Str (icp_title p))),
     (''workspace'', Some (Str (icp_workspace p))),
     (''parentId'', map_option Str (icp_parentId p)),
     (''role'', map_option item_role_js (icp_role p)),
     (''scope'', map_option scope_js (icp_scope p)),
     (''sourceKey'', map_option Str (icp_sourceKey p)),
     (''body'', map_option Str (icp_body p)),
     (''links'', map_option links_js (icp_links p)),
     (''accountable'', map_option Str (icp_accountable p)),
     (''responsible'', map_option strs (icp_responsible p)),
     (''engagementRef'', map_option Str (icp_engagementRef p)),
     (''demandId'', map_option Str (icp_demandId p))]"

definition ItemCreatedPayload_of :: "js \<Rightarrow> item_created_payload option" where
  "ItemCreatedPayload_of v = do {
     kind \<leftarrow> enum_of item_kinds (js_prop v ''kind'');
     title \<leftarrow> str_of (js_prop v ''title'');
     workspace \<leftarrow> str_of (js_prop v ''workspace'');
     parentId \<leftarrow> opt str_of (js_prop v ''parentId'');
     role \<leftarrow> opt (enum_of item_roles) (js_prop v ''role'');
     scope \<leftarrow> opt scope_of (js_prop v ''scope'');
     sourceKey \<leftarrow> opt str_of (js_prop v ''sourceKey'');
     body \<leftarrow> opt str_of (js_prop v ''body'');
     links \<leftarrow> opt (list_of link_of) (js_prop v ''links'');
     accountable \<leftarrow> opt str_of (js_prop v ''accountable'');
     responsible \<leftarrow> opt (list_of str_of) (js_prop v ''responsible'');
     engagementRef \<leftarrow> opt str_of (js_prop v ''engagementRef'');
     demandId \<leftarrow> opt str_of (js_prop v ''demandId'');
     Some \<lparr>icp_kind = kind, icp_title = title, icp_workspace = workspace, icp_parentId = parentId,
       icp_role = role, icp_scope = scope, icp_sourceKey = sourceKey, icp_body = body, icp_links = links,
       icp_accountable = accountable, icp_responsible = responsible, icp_engagementRef = engagementRef,
       icp_demandId = demandId\<rparr> }"

record item_raci_update =
  raci_accountable :: "actor_id option"
  raci_responsible :: "actor_id list option"

definition ItemRaciUpdate_of :: "js \<Rightarrow> item_raci_update option" where
  "ItemRaciUpdate_of v = do {
     a \<leftarrow> opt str_of (js_prop v ''accountable'');
     r \<leftarrow> opt (list_of str_of) (js_prop v ''responsible'');
     Some \<lparr>raci_accountable = a, raci_responsible = r\<rparr> }"

definition ItemRaciUpdate_js :: "item_raci_update \<Rightarrow> js" where
  "ItemRaciUpdate_js u = obj [(''accountable'', map_option Str (raci_accountable u)),
     (''responsible'', map_option strs (raci_responsible u))]"

record reopen_payload =
  rp_itemId :: ulid
  rp_motive :: reopen_motive
  rp_reason :: string

definition ReopenPayload_js :: "reopen_payload \<Rightarrow> js" where
  "ReopenPayload_js p = obj [(''itemId'', Some (Str (rp_itemId p))),
     (''motive'', Some (reopen_motive_js (rp_motive p))), (''reason'', Some (Str (rp_reason p)))]"

definition ReopenPayload_of :: "js \<Rightarrow> reopen_payload option" where
  "ReopenPayload_of v = do {
     i \<leftarrow> str_of (js_prop v ''itemId'');
     m \<leftarrow> enum_of REOPEN_MOTIVES (js_prop v ''motive'');
     r \<leftarrow> str_of (js_prop v ''reason'');
     Some \<lparr>rp_itemId = i, rp_motive = m, rp_reason = r\<rparr> }"

lemma link_js_not_Undef [simp]: "link_js l \<noteq> Undef" "scope_js s \<noteq> Undef" "links_js ls \<noteq> Undef"
  by (simp_all add: link_js_def scope_js_def links_js_def)

lemma link_round_trip [simp, codec_simps]: "link_of (link_js l) = Some l"
  by (cases l) (simp add: link_js_def link_of_def opt_given)

lemma scope_round_trip [simp, codec_simps]: "scope_of (scope_js s) = Some s"
  by (cases s) (simp add: scope_js_def scope_of_def opt_given)

lemma links_round_trip [simp, codec_simps]: "list_of link_of (links_js ls) = Some ls"
  unfolding links_js_def by (rule list_of_Arr) simp

lemma ItemCreatedPayload_round_trip [simp, codec_simps]:
  "ItemCreatedPayload_of (ItemCreatedPayload_js p) = Some p"
  by (cases p) (simp add: ItemCreatedPayload_js_def ItemCreatedPayload_of_def opt_given)

lemma ItemRaciUpdate_round_trip [simp, codec_simps]: "ItemRaciUpdate_of (ItemRaciUpdate_js u) = Some u"
  by (cases u) (simp add: ItemRaciUpdate_js_def ItemRaciUpdate_of_def opt_given)

lemma ReopenPayload_round_trip [simp, codec_simps]: "ReopenPayload_of (ReopenPayload_js p) = Some p"
  by (cases p) (simp add: ReopenPayload_js_def ReopenPayload_of_def)

section \<open>Role nesting\<close>

definition assertRoleNesting :: "item_role option \<Rightarrow> item_role option \<Rightarrow> error + unit" where
  "assertRoleNesting childRole parentRole =
     (if childRole = Some Workpackage \<and> parentRole \<noteq> Some Workpackage \<and> parentRole \<noteq> Some Stream
      then Inl (DomainError ''a workpackage may only nest under a workpackage or a stream'')
      else if childRole = Some SpecPhase \<and> parentRole \<noteq> Some Workpackage \<and> parentRole \<noteq> Some SpecPhase
      then Inl (DomainError ''a spec-phase may only nest under a workpackage or spec-phase'')
      else if childRole = Some Stream \<and> parentRole \<noteq> Some Stream
      then Inl (DomainError ''a stream may only nest at root or under another stream'')
      else Inr ())"

text \<open>The rule as a table of parent and child.\<close>

fun may_nest :: "item_role option \<Rightarrow> item_role option \<Rightarrow> bool" where
  "may_nest None _ = True"
| "may_nest (Some Workpackage) p = (p \<in> {Some Workpackage, Some Stream})"
| "may_nest (Some SpecPhase) p = (p \<in> {Some Workpackage, Some SpecPhase})"
| "may_nest (Some Stream) p = (p = Some Stream)"

lemma assertRoleNesting_Inr [simp]: "assertRoleNesting c p = Inr u \<longleftrightarrow> may_nest c p"
  by (cases "(c, p)" rule: may_nest.cases) (auto simp: assertRoleNesting_def)

section \<open>Validators\<close>

definition assertItemLink :: "js \<Rightarrow> error + link" where
  "assertItemLink v =
     (if \<not> is_object v then Inl (DomainError ''item.link: the link must be an object'') else
      let kindRaw = js_prop v ''kind''; locatorRaw = js_prop v ''locator'' in
      if \<not> nonBlankString kindRaw
      then Inl (DomainError ''item.link: kind must be a non-empty string'') else
      if \<not> nonBlankString locatorRaw
      then Inl (DomainError ''item.link: locator must be a non-empty string'') else
      let kind = js_trim (js_str kindRaw); reason = js_prop v ''reason'' in
      if kind = ''spec-exempt'' \<and> \<not> nonBlankString reason
      then Inl (DomainError ''item.link: kind spec-exempt requires a non-empty reason'') else
      if reason \<noteq> Undef \<and> \<not> nonBlankString reason
      then Inl (DomainError ''item.link: reason must be a non-empty string'') else
      Inr \<lparr>link_kind = kind, link_locator = js_trim (js_str locatorRaw),
           link_reason = optional (\<lambda>r. js_trim (js_str r)) reason\<rparr>)"

definition scope_list :: "js \<Rightarrow> string \<Rightarrow> error + string list option" where
  "scope_list v key =
     (let x = js_prop v key in
      if x = Undef then Inr None
      else if \<not> isStringArray x then Inl (DomainError (''scope.declare: '' @ key @ '' must be a string[]''))
      else Inr (Some (js_strs x)))"

definition assertScopeDecl :: "js \<Rightarrow> error + scope_decl" where
  "assertScopeDecl v =
     (if \<not> is_object v then Inl (DomainError ''scope.declare: scope must be an object'') else
      bindR (scope_list v ''allowed'') (\<lambda>a.
      bindR (scope_list v ''forbidden'') (\<lambda>f.
      bindR (scope_list v ''conditional'') (\<lambda>c.
      Inr \<lparr>allowed = a, forbidden = f, conditional = c\<rparr>))))"

definition assertReopenPayload :: "js \<Rightarrow> error + (reopen_motive \<times> string)" where
  "assertReopenPayload v =
     (if \<not> is_object v then Inl (DomainError ''item.reopen: the reopening must be an object'') else
      case enum_of REOPEN_MOTIVES (js_prop v ''motive'') of
        None \<Rightarrow> Inl (DomainError ''item.reopen: motive must be one of the declared motives'')
      | Some m \<Rightarrow>
          if \<not> nonBlankString (js_prop v ''reason'')
          then Inl (DomainError ''item.reopen: reason must be a non-empty string'')
          else Inr (m, js_str (js_prop v ''reason'')))"

text \<open>A link in the form the validator records it.\<close>

definition normal_link :: "link \<Rightarrow> bool" where
  "normal_link l \<longleftrightarrow>
     js_trim (link_kind l) = link_kind l \<and> link_kind l \<noteq> [] \<and>
     js_trim (link_locator l) = link_locator l \<and> link_locator l \<noteq> [] \<and>
     (\<forall>r. link_reason l = Some r \<longrightarrow> js_trim r = r \<and> r \<noteq> []) \<and>
     (link_kind l = ''spec-exempt'' \<longrightarrow> link_reason l \<noteq> None)"

lemma assertItemLink_normal: "assertItemLink v = Inr l \<Longrightarrow> normal_link l"
  by (auto simp: assertItemLink_def normal_link_def Let_def nonBlankString_iff optional_def
      split: if_splits)

lemma assertItemLink_fixed:
  assumes "normal_link l" shows "assertItemLink (link_js l) = Inr l"
proof (cases "link_reason l")
  case None
  with assms show ?thesis
    by (cases l) (simp add: assertItemLink_def link_js_def normal_link_def Let_def nonBlankString_def optional_def)
next
  case (Some r)
  with assms show ?thesis
    by (cases l) (simp add: assertItemLink_def link_js_def normal_link_def Let_def nonBlankString_def optional_def)
qed

lemma scope_list_strs [simp]:
  "js_prop v key = given (map_option strs x) Undef \<Longrightarrow> scope_list v key = Inr x"
  by (cases x) (auto simp: scope_list_def Let_def isStringArray_iff)

lemma assertScopeDecl_js [simp]: "assertScopeDecl (scope_js s) = Inr s"
  by (cases s) (simp add: assertScopeDecl_def scope_js_def)

lemma scope_list_Inr: "scope_list v key = Inr x \<longleftrightarrow> opt (list_of str_of) (js_prop v key) = Some x"
proof -
  have str: "list_of str_of w = Some xs \<longleftrightarrow> w = strs xs" for w xs
  proof
    assume "list_of str_of w = Some xs"
    then obtain ys where ys: "w = Arr ys" "those (map str_of ys) = Some xs" by (cases w) auto
    have "ys = map Str xs"
      using ys(2)
    proof (induction ys arbitrary: xs)
      case (Cons y ys)
      then show ?case by (cases y) auto
    qed simp
    with ys show "w = strs xs" by (simp add: strs_def)
  qed simp
  show ?thesis
    by (cases "js_prop v key = Undef")
      (auto simp: scope_list_def opt_def Let_def isStringArray_iff str)
qed

lemma assertScopeDecl_Inr: "assertScopeDecl v = Inr s \<longleftrightarrow> scope_of v = Some s"
  by (auto simp: assertScopeDecl_def scope_of_def bindR_eq_Inr scope_list_Inr bind_eq_Some_conv)

section \<open>The specification and realization machines\<close>

fun SPEC_TRANSITIONS :: "spec_status \<Rightarrow> spec_status list" where
  "SPEC_TRANSITIONS ToSpecify = [Specified]"
| "SPEC_TRANSITIONS Specified = []"

fun REALIZATION_TRANSITIONS :: "realization \<Rightarrow> realization list" where
  "REALIZATION_TRANSITIONS ToDo = [InProgress, Cancelled]"
| "REALIZATION_TRANSITIONS InProgress = [Done, Cancelled]"
| "REALIZATION_TRANSITIONS Done = []"
| "REALIZATION_TRANSITIONS Cancelled = []"
| "REALIZATION_TRANSITIONS Rejected = []"

definition assertSpecTransition :: "item_state \<Rightarrow> spec_status \<Rightarrow> error + unit" where
  "assertSpecTransition item to =
     (case item_specStatus item of
        NotApplicable \<Rightarrow> Inl (DomainError ''spec axis is n/a'')
      | Axis s \<Rightarrow>
          if to \<notin> set (SPEC_TRANSITIONS s) then Inl (DomainError ''illegal spec transition'')
          else Inr ())"

text \<open>The source takes an item or a decision; both have a realization.\<close>

definition assertRealizationTransition :: "realization \<Rightarrow> realization \<Rightarrow> bool \<Rightarrow> error + unit" where
  "assertRealizationTransition current to hasCause =
     (if to = Rejected then
        (if \<not> hasCause then Inl (DomainError ''realization -> rejected requires a decision cause'')
         else if current \<noteq> ToDo \<and> current \<noteq> InProgress
         then Inl (DomainError ''illegal realization transition -> rejected'')
         else Inr ())
      else if to \<notin> set (REALIZATION_TRANSITIONS current)
      then Inl (DomainError ''illegal realization transition'')
      else Inr ())"

definition assertReopenTransition :: "realization \<Rightarrow> error + realization" where
  "assertReopenTransition current =
     (if current = Done \<or> current = Cancelled then Inr current
      else if current = Rejected
      then Inl (DomainError ''item is rejected: revise the decision instead of reopening the item'')
      else Inl (DomainError ''item is not closed: there is no closure to reopen''))"

definition spec_rank :: "spec_status \<Rightarrow> nat" where
  "spec_rank s = (if s = ToSpecify then 0 else 1)"

definition realization_rank :: "realization \<Rightarrow> nat" where
  "realization_rank r = (case r of ToDo \<Rightarrow> 0 | InProgress \<Rightarrow> 1 | _ \<Rightarrow> 2)"

definition realization_closed :: "realization \<Rightarrow> bool" where
  "realization_closed r \<longleftrightarrow> r \<in> {Done, Cancelled, Rejected}"

interpretation spec_axis_machine: ranked_lifecycle SPEC_TRANSITIONS "\<lambda>s. s = Specified" spec_rank
proof unfold_locales
  fix s t
  assume "t \<in> set (SPEC_TRANSITIONS s)"
  then show "spec_rank s < spec_rank t" by (cases s) (auto simp: spec_rank_def)
qed simp

text \<open>Every transition the facade can record without reopening: the table and the rejection.\<close>

definition realize_next :: "realization \<Rightarrow> realization list" where
  "realize_next r = REALIZATION_TRANSITIONS r @ (if r = ToDo \<or> r = InProgress then [Rejected] else [])"

lemma assertRealizationTransition_next:
  "assertRealizationTransition r t cause = Inr u \<Longrightarrow> t \<in> set (realize_next r)"
  by (auto simp: assertRealizationTransition_def realize_next_def split: if_splits)

lemma assertRealizationTransition_Inr:
  "assertRealizationTransition r t cause = Inr u \<longleftrightarrow>
     t \<in> set (realize_next r) \<and> (t = Rejected \<longrightarrow> cause)"
  by (cases r; cases t) (auto simp: assertRealizationTransition_def realize_next_def)

interpretation realization_machine: ranked_lifecycle realize_next realization_closed realization_rank
proof unfold_locales
  fix s t
  assume "t \<in> set (realize_next s)"
  then show "realization_rank s < realization_rank t"
    by (cases s) (auto simp: realize_next_def realization_rank_def)
qed (auto simp: realization_closed_def realize_next_def)

lemma assertReopenTransition_Inr [simp]:
  "assertReopenTransition r = Inr r' \<longleftrightarrow> r' = r \<and> (r = Done \<or> r = Cancelled)"
  by (auto simp: assertReopenTransition_def)

section \<open>Properties\<close>

text \<open>The link validator normalises: what it lets through has trimmed non-empty fields, gives a
  reason whenever it is a \<open>spec-exempt\<close> link, and is let through again unchanged when recorded.\<close>

theorem item_link_normalised:
  assumes "assertItemLink v = Inr l"
  shows "normal_link l \<and> assertItemLink (link_js l) = Inr l"
  using assertItemLink_normal[OF assms] assertItemLink_fixed by simp

theorem item_link_normalised_witness:
  "normal_link \<lparr>link_kind = ''spec-exempt'', link_locator = ''a b'', link_reason = Some ''tiny''\<rparr> \<and>
   assertItemLink (link_js \<lparr>link_kind = ''spec-exempt'', link_locator = ''a b'', link_reason = Some ''tiny''\<rparr>) =
     Inr \<lparr>link_kind = ''spec-exempt'', link_locator = ''a b'', link_reason = Some ''tiny''\<rparr>"
  by (rule item_link_normalised[where v = "obj [(''kind'', Some (Str '' spec-exempt'')),
        (''locator'', Some (Str ''a b '')), (''reason'', Some (Str '' tiny ''))]"])
    (simp add: assertItemLink_def nonBlankString_def js_trim_def js_space_def optional_def)

text \<open>The height of a role in a nesting.\<close>

definition role_rank :: "item_role option \<Rightarrow> nat" where
  "role_rank r = (case r of None \<Rightarrow> 0 | Some SpecPhase \<Rightarrow> 1 | Some Workpackage \<Rightarrow> 2 | Some Stream \<Rightarrow> 3)"

lemma may_nest_rank: "may_nest c p \<Longrightarrow> role_rank c \<le> role_rank p"
  by (cases "(c, p)" rule: may_nest.cases) (auto simp: role_rank_def split: option.split item_role.split)

text \<open>Nesting orders the roles: along any chain of parents the validator accepts, from a child up,
  plain items come below spec-phases, spec-phases below workpackages and workpackages below streams.\<close>

theorem nesting_orders_roles:
  assumes "successively (\<lambda>c p. assertRoleNesting c p = Inr ()) roles"
  shows "sorted (map role_rank roles)"
  using assms
  by (induction roles rule: induct_list012) (auto dest!: may_nest_rank intro: order_trans)

theorem nesting_orders_roles_witness:
  "sorted (map role_rank [None, None, Some SpecPhase, Some Workpackage, Some Stream])"
  by (rule nesting_orders_roles) (simp add: assertRoleNesting_def)

text \<open>The realization machine: a transition is accepted exactly when the table, extended with
  rejection under a decision cause, lists it; closed states accept none; and only a delivered or
  cancelled item can be reopened, a rejected one never.\<close>

theorem realization_machine_spec:
  "(\<exists>u. assertRealizationTransition r t cause = Inr u) = (t \<in> set (realize_next r) \<and> (if t = Rejected then cause else True)) \<and>
   (\<exists>t c u. assertRealizationTransition r t c = Inr u) = (r \<notin> {Done, Cancelled, Rejected}) \<and>
   (\<exists>f. assertReopenTransition r = Inr f) = (r \<in> {Done, Cancelled})"
proof -
  have "(\<exists>t c u. assertRealizationTransition r t c = Inr u) = (r \<notin> {Done, Cancelled, Rejected})"
    by (cases r) (auto simp: assertRealizationTransition_Inr realize_next_def)
  then show ?thesis by (auto simp: assertRealizationTransition_Inr split: if_splits)
qed

end
