(* ===== verification/Decision.thy ===== *)
theory Decision
  imports Item
begin

text \<open>
  \<open>packages/track/src/model/decision.ts\<close>: the decision record, the outcome machine, and the two
  fail-closed validators of the dossier and of its artifacts. The dossier is the untyped value
  that the validators inspect and the state keeps: the sources declare interfaces for it but read
  it through runtime checks.
\<close>

section \<open>The decision\<close>

type_synonym dossier = js

datatype outcome = Pending | Go | NoGo | Deferred

definition outcomes :: "(string \<times> outcome) list" where
  "outcomes = [(''pending'', Pending), (''go'', Go), (''no-go'', NoGo), (''deferred'', Deferred)]"

fun outcome_js :: "outcome \<Rightarrow> js" where
  "outcome_js Pending = Str ''pending''"
| "outcome_js Go = Str ''go''"
| "outcome_js NoGo = Str ''no-go''"
| "outcome_js Deferred = Str ''deferred''"

lemma outcome_round_trip [simp, codec_simps]: "enum_of outcomes (outcome_js z) = Some z"
  by (cases z) (simp_all add: enum_of_def outcomes_def)

lemma outcome_js_not_Undef [simp]: "outcome_js z \<noteq> Undef"
  by (cases z) simp_all

record decision_state =
  dec_id :: ulid
  dec_title :: string
  dec_workspace :: string
  dec_realization :: realization
  dec_decisionKind :: gate
  dec_targets :: "ulid list"
  dec_outcome :: outcome
  dec_dossier :: dossier
  dec_parentId :: "ulid option"
  dec_sourceKey :: "string option"
  dec_body :: "string option"
  dec_links :: "link list option"
  dec_accountable :: "actor_id option"
  dec_engagementRef :: "string option"

record decision_created_payload =
  dcp_decisionKind :: gate
  dcp_title :: string
  dcp_workspace :: string
  dcp_targets :: "ulid list"
  dcp_dossier :: dossier
  dcp_parentId :: "ulid option"
  dcp_sourceKey :: "string option"
  dcp_body :: "string option"
  dcp_links :: "link list option"
  dcp_accountable :: "actor_id option"
  dcp_engagementRef :: "string option"

definition DecisionCreatedPayload_js :: "decision_created_payload \<Rightarrow> js" where
  "DecisionCreatedPayload_js p = obj [
     (''decisionKind'', Some (gate_js (dcp_decisionKind p))),
     (''title'', Some (Str (dcp_title p))),
     (''workspace'', Some (Str (dcp_workspace p))),
     (''targets'', Some (strs (dcp_targets p))),
     (''dossier'', Some (dcp_dossier p)),
     (''parentId'', map_option Str (dcp_parentId p)),
     (''sourceKey'', map_option Str (dcp_sourceKey p)),
     (''body'', map_option Str (dcp_body p)),
     (''links'', map_option links_js (dcp_links p)),
     (''accountable'', map_option Str (dcp_accountable p)),
     (''engagementRef'', map_option Str (dcp_engagementRef p))]"

definition DecisionCreatedPayload_of :: "js \<Rightarrow> decision_created_payload option" where
  "DecisionCreatedPayload_of v = do {
     kind \<leftarrow> enum_of gates (js_prop v ''decisionKind'');
     title \<leftarrow> str_of (js_prop v ''title'');
     workspace \<leftarrow> str_of (js_prop v ''workspace'');
     targets \<leftarrow> list_of str_of (js_prop v ''targets'');
     parentId \<leftarrow> opt str_of (js_prop v ''parentId'');
     sourceKey \<leftarrow> opt str_of (js_prop v ''sourceKey'');
     body \<leftarrow> opt str_of (js_prop v ''body'');
     links \<leftarrow> opt (list_of link_of) (js_prop v ''links'');
     accountable \<leftarrow> opt str_of (js_prop v ''accountable'');
     engagementRef \<leftarrow> opt str_of (js_prop v ''engagementRef'');
     Some \<lparr>dcp_decisionKind = kind, dcp_title = title, dcp_workspace = workspace, dcp_targets = targets,
       dcp_dossier = js_prop v ''dossier'', dcp_parentId = parentId, dcp_sourceKey = sourceKey,
       dcp_body = body, dcp_links = links, dcp_accountable = accountable,
       dcp_engagementRef = engagementRef\<rparr> }"

lemma DecisionCreatedPayload_round_trip [simp, codec_simps]:
  "DecisionCreatedPayload_of (DecisionCreatedPayload_js p) = Some p"
  by (cases p) (simp add: DecisionCreatedPayload_js_def DecisionCreatedPayload_of_def opt_given)

section \<open>The structured dossier\<close>

text \<open>\<open>typeof x === 'object' && x !== null && !Array.isArray(x)\<close> is \<open>is_object\<close>; without the array
  test an array passes and its named properties are undefined.\<close>

definition is_objectish :: "js \<Rightarrow> bool" where
  "is_objectish v \<longleftrightarrow> (case v of Obj _ _ \<Rightarrow> True | Arr _ \<Rightarrow> True | _ \<Rightarrow> False)"

fun js_elems :: "js \<Rightarrow> js list" where
  "js_elems (Arr xs) = xs"
| "js_elems _ = []"

definition isArray :: "js \<Rightarrow> bool" where
  "isArray v \<longleftrightarrow> (case v of Arr _ \<Rightarrow> True | _ \<Rightarrow> False)"

definition assert_option_lists :: "js \<Rightarrow> bool" where
  "assert_option_lists option' =
     list_all (\<lambda>field. let values' = js_prop option' field in
        values' = Undef \<or> (isArray values' \<and> list_all nonEmptyString (js_elems values')))
       [''pros'', ''cons'']"

text \<open>The loop over the options: the set of the identifiers seen so far, as it grows.\<close>

fun assert_options :: "string set \<Rightarrow> js list \<Rightarrow> error + string set" where
  "assert_options ids [] = Inr ids"
| "assert_options ids (option' # os) =
     (if \<not> (is_objectish option' \<and> nonEmptyString (js_prop option' ''id'') \<and>
            nonEmptyString (js_prop option' ''title'') \<and> nonEmptyString (js_prop option' ''summary''))
      then Inl (DomainError ''decision dossier option requires non-empty id, title, and summary'')
      else if js_str (js_prop option' ''id'') \<in> ids
      then Inl (DomainError ''decision dossier option id is duplicated'')
      else if \<not> assert_option_lists option'
      then Inl (DomainError ''decision dossier option field must contain non-empty strings'')
      else assert_options (insert (js_str (js_prop option' ''id'')) ids) os)"

text \<open>A question entry that is null or undefined makes the property read a TypeError.\<close>

fun assert_qa :: "js list \<Rightarrow> error + unit" where
  "assert_qa [] = Inr ()"
| "assert_qa (entry # qs) =
     (if entry = Null \<or> entry = Undef
      then Inl (Error ''TypeError: cannot read properties of null or undefined'')
      else if \<not> nonEmptyString (js_prop entry ''id'') \<or> \<not> nonEmptyString (js_prop entry ''question'') \<or>
         (js_prop entry ''answer'' \<noteq> Undef \<and> \<not> nonEmptyString (js_prop entry ''answer''))
      then Inl (DomainError ''decision dossier qa requires non-empty id and question'')
      else assert_qa qs)"

definition assertStructuredDossier :: "bool \<Rightarrow> dossier \<Rightarrow> error + unit" where
  "assertStructuredDossier allowSelectedOption dossier =
     (if \<not> is_object dossier then Inl (DomainError ''decision dossier must be an object'')
      else if \<not> isString (js_prop dossier ''context'')
      then Inl (DomainError ''decision dossier context must be a string'')
      else if \<not> isArray (js_prop dossier ''options'') \<or> length (js_elems (js_prop dossier ''options'')) < 2
      then Inl (DomainError ''decision dossier requires at least two options'')
      else bindR (assert_options {} (js_elems (js_prop dossier ''options''))) (\<lambda>optionIds.
      if \<not> isArray (js_prop dossier ''qa'') then Inl (DomainError ''decision dossier qa must be an array'')
      else bindR (assert_qa (js_elems (js_prop dossier ''qa''))) (\<lambda>_.
      let r = js_prop dossier ''recommendation''; sel = js_prop dossier ''selectedOptionId'' in
      if \<not> is_objectish r \<or> \<not> nonEmptyString (js_prop r ''optionId'') \<or>
         js_str (js_prop r ''optionId'') \<notin> optionIds \<or> \<not> nonEmptyString (js_prop r ''rationale'')
      then Inl (DomainError ''decision dossier requires a recommendation for one declared option'')
      else if sel \<noteq> Undef \<and> \<not> allowSelectedOption
      then Inl (DomainError ''decision dossier selectedOptionId is set only by decision.option-selected'')
      else if sel \<noteq> Undef \<and> (\<not> nonEmptyString sel \<or> js_str sel \<notin> optionIds)
      then Inl (DomainError ''decision dossier selectedOptionId must name a declared option'')
      else Inr ())))"

definition isStructuredDossier :: "dossier \<Rightarrow> bool" where
  "isStructuredDossier dossier = (case assertStructuredDossier True dossier of Inl _ \<Rightarrow> False | Inr _ \<Rightarrow> True)"

definition option_ids :: "dossier \<Rightarrow> string list" where
  "option_ids dossier = map (\<lambda>o'. js_str (js_prop o' ''id'')) (js_elems (js_prop dossier ''options''))"

definition well_formed_option :: "js \<Rightarrow> bool" where
  "well_formed_option o' \<longleftrightarrow> nonEmptyString (js_prop o' ''id'') \<and> nonEmptyString (js_prop o' ''title'') \<and>
     nonEmptyString (js_prop o' ''summary'') \<and> assert_option_lists o'"

lemma assert_options_Inr:
  "assert_options ids os = Inr ids' \<longleftrightarrow>
     (\<forall>o' \<in> set os. is_objectish o' \<and> well_formed_option o') \<and>
     distinct (map (\<lambda>o'. js_str (js_prop o' ''id'')) os) \<and>
     ids \<inter> set (map (\<lambda>o'. js_str (js_prop o' ''id'')) os) = {} \<and>
     ids' = ids \<union> set (map (\<lambda>o'. js_str (js_prop o' ''id'')) os)"
  by (induction ids os rule: assert_options.induct) (auto simp: well_formed_option_def)

lemma assert_qa_Inr:
  "assert_qa qs = Inr u \<longleftrightarrow>
     (\<forall>q \<in> set qs. nonEmptyString (js_prop q ''id'') \<and> nonEmptyString (js_prop q ''question'') \<and>
        (js_prop q ''answer'' = Undef \<or> nonEmptyString (js_prop q ''answer'')))"
  by (induction qs rule: assert_qa.induct) (auto simp: js_prop_def nonEmptyString_def)

section \<open>The outcome machine\<close>

fun OUTCOME_TRANSITIONS :: "outcome \<Rightarrow> outcome list" where
  "OUTCOME_TRANSITIONS Pending = [Go, NoGo, Deferred]"
| "OUTCOME_TRANSITIONS Deferred = [Go, NoGo]"
| "OUTCOME_TRANSITIONS Go = []"
| "OUTCOME_TRANSITIONS NoGo = []"

definition assertOutcomeTransition :: "outcome \<Rightarrow> outcome \<Rightarrow> error + unit" where
  "assertOutcomeTransition current to =
     (if to \<notin> set (OUTCOME_TRANSITIONS current) then Inl (DomainError ''illegal outcome transition'')
      else Inr ())"

definition isSettled :: "outcome \<Rightarrow> bool" where
  "isSettled z \<longleftrightarrow> z = Go \<or> z = NoGo"

definition outcome_rank :: "outcome \<Rightarrow> nat" where
  "outcome_rank z = (case z of Pending \<Rightarrow> 0 | Deferred \<Rightarrow> 1 | _ \<Rightarrow> 2)"

interpretation outcome_machine: ranked_lifecycle OUTCOME_TRANSITIONS isSettled outcome_rank
proof unfold_locales
  fix s t
  assume "t \<in> set (OUTCOME_TRANSITIONS s)"
  then show "outcome_rank s < outcome_rank t"
    by (cases s) (auto simp: outcome_rank_def)
qed (auto simp: isSettled_def)

lemma assertOutcomeTransition_Inr [simp]:
  "assertOutcomeTransition s t = Inr u \<longleftrightarrow> t \<in> set (OUTCOME_TRANSITIONS s)"
  by (simp add: assertOutcomeTransition_def)

section \<open>Dossier artifacts\<close>

fun assert_comprehension :: "js list \<Rightarrow> error + unit" where
  "assert_comprehension [] = Inr ()"
| "assert_comprehension (c # cs) =
     (if \<not> is_object c then Inl (DomainError ''decision.add-artifact: comprehension must be an object'')
      else if \<not> nonEmptyString (js_prop c ''subject'')
      then Inl (DomainError ''decision.add-artifact: comprehension.subject (the attester) is required'')
      else if \<not> nonEmptyString (js_prop c ''dossierHash'')
      then Inl (DomainError ''decision.add-artifact: comprehension.dossierHash is required'')
      else assert_comprehension cs)"

text \<open>The labels and the evidence are passed through as they came.\<close>

datatype dossier_artifact =
    H2ADecisionDossier string string "js list option" "js option"
  | RenderedView string "js option" "js option"
  | Mockup string "js option"

fun artifact_js :: "dossier_artifact \<Rightarrow> js" where
  "artifact_js (H2ADecisionDossier n d c l) = obj [(''kind'', Some (Str ''h2a-decision-dossier'')),
     (''negotiationRef'', Some (Str n)), (''dossierHash'', Some (Str d)),
     (''comprehension'', map_option Arr c), (''label'', l)]"
| "artifact_js (RenderedView v s l) = obj [(''kind'', Some (Str ''rendered-view'')),
     (''viewRef'', Some (Str v)), (''sourceDossierHash'', s), (''label'', l)]"
| "artifact_js (Mockup v l) = obj [(''kind'', Some (Str ''mockup'')), (''viewRef'', Some (Str v)),
     (''label'', l)]"

definition assertDossierArtifact :: "js \<Rightarrow> error + dossier_artifact" where
  "assertDossierArtifact a =
     (if \<not> is_object a then Inl (DomainError ''decision.add-artifact: artifact must be an object'')
      else if js_prop a ''kind'' = Str ''h2a-decision-dossier'' then
       (if \<not> nonEmptyString (js_prop a ''negotiationRef'')
        then Inl (DomainError ''decision.add-artifact: an h2a-decision-dossier requires a negotiationRef'')
        else if \<not> nonEmptyString (js_prop a ''dossierHash'')
        then Inl (DomainError ''decision.add-artifact: an h2a-decision-dossier requires a dossierHash'')
        else bindR (if js_prop a ''comprehension'' = Undef then Inr None
               else if \<not> isArray (js_prop a ''comprehension'')
               then Inl (DomainError ''decision.add-artifact: comprehension must be an array'')
               else bindR (assert_comprehension (js_elems (js_prop a ''comprehension'')))
                      (\<lambda>_. Inr (Some (js_elems (js_prop a ''comprehension''))))) (\<lambda>comprehension.
          Inr (H2ADecisionDossier (js_str (js_prop a ''negotiationRef'')) (js_str (js_prop a ''dossierHash''))
             comprehension (optional id (js_prop a ''label'')))))
      else if js_prop a ''kind'' = Str ''rendered-view'' then
       (if \<not> nonEmptyString (js_prop a ''viewRef'')
        then Inl (DomainError ''decision.add-artifact: a rendered-view requires a viewRef'')
        else Inr (RenderedView (js_str (js_prop a ''viewRef'')) (optional id (js_prop a ''sourceDossierHash''))
           (optional id (js_prop a ''label''))))
      else if js_prop a ''kind'' = Str ''mockup'' then
       (if \<not> nonEmptyString (js_prop a ''viewRef'')
        then Inl (DomainError ''decision.add-artifact: a mockup requires a viewRef'')
        else Inr (Mockup (js_str (js_prop a ''viewRef'')) (optional id (js_prop a ''label''))))
      else Inl (DomainError ''decision.add-artifact: unknown artifact kind''))"

text \<open>What the validator lets through, it lets through again, unchanged: the recorded copy has
  exactly the fields that were checked.\<close>

lemma optional_id_given: "optional id v = x \<longleftrightarrow> (case x of None \<Rightarrow> v = Undef | Some w \<Rightarrow> w = v \<and> v \<noteq> Undef)"
  by (auto simp: optional_def split: option.split)

lemma given_optional_id [simp]: "optional id (given (optional id v) Undef) = optional id v"
  by (simp add: optional_def)

lemma assert_comprehension_Inr:
  "assert_comprehension cs = Inr u \<longleftrightarrow>
     (\<forall>c \<in> set cs. is_object c \<and> nonEmptyString (js_prop c ''subject'') \<and> nonEmptyString (js_prop c ''dossierHash''))"
  by (induction cs) auto

section \<open>Properties\<close>

definition well_formed_qa :: "js \<Rightarrow> bool" where
  "well_formed_qa q \<longleftrightarrow> nonEmptyString (js_prop q ''id'') \<and> nonEmptyString (js_prop q ''question'') \<and>
     (js_prop q ''answer'' = Undef \<or> nonEmptyString (js_prop q ''answer''))"

text \<open>The value of a member names a declared option.\<close>

definition names_option :: "dossier \<Rightarrow> js \<Rightarrow> bool" where
  "names_option d v \<longleftrightarrow> nonEmptyString v \<and> js_str v \<in> set (option_ids d)"

lemma well_formed_option_objectish: "well_formed_option v \<Longrightarrow> is_objectish v"
  by (cases v) (auto simp: well_formed_option_def is_objectish_def js_prop_def nonEmptyString_def)

lemma names_option_objectish: "names_option d (js_prop r k) \<Longrightarrow> is_objectish r"
  by (cases r) (auto simp: names_option_def is_objectish_def js_prop_def nonEmptyString_def)

text \<open>C22. The dossier validator accepts exactly the structured dossiers: a text context, at least two
  well-formed options with distinct identifiers, well-formed questions, a reasoned recommendation
  of one of the options, and a selected option only where one is allowed and declared.\<close>

theorem structured_dossier_spec:
  "assertStructuredDossier allow d = Inr () \<longleftrightarrow>
     is_object d \<and> isString (js_prop d ''context'') \<and>
     isArray (js_prop d ''options'') \<and> length (option_ids d) \<ge> 2 \<and>
     list_all well_formed_option (js_elems (js_prop d ''options'')) \<and> distinct (option_ids d) \<and>
     isArray (js_prop d ''qa'') \<and> list_all well_formed_qa (js_elems (js_prop d ''qa'')) \<and>
     names_option d (js_prop (js_prop d ''recommendation'') ''optionId'') \<and>
     nonEmptyString (js_prop (js_prop d ''recommendation'') ''rationale'') \<and>
     (js_prop d ''selectedOptionId'' = Undef \<or> allow \<and> names_option d (js_prop d ''selectedOptionId''))"
proof -
  have opts: "(\<exists>ids. assert_options {} os = Inr ids \<and> P ids) \<longleftrightarrow>
      list_all well_formed_option os \<and> distinct (map (\<lambda>o'. js_str (js_prop o' ''id'')) os) \<and>
      P (set (map (\<lambda>o'. js_str (js_prop o' ''id'')) os))" for os P
    using well_formed_option_objectish by (auto simp: assert_options_Inr list_all_iff)
  have qas: "assert_qa qs = Inr u \<longleftrightarrow> list_all well_formed_qa qs" for qs u
    by (simp add: assert_qa_Inr list_all_iff well_formed_qa_def)
  have rec: "\<not> (\<not> is_objectish r \<or> \<not> nonEmptyString (js_prop r ''optionId'') \<or>
      js_str (js_prop r ''optionId'') \<notin> set (option_ids d) \<or> R) \<longleftrightarrow>
      names_option d (js_prop r ''optionId'') \<and> \<not> R" for r R
    using names_option_objectish by (auto simp: names_option_def)
  have len: "length (js_elems (js_prop d ''options'')) = length (option_ids d)"
    by (simp add: option_ids_def)
  have big: "\<not> (\<not> A \<or> length (option_ids d) < 2) \<longleftrightarrow> A \<and> 2 \<le> length (option_ids d)" for A
    by auto
  have sel: "\<not> (s \<noteq> Undef \<and> \<not> allow) \<and> \<not> (s \<noteq> Undef \<and> (\<not> nonEmptyString s \<or> js_str s \<notin> set (option_ids d))) \<longleftrightarrow>
      s = Undef \<or> allow \<and> names_option d s" for s
    by (auto simp: names_option_def)
  show ?thesis
    unfolding assertStructuredDossier_def Let_def if_Inl_Inr bindR_eq_Inr opts
      option_ids_def[symmetric] rec sel
    by (simp only: qas len big not_not ex_simps simp_thms conj_assoc sel)
qed

text \<open>A settled decision stays settled: along any accepted outcome transitions go and no-go are
  final, and no outcome is ever returned to.\<close>

theorem settled_outcome_final:
  assumes "leads_to OUTCOME_TRANSITIONS z z'"
  shows "(if isSettled z then z' = z else z' = z \<or> \<not> leads_to OUTCOME_TRANSITIONS z' z) \<and>
     (\<exists>u. assertOutcomeTransition z z'' = Inr u) = (z'' \<in> set (OUTCOME_TRANSITIONS z))"
proof (cases "isSettled z")
  case True
  then show ?thesis using outcome_machine.closed_absorbing[OF assms True] by simp
next
  case False
  then show ?thesis using outcome_machine.never_returns[OF assms] by (simp only: if_False assertOutcomeTransition_Inr) blast
qed

theorem settled_outcome_final_witness:
  "(if isSettled Pending then NoGo = Pending else NoGo = Pending \<or> \<not> leads_to OUTCOME_TRANSITIONS NoGo Pending) \<and>
     (\<exists>u. assertOutcomeTransition Pending Go = Inr u) = (Go \<in> set (OUTCOME_TRANSITIONS Pending))"
proof (rule settled_outcome_final)
  have "leads_to OUTCOME_TRANSITIONS Pending Deferred"
    by (rule leads_to.step[OF leads_to.stay]) simp
  then show "leads_to OUTCOME_TRANSITIONS Pending NoGo"
    by (rule leads_to.step) simp
qed

lemma comprehension_Inr:
  "(if w = Undef then Inr None
    else if \<not> isArray w then Inl e
    else bindR (assert_comprehension (js_elems w)) (\<lambda>_. Inr (Some (js_elems w)))) = Inr x \<longleftrightarrow>
   w = given (map_option Arr x) Undef \<and> (\<forall>cs. x = Some cs \<longrightarrow> assert_comprehension cs = Inr ())"
  by (cases w; cases x) (auto simp: bindR_eq_Inr isArray_def given_def)

text \<open>The artifact validator is a fixed point: the copy it returns, written as an object and read
  again, is accepted and is the same artifact.\<close>

theorem artifact_fixed:
  assumes "assertDossierArtifact v = Inr a"
  shows "assertDossierArtifact (artifact_js a) = Inr a"
proof (cases a)
  case (H2ADecisionDossier n d c l)
  with assms have v: "js_prop v ''kind'' = Str ''h2a-decision-dossier''" "n \<noteq> []" "d \<noteq> []"
    and c: "js_prop v ''comprehension'' = given (map_option Arr c) Undef"
      "\<forall>cs. c = Some cs \<longrightarrow> assert_comprehension cs = Inr ()"
    and l: "l = optional id (js_prop v ''label'')"
    by (auto simp: assertDossierArtifact_def comprehension_Inr nonEmptyString_iff bindR_eq_Inr split: if_splits)
  then show ?thesis
    by (cases c) (simp_all add: H2ADecisionDossier assertDossierArtifact_def nonEmptyString_def isArray_def)
next
  case (RenderedView w s l)
  with assms show ?thesis
    by (auto simp: assertDossierArtifact_def nonEmptyString_iff bindR_eq_Inr split: if_splits)
next
  case (Mockup w l)
  with assms show ?thesis
    by (auto simp: assertDossierArtifact_def nonEmptyString_iff bindR_eq_Inr split: if_splits)
qed

theorem artifact_fixed_witness:
  "assertDossierArtifact (artifact_js (RenderedView ''view:1'' None (Some (Str ''l'')))) =
     Inr (RenderedView ''view:1'' None (Some (Str ''l'')))"
  by (rule artifact_fixed[where v = "obj [(''label'', Some (Str ''l'')), (''kind'', Some (Str ''rendered-view'')),
        (''extra'', Some Null), (''viewRef'', Some (Str ''view:1''))]"])
    (simp add: assertDossierArtifact_def nonEmptyString_def optional_def)

end
