(* ===== verification/Demand.thy ===== *)
theory Demand
  imports Item
begin

text \<open>
  \<open>packages/track/src/model/demand.ts\<close>: the demand record, its lifecycle machine and the
  fail-closed validation of a raised demand.
\<close>

section \<open>The demand\<close>

datatype demand_type = DFeature | DDefect | DChore

datatype demand_status = Raised | Qualifying | Agreed | DemandRejected | Duplicate | Parked

datatype source_kind = SHuman | SAgent | SH2a | SImport | SExternal

datatype raw_format = Plain | Markdown

datatype disposition_outcome = ORejected | ODuplicate | OParked

record demand_raw =
  raw_text :: string
  raw_title :: "string option"
  raw_format :: "raw_format option"

record demand_source =
  src_kind :: source_kind
  src_actor :: "actor_id option"
  src_ref :: "string option"
  src_locator :: "string option"

datatype demand_ref = DemandRef string | ItemRef string

record demand_state =
  dem_id :: ulid
  dem_workspace :: string
  dem_type :: demand_type
  dem_raw :: demand_raw
  dem_source :: demand_source
  dem_status :: demand_status
  dem_itemIds :: "ulid list option"
  dem_duplicateOf :: "demand_ref option"
  dem_rejectReason :: "string option"
  dem_parkReason :: "string option"
  dem_concerns :: "ulid option"
  dem_sourceKey :: "string option"
  dem_links :: "js list option"

definition DEMAND_TYPES :: "(string \<times> demand_type) list" where
  "DEMAND_TYPES = [(''feature'', DFeature), (''defect'', DDefect), (''chore'', DChore)]"

fun demand_type_js :: "demand_type \<Rightarrow> js" where
  "demand_type_js DFeature = Str ''feature''"
| "demand_type_js DDefect = Str ''defect''"
| "demand_type_js DChore = Str ''chore''"

definition SOURCE_KINDS :: "(string \<times> source_kind) list" where
  "SOURCE_KINDS = [(''human'', SHuman), (''agent'', SAgent), (''h2a'', SH2a), (''import'', SImport),
     (''external'', SExternal)]"

fun source_kind_js :: "source_kind \<Rightarrow> js" where
  "source_kind_js SHuman = Str ''human''"
| "source_kind_js SAgent = Str ''agent''"
| "source_kind_js SH2a = Str ''h2a''"
| "source_kind_js SImport = Str ''import''"
| "source_kind_js SExternal = Str ''external''"

definition raw_formats :: "(string \<times> raw_format) list" where
  "raw_formats = [(''plain'', Plain), (''markdown'', Markdown)]"

fun raw_format_js :: "raw_format \<Rightarrow> js" where
  "raw_format_js Plain = Str ''plain''"
| "raw_format_js Markdown = Str ''markdown''"

definition DISPOSITION_OUTCOMES :: "(string \<times> disposition_outcome) list" where
  "DISPOSITION_OUTCOMES = [(''rejected'', ORejected), (''duplicate'', ODuplicate), (''parked'', OParked)]"

fun disposition_outcome_js :: "disposition_outcome \<Rightarrow> js" where
  "disposition_outcome_js ORejected = Str ''rejected''"
| "disposition_outcome_js ODuplicate = Str ''duplicate''"
| "disposition_outcome_js OParked = Str ''parked''"

lemma demand_enum_round_trips [simp, codec_simps]:
  shows "enum_of DEMAND_TYPES (demand_type_js t) = Some t"
    and "enum_of SOURCE_KINDS (source_kind_js k) = Some k"
    and "enum_of raw_formats (raw_format_js f) = Some f"
    and "enum_of DISPOSITION_OUTCOMES (disposition_outcome_js d) = Some d"
  subgoal by (cases t) (simp_all add: enum_of_def DEMAND_TYPES_def)
  subgoal by (cases k) (simp_all add: enum_of_def SOURCE_KINDS_def)
  subgoal by (cases f) (simp_all add: enum_of_def raw_formats_def)
  subgoal by (cases d) (simp_all add: enum_of_def DISPOSITION_OUTCOMES_def)
  done

lemma demand_enum_not_Undef [simp]:
  shows "demand_type_js t \<noteq> Undef" and "source_kind_js k \<noteq> Undef" and "raw_format_js f \<noteq> Undef"
    and "disposition_outcome_js d \<noteq> Undef"
  subgoal by (cases t) simp_all
  subgoal by (cases k) simp_all
  subgoal by (cases f) simp_all
  subgoal by (cases d) simp_all
  done

section \<open>The lifecycle machine\<close>

fun DEMAND_TRANSITIONS :: "demand_status \<Rightarrow> demand_status list" where
  "DEMAND_TRANSITIONS Raised = [Qualifying]"
| "DEMAND_TRANSITIONS Qualifying = [Agreed, DemandRejected, Duplicate, Parked]"
| "DEMAND_TRANSITIONS Agreed = []"
| "DEMAND_TRANSITIONS DemandRejected = []"
| "DEMAND_TRANSITIONS Duplicate = []"
| "DEMAND_TRANSITIONS Parked = [Qualifying]"

definition assertDemandTransition :: "demand_status \<Rightarrow> demand_status \<Rightarrow> error + unit" where
  "assertDemandTransition current to =
     (if to \<notin> set (DEMAND_TRANSITIONS current) then Inl (DomainError ''illegal demand transition'')
      else Inr ())"

definition isDemandTerminal :: "demand_status \<Rightarrow> bool" where
  "isDemandTerminal s \<longleftrightarrow> length (DEMAND_TRANSITIONS s) = 0"

definition assertDispositionOutcome :: "js \<Rightarrow> error + disposition_outcome" where
  "assertDispositionOutcome v =
     (case enum_of DISPOSITION_OUTCOMES v of
        None \<Rightarrow> Inl (DomainError ''demand.disposition: outcome must be one of rejected|duplicate|parked'')
      | Some d \<Rightarrow> Inr d)"

fun outcome_status :: "disposition_outcome \<Rightarrow> demand_status" where
  "outcome_status ORejected = DemandRejected"
| "outcome_status ODuplicate = Duplicate"
| "outcome_status OParked = Parked"

interpretation demand_machine: lifecycle DEMAND_TRANSITIONS isDemandTerminal
  by unfold_locales (simp add: isDemandTerminal_def)

lemma assertDemandTransition_Inr [simp]:
  "assertDemandTransition s t = Inr u \<longleftrightarrow> t \<in> set (DEMAND_TRANSITIONS s)"
  by (simp add: assertDemandTransition_def)

text \<open>Every way out of \<open>raised\<close> goes through \<open>qualifying\<close>.\<close>

lemma raised_next: "t \<in> set (DEMAND_TRANSITIONS Raised) \<longleftrightarrow> t = Qualifying"
  by simp

lemma enters_settled: "t \<in> {Agreed, DemandRejected, Duplicate, Parked} \<Longrightarrow>
    t \<in> set (DEMAND_TRANSITIONS s) \<Longrightarrow> s = Qualifying"
  by (cases s) auto

section \<open>Validation of a raised demand\<close>

record demand_raised_payload =
  drp_type :: demand_type
  drp_raw :: demand_raw
  drp_source :: demand_source
  drp_handler :: actor_id
  drp_sourceKey :: "string option"
  drp_concerns :: "ulid option"
  drp_links :: "js list option"

definition assertRaw :: "js \<Rightarrow> error + demand_raw" where
  "assertRaw r =
     (if \<not> is_object r then Inl (DomainError ''demand.raise: raw must be an object'')
      else if \<not> nonEmptyString (js_prop r ''text'')
      then Inl (DomainError ''demand.raise: raw.text is required (the t=0 capture)'')
      else if js_prop r ''title'' \<noteq> Undef \<and> \<not> isString (js_prop r ''title'')
      then Inl (DomainError ''demand.raise: raw.title must be a string'')
      else case opt (enum_of raw_formats) (js_prop r ''format'') of
        None \<Rightarrow> Inl (DomainError ''demand.raise: raw.format must be plain or markdown'')
      | Some f \<Rightarrow>
          Inr \<lparr>raw_text = js_str (js_prop r ''text''), raw_title = optional js_str (js_prop r ''title''),
               raw_format = f\<rparr>)"

definition assertSource :: "js \<Rightarrow> error + demand_source" where
  "assertSource s =
     (if \<not> is_object s then Inl (DomainError ''demand.raise: source must be an object'')
      else case enum_of SOURCE_KINDS (js_prop s ''kind'') of
        None \<Rightarrow> Inl (DomainError ''demand.raise: source.kind must be one of the source kinds'')
      | Some k \<Rightarrow>
          (case find (\<lambda>key. js_prop s key \<noteq> Undef \<and> \<not> isString (js_prop s key))
                  [''actor'', ''ref'', ''locator''] of
             Some key \<Rightarrow> Inl (DomainError (''demand.raise: source.'' @ key @ '' must be a string''))
           | None \<Rightarrow>
               Inr \<lparr>src_kind = k, src_actor = optional js_str (js_prop s ''actor''),
                    src_ref = optional js_str (js_prop s ''ref''),
                    src_locator = optional js_str (js_prop s ''locator'')\<rparr>))"

definition assertConcerns :: "js \<Rightarrow> error + ulid" where
  "assertConcerns c =
     (if \<not> is_object c then Inl (DomainError ''demand.raise: concerns must be an object'')
      else if js_prop c ''kind'' \<noteq> Str ''item''
      then Inl (DomainError ''demand.raise: concerns.kind must be item'')
      else if \<not> nonEmptyString (js_prop c ''id'')
      then Inl (DomainError ''demand.raise: concerns.id is required'')
      else Inr (js_str (js_prop c ''id'')))"

definition assertDemandRaised :: "js \<Rightarrow> error + demand_raised_payload" where
  "assertDemandRaised a =
     (if \<not> is_object a then Inl (DomainError ''demand.raise: a demand must be an object'')
      else case enum_of DEMAND_TYPES (js_prop a ''type'') of
        None \<Rightarrow> Inl (DomainError ''demand.raise: type must be one of feature|defect|chore'')
      | Some ty \<Rightarrow>
      if \<not> nonEmptyString (js_prop a ''handler'')
      then Inl (DomainError ''demand.raise: a handler is required'')
      else bindR (assertRaw (js_prop a ''raw'')) (\<lambda>raw.
      bindR (assertSource (js_prop a ''source'')) (\<lambda>source.
      if js_prop a ''sourceKey'' \<noteq> Undef \<and> \<not> isString (js_prop a ''sourceKey'')
      then Inl (DomainError ''demand.raise: sourceKey must be a string'')
      else bindR (if js_prop a ''concerns'' = Undef then Inr None
                  else bindR (assertConcerns (js_prop a ''concerns'')) (\<lambda>c. Inr (Some c))) (\<lambda>concerns.
      case js_prop a ''links'' of
        Undef \<Rightarrow> Inr \<lparr>drp_type = ty, drp_raw = raw, drp_source = source,
           drp_handler = js_str (js_prop a ''handler''),
           drp_sourceKey = optional js_str (js_prop a ''sourceKey''), drp_concerns = concerns,
           drp_links = None\<rparr>
      | Arr ls \<Rightarrow> Inr \<lparr>drp_type = ty, drp_raw = raw, drp_source = source,
           drp_handler = js_str (js_prop a ''handler''),
           drp_sourceKey = optional js_str (js_prop a ''sourceKey''), drp_concerns = concerns,
           drp_links = Some ls\<rparr>
      | _ \<Rightarrow> Inl (DomainError ''demand.raise: links must be an array'')))))"

section \<open>Object forms\<close>

definition raw_js :: "demand_raw \<Rightarrow> js" where
  "raw_js r = obj [(''text'', Some (Str (raw_text r))), (''title'', map_option Str (raw_title r)),
     (''format'', map_option raw_format_js (raw_format r))]"

definition raw_of :: "js \<Rightarrow> demand_raw option" where
  "raw_of v = do {
     t \<leftarrow> str_of (js_prop v ''text'');
     ti \<leftarrow> opt str_of (js_prop v ''title'');
     f \<leftarrow> opt (enum_of raw_formats) (js_prop v ''format'');
     Some \<lparr>raw_text = t, raw_title = ti, raw_format = f\<rparr> }"

definition source_js :: "demand_source \<Rightarrow> js" where
  "source_js s = obj [(''kind'', Some (source_kind_js (src_kind s))), (''actor'', map_option Str (src_actor s)),
     (''ref'', map_option Str (src_ref s)), (''locator'', map_option Str (src_locator s))]"

definition source_of :: "js \<Rightarrow> demand_source option" where
  "source_of v = do {
     k \<leftarrow> enum_of SOURCE_KINDS (js_prop v ''kind'');
     a \<leftarrow> opt str_of (js_prop v ''actor'');
     r \<leftarrow> opt str_of (js_prop v ''ref'');
     l \<leftarrow> opt str_of (js_prop v ''locator'');
     Some \<lparr>src_kind = k, src_actor = a, src_ref = r, src_locator = l\<rparr> }"

definition concerns_js :: "ulid \<Rightarrow> js" where
  "concerns_js i = obj [(''kind'', Some (Str ''item'')), (''id'', Some (Str i))]"

definition concerns_of :: "js \<Rightarrow> ulid option" where
  "concerns_of v = str_of (js_prop v ''id'')"

definition demand_ref_js :: "demand_ref \<Rightarrow> js" where
  "demand_ref_js r = (case r of
     DemandRef i \<Rightarrow> obj [(''kind'', Some (Str ''demand'')), (''id'', Some (Str i))]
   | ItemRef i \<Rightarrow> obj [(''kind'', Some (Str ''item'')), (''id'', Some (Str i))])"

definition demand_ref_of :: "js \<Rightarrow> demand_ref option" where
  "demand_ref_of v = do {
     k \<leftarrow> str_of (js_prop v ''kind'');
     i \<leftarrow> str_of (js_prop v ''id'');
     if k = ''demand'' then Some (DemandRef i) else if k = ''item'' then Some (ItemRef i) else None }"

definition DemandRaisedPayload_js :: "string \<Rightarrow> demand_raised_payload \<Rightarrow> js" where
  "DemandRaisedPayload_js workspace p = obj [
     (''workspace'', Some (Str workspace)),
     (''type'', Some (demand_type_js (drp_type p))),
     (''raw'', Some (raw_js (drp_raw p))),
     (''source'', Some (source_js (drp_source p))),
     (''handler'', Some (Str (drp_handler p))),
     (''sourceKey'', map_option Str (drp_sourceKey p)),
     (''concerns'', map_option concerns_js (drp_concerns p)),
     (''links'', map_option Arr (drp_links p))]"

lemma raw_round_trip [simp, codec_simps]: "raw_of (raw_js r) = Some r" "raw_js r \<noteq> Undef"
  by (cases r) (simp_all add: raw_js_def raw_of_def opt_given)

lemma source_round_trip [simp, codec_simps]: "source_of (source_js s) = Some s" "source_js s \<noteq> Undef"
  by (cases s) (simp_all add: source_js_def source_of_def opt_given)

lemma concerns_round_trip [simp, codec_simps]: "concerns_of (concerns_js i) = Some i" "concerns_js i \<noteq> Undef"
  by (simp_all add: concerns_js_def concerns_of_def)

lemma demand_ref_round_trip [simp, codec_simps]: "demand_ref_of (demand_ref_js r) = Some r" "demand_ref_js r \<noteq> Undef"
  by (cases r; simp add: demand_ref_js_def demand_ref_of_def)+

lemma opt_isString: "(v = Undef \<or> isString v) \<Longrightarrow> given (map_option Str (optional js_str v)) Undef = v"
  by (auto simp: optional_def isString_iff)

lemma optional_given_Str [simp]: "optional js_str (given (map_option Str x) Undef) = x"
  by (cases x) (simp_all add: optional_def)

lemma given_Str_isString: "given (map_option Str x) Undef \<noteq> Undef \<Longrightarrow> isString (given (map_option Str x) Undef)"
  by (cases x) (simp_all add: isString_def)

lemma assertRaw_fixed: "assertRaw v = Inr r \<Longrightarrow> assertRaw (raw_js r) = Inr r"
  by (auto simp: assertRaw_def raw_js_def nonEmptyString_iff isString_iff optional_def opt_given
      split: if_splits option.splits)

lemma assertSource_fixed: "assertSource v = Inr s \<Longrightarrow> assertSource (source_js s) = Inr s"
proof -
  assume "assertSource v = Inr s"
  have "find (\<lambda>key. js_prop (source_js s) key \<noteq> Undef \<and> \<not> isString (js_prop (source_js s) key))
      [''actor'', ''ref'', ''locator''] = None"
    using given_Str_isString by (auto simp: find_None_iff source_js_def)
  then show ?thesis
    by (cases s) (simp add: assertSource_def source_js_def)
qed

lemma assertConcerns_fixed: "assertConcerns v = Inr i \<Longrightarrow> assertConcerns (concerns_js i) = Inr i"
  by (auto simp: assertConcerns_def concerns_js_def nonEmptyString_iff split: if_splits)

section \<open>Properties\<close>

text \<open>The demand machine: a raised demand can only be qualified; it is agreed, rejected, marked as
  a duplicate or parked only while it is being qualified; and from a terminal status no sequence
  of accepted transitions leaves.\<close>

theorem demand_machine_spec:
  assumes "leads_to DEMAND_TRANSITIONS s t"
  shows "(\<exists>u. assertDemandTransition t v = Inr u) = (v = Qualifying \<and> t \<in> {Raised, Parked} \<or>
       v \<in> {Agreed, DemandRejected, Duplicate, Parked} \<and> t = Qualifying) \<and>
     (if s \<in> {Agreed, DemandRejected, Duplicate} then t = s else True)"
proof -
  have "isDemandTerminal s \<longleftrightarrow> s \<in> {Agreed, DemandRejected, Duplicate}"
    by (cases s) (simp_all add: isDemandTerminal_def)
  moreover have "(\<exists>u. assertDemandTransition t v = Inr u) = (v = Qualifying \<and> t \<in> {Raised, Parked} \<or>
       v \<in> {Agreed, DemandRejected, Duplicate, Parked} \<and> t = Qualifying)"
    by (cases t) auto
  ultimately show ?thesis
    using demand_machine.closed_absorbing[OF assms] by simp
qed

theorem demand_machine_spec_witness:
  "(\<exists>u. assertDemandTransition Parked Qualifying = Inr u) = (Qualifying = Qualifying \<and> Parked \<in> {Raised, Parked} \<or>
       Qualifying \<in> {Agreed, DemandRejected, Duplicate, Parked} \<and> Parked = Qualifying) \<and>
     (if Raised \<in> {Agreed, DemandRejected, Duplicate} then Parked = Raised else True)"
proof (rule demand_machine_spec)
  have "leads_to DEMAND_TRANSITIONS Raised Qualifying"
    by (rule leads_to.step[OF leads_to.stay]) simp
  then show "leads_to DEMAND_TRANSITIONS Raised Parked"
    by (rule leads_to.step) simp
qed

lemma is_object_DemandRaised [simp]: "is_object (DemandRaisedPayload_js w p)"
  by (simp add: DemandRaisedPayload_js_def)

text \<open>The demand validator is a fixed point: the captured demand, recorded as the payload of its
  event, is accepted again and is the same demand, whatever the workspace added to it.\<close>

theorem demand_raised_fixed:
  assumes "assertDemandRaised v = Inr d"
  shows "assertDemandRaised (DemandRaisedPayload_js w d) = Inr d"
proof -
  have iff: "assertDemandRaised x = Inr d' \<longleftrightarrow>
      is_object x \<and> enum_of DEMAND_TYPES (js_prop x ''type'') = Some (drp_type d') \<and>
      nonEmptyString (js_prop x ''handler'') \<and> drp_handler d' = js_str (js_prop x ''handler'') \<and>
      assertRaw (js_prop x ''raw'') = Inr (drp_raw d') \<and> assertSource (js_prop x ''source'') = Inr (drp_source d') \<and>
      (js_prop x ''sourceKey'' = Undef \<or> isString (js_prop x ''sourceKey'')) \<and>
      drp_sourceKey d' = optional js_str (js_prop x ''sourceKey'') \<and>
      (if js_prop x ''concerns'' = Undef then drp_concerns d' = None
       else \<exists>i. assertConcerns (js_prop x ''concerns'') = Inr i \<and> drp_concerns d' = Some i) \<and>
      (js_prop x ''links'' = given (map_option Arr (drp_links d')) Undef)" for x d'
    by (cases d'; cases "js_prop x ''links''")
      (auto simp: assertDemandRaised_def bindR_eq_Inr if_Inl_Inr given_def split: option.splits if_splits)
  show ?thesis
    using assms unfolding iff
    by (cases "drp_concerns d"; cases "drp_sourceKey d")
      (auto simp: DemandRaisedPayload_js_def assertRaw_fixed assertSource_fixed assertConcerns_fixed
        nonEmptyString_iff isString_def optional_def split: if_splits)
qed

theorem demand_raised_fixed_witness:
  "assertDemandRaised (DemandRaisedPayload_js ''w'' \<lparr>drp_type = DDefect,
      drp_raw = \<lparr>raw_text = ''it breaks'', raw_title = None, raw_format = Some Plain\<rparr>,
      drp_source = \<lparr>src_kind = SAgent, src_actor = None, src_ref = Some ''r'', src_locator = None\<rparr>,
      drp_handler = ''h1'', drp_sourceKey = None, drp_concerns = Some ''i1'', drp_links = Some []\<rparr>) =
   Inr \<lparr>drp_type = DDefect,
      drp_raw = \<lparr>raw_text = ''it breaks'', raw_title = None, raw_format = Some Plain\<rparr>,
      drp_source = \<lparr>src_kind = SAgent, src_actor = None, src_ref = Some ''r'', src_locator = None\<rparr>,
      drp_handler = ''h1'', drp_sourceKey = None, drp_concerns = Some ''i1'', drp_links = Some []\<rparr>"
  by (rule demand_raised_fixed[where v = "obj [(''type'', Some (Str ''defect'')), (''handler'', Some (Str ''h1'')),
        (''raw'', Some (obj [(''text'', Some (Str ''it breaks'')), (''format'', Some (Str ''plain''))])),
        (''source'', Some (obj [(''kind'', Some (Str ''agent'')), (''ref'', Some (Str ''r''))])),
        (''concerns'', Some (obj [(''kind'', Some (Str ''item'')), (''id'', Some (Str ''i1''))])),
        (''links'', Some (Arr []))]"])
    (simp add: assertDemandRaised_def assertRaw_def assertSource_def assertConcerns_def enum_of_def DEMAND_TYPES_def
      SOURCE_KINDS_def raw_formats_def opt_def nonEmptyString_def isString_def optional_def)

end
