(* ===== verification/Evidence.thy ===== *)
theory Evidence
  imports Item
begin

text \<open>
  The records of the evidence side of the backlog: \<open>model/acceptance.ts\<close> (criteria, evidence,
  runs, waivers), \<open>model/blocker.ts\<close>, \<open>model/verification.ts\<close> (path verdicts) and
  \<open>model/spec-amend.ts\<close> (live specification amendments), under \<open>packages/track/src\<close>, with their
  fail-closed validators.
\<close>

section \<open>Acceptance\<close>

datatype evidence_kind = Unit | Integration | E2E | Manual

datatype run_result = Pass | Fail

datatype criterion_status = CFail | CWaived | CUnknown | CStale | CPass

text \<open>\<open>CriterionStatus | 'n/a'\<close>.\<close>

datatype acceptance_status = Status criterion_status | NoAcceptance

record test_run =
  run_evidenceId :: string
  run_commit :: string
  run_env :: string
  run_runner :: string
  run_result :: run_result
  run_at :: string

record waiver =
  wv_criterionId :: string
  wv_reason :: string
  wv_by :: string
  wv_at :: string

record criterion_state =
  cr_id :: string
  cr_itemId :: ulid
  cr_statement :: string
  cr_waiver :: "waiver option"

record evidence_state =
  ev_id :: string
  ev_criterionId :: string
  ev_kind :: evidence_kind
  ev_locator :: string
  ev_latestRun :: "test_run option"
  ev_originClientToken :: "string option"

definition evidence_kinds :: "(string \<times> evidence_kind) list" where
  "evidence_kinds = [(''unit'', Unit), (''integration'', Integration), (''e2e'', E2E), (''manual'', Manual)]"

fun evidence_kind_js :: "evidence_kind \<Rightarrow> js" where
  "evidence_kind_js Unit = Str ''unit''"
| "evidence_kind_js Integration = Str ''integration''"
| "evidence_kind_js E2E = Str ''e2e''"
| "evidence_kind_js Manual = Str ''manual''"

definition run_results :: "(string \<times> run_result) list" where
  "run_results = [(''pass'', Pass), (''fail'', Fail)]"

fun run_result_js :: "run_result \<Rightarrow> js" where
  "run_result_js Pass = Str ''pass''"
| "run_result_js Fail = Str ''fail''"

lemma acceptance_enum_round_trips [simp, codec_simps]:
  shows "enum_of evidence_kinds (evidence_kind_js k) = Some k"
    and "enum_of run_results (run_result_js r) = Some r"
  subgoal by (cases k) (simp_all add: enum_of_def evidence_kinds_def)
  subgoal by (cases r) (simp_all add: enum_of_def run_results_def)
  done

record evidence_linked_payload =
  elp_evidenceId :: string
  elp_criterionId :: string
  elp_kind :: evidence_kind
  elp_locator :: string

record run_payload =
  rnp_evidenceId :: string
  rnp_commit :: string
  rnp_env :: string
  rnp_runner :: string
  rnp_result :: run_result

record waived_payload =
  wvp_criterionId :: string
  wvp_reason :: string
  wvp_by :: string

definition EvidenceLinkedPayload_of :: "js \<Rightarrow> evidence_linked_payload option" where
  "EvidenceLinkedPayload_of v = do {
     e \<leftarrow> str_of (js_prop v ''evidenceId'');
     c \<leftarrow> str_of (js_prop v ''criterionId'');
     k \<leftarrow> enum_of evidence_kinds (js_prop v ''kind'');
     l \<leftarrow> str_of (js_prop v ''locator'');
     Some \<lparr>elp_evidenceId = e, elp_criterionId = c, elp_kind = k, elp_locator = l\<rparr> }"

definition EvidenceLinkedPayload_js :: "evidence_linked_payload \<Rightarrow> js" where
  "EvidenceLinkedPayload_js p = obj [(''evidenceId'', Some (Str (elp_evidenceId p))),
     (''criterionId'', Some (Str (elp_criterionId p))), (''kind'', Some (evidence_kind_js (elp_kind p))),
     (''locator'', Some (Str (elp_locator p)))]"

definition RunPayload_of :: "js \<Rightarrow> run_payload option" where
  "RunPayload_of v = do {
     e \<leftarrow> str_of (js_prop v ''evidenceId'');
     c \<leftarrow> str_of (js_prop v ''commit'');
     n \<leftarrow> str_of (js_prop v ''env'');
     r \<leftarrow> str_of (js_prop v ''runner'');
     z \<leftarrow> enum_of run_results (js_prop v ''result'');
     Some \<lparr>rnp_evidenceId = e, rnp_commit = c, rnp_env = n, rnp_runner = r, rnp_result = z\<rparr> }"

definition RunPayload_js :: "run_payload \<Rightarrow> js" where
  "RunPayload_js p = obj [(''evidenceId'', Some (Str (rnp_evidenceId p))), (''commit'', Some (Str (rnp_commit p))),
     (''env'', Some (Str (rnp_env p))), (''runner'', Some (Str (rnp_runner p))),
     (''result'', Some (run_result_js (rnp_result p)))]"

definition WaivedPayload_of :: "js \<Rightarrow> waived_payload option" where
  "WaivedPayload_of v = do {
     c \<leftarrow> str_of (js_prop v ''criterionId'');
     r \<leftarrow> str_of (js_prop v ''reason'');
     b \<leftarrow> str_of (js_prop v ''by'');
     Some \<lparr>wvp_criterionId = c, wvp_reason = r, wvp_by = b\<rparr> }"

definition WaivedPayload_js :: "waived_payload \<Rightarrow> js" where
  "WaivedPayload_js p = obj [(''criterionId'', Some (Str (wvp_criterionId p))),
     (''reason'', Some (Str (wvp_reason p))), (''by'', Some (Str (wvp_by p)))]"

lemma acceptance_round_trips [simp, codec_simps]:
  "EvidenceLinkedPayload_of (EvidenceLinkedPayload_js p) = Some p"
  "RunPayload_of (RunPayload_js q) = Some q"
  "WaivedPayload_of (WaivedPayload_js w) = Some w"
  by (simp_all add: EvidenceLinkedPayload_of_def EvidenceLinkedPayload_js_def RunPayload_of_def
      RunPayload_js_def WaivedPayload_of_def WaivedPayload_js_def)

section \<open>Blockers\<close>

datatype blocker_kind = BDecision | BDependency

datatype resolution_rule = LinkedDone | LinkedAccepted | ManualRule

datatype blocker_scope = Intra | Extra

record blocker_state =
  blk_id :: ulid
  blk_targetId :: ulid
  blk_kind :: blocker_kind
  blk_ref :: "ulid option"
  blk_reason :: string
  blk_resolutionRule :: "resolution_rule option"
  blk_owner :: "actor_id option"
  blk_scope :: "blocker_scope option"
  blk_engagementRef :: "string option"
  blk_openedAt :: string
  blk_resolvedAt :: "string option"
  blk_resolvedByEvent :: bool
  blk_open :: bool

record blocker_opened_payload =
  bop_blockerId :: ulid
  bop_targetId :: ulid
  bop_kind :: blocker_kind
  bop_ref :: "ulid option"
  bop_reason :: string
  bop_resolutionRule :: "resolution_rule option"
  bop_owner :: "actor_id option"
  bop_scope :: "blocker_scope option"
  bop_engagementRef :: "string option"

definition blocker_kinds :: "(string \<times> blocker_kind) list" where
  "blocker_kinds = [(''decision'', BDecision), (''dependency'', BDependency)]"

fun blocker_kind_js :: "blocker_kind \<Rightarrow> js" where
  "blocker_kind_js BDecision = Str ''decision''"
| "blocker_kind_js BDependency = Str ''dependency''"

definition resolution_rules :: "(string \<times> resolution_rule) list" where
  "resolution_rules = [(''linked-done'', LinkedDone), (''linked-accepted'', LinkedAccepted), (''manual'', ManualRule)]"

fun resolution_rule_js :: "resolution_rule \<Rightarrow> js" where
  "resolution_rule_js LinkedDone = Str ''linked-done''"
| "resolution_rule_js LinkedAccepted = Str ''linked-accepted''"
| "resolution_rule_js ManualRule = Str ''manual''"

definition blocker_scopes :: "(string \<times> blocker_scope) list" where
  "blocker_scopes = [(''intra'', Intra), (''extra'', Extra)]"

fun blocker_scope_js :: "blocker_scope \<Rightarrow> js" where
  "blocker_scope_js Intra = Str ''intra''"
| "blocker_scope_js Extra = Str ''extra''"

lemma blocker_enums [simp, codec_simps]:
  shows "enum_of blocker_kinds (blocker_kind_js k) = Some k"
    and "enum_of resolution_rules (resolution_rule_js r) = Some r"
    and "enum_of blocker_scopes (blocker_scope_js s) = Some s"
    and "resolution_rule_js r \<noteq> Undef" and "blocker_scope_js s \<noteq> Undef"
  subgoal by (cases k) (simp_all add: enum_of_def blocker_kinds_def)
  subgoal by (cases r) (simp_all add: enum_of_def resolution_rules_def)
  subgoal by (cases s) (simp_all add: enum_of_def blocker_scopes_def)
  subgoal by (cases r) simp_all
  subgoal by (cases s) simp_all
  done

definition BlockerOpenedPayload_js :: "blocker_opened_payload \<Rightarrow> js" where
  "BlockerOpenedPayload_js p = obj [
     (''blockerId'', Some (Str (bop_blockerId p))),
     (''targetId'', Some (Str (bop_targetId p))),
     (''kind'', Some (blocker_kind_js (bop_kind p))),
     (''ref'', map_option Str (bop_ref p)),
     (''reason'', Some (Str (bop_reason p))),
     (''resolutionRule'', map_option resolution_rule_js (bop_resolutionRule p)),
     (''owner'', map_option Str (bop_owner p)),
     (''scope'', map_option blocker_scope_js (bop_scope p)),
     (''engagementRef'', map_option Str (bop_engagementRef p))]"

definition BlockerOpenedPayload_of :: "js \<Rightarrow> blocker_opened_payload option" where
  "BlockerOpenedPayload_of v = do {
     b \<leftarrow> str_of (js_prop v ''blockerId'');
     t \<leftarrow> str_of (js_prop v ''targetId'');
     k \<leftarrow> enum_of blocker_kinds (js_prop v ''kind'');
     r \<leftarrow> opt str_of (js_prop v ''ref'');
     re \<leftarrow> str_of (js_prop v ''reason'');
     ru \<leftarrow> opt (enum_of resolution_rules) (js_prop v ''resolutionRule'');
     w \<leftarrow> opt str_of (js_prop v ''owner'');
     s \<leftarrow> opt (enum_of blocker_scopes) (js_prop v ''scope'');
     e \<leftarrow> opt str_of (js_prop v ''engagementRef'');
     Some \<lparr>bop_blockerId = b, bop_targetId = t, bop_kind = k, bop_ref = r, bop_reason = re,
       bop_resolutionRule = ru, bop_owner = w, bop_scope = s, bop_engagementRef = e\<rparr> }"

lemma BlockerOpenedPayload_round_trip [simp, codec_simps]:
  "BlockerOpenedPayload_of (BlockerOpenedPayload_js p) = Some p"
  by (cases p) (simp add: BlockerOpenedPayload_js_def BlockerOpenedPayload_of_def opt_given)

definition assertManualResolve :: "blocker_state \<Rightarrow> error + unit" where
  "assertManualResolve b =
     (if blk_kind b = BDecision
      then Inl (DomainError ''cannot manually resolve a decision blocker; it resolves on the decision outcome'')
      else if blk_resolutionRule b \<noteq> Some ManualRule
      then Inl (DomainError ''cannot manually resolve a dependency blocker with an automatic rule'')
      else Inr ())"

lemma assertManualResolve_Inr [simp]:
  "assertManualResolve b = Inr u \<longleftrightarrow> blk_kind b = BDependency \<and> blk_resolutionRule b = Some ManualRule"
  by (cases "blk_kind b") (simp_all add: assertManualResolve_def)

section \<open>Path verdicts\<close>

datatype verdict = Clean | Violation | Conditional

definition VERDICTS :: "(string \<times> verdict) list" where
  "VERDICTS = [(''clean'', Clean), (''violation'', Violation), (''conditional'', Conditional)]"

fun verdict_js :: "verdict \<Rightarrow> js" where
  "verdict_js Clean = Str ''clean''"
| "verdict_js Violation = Str ''violation''"
| "verdict_js Conditional = Str ''conditional''"

lemma verdict_round_trip [simp, codec_simps]: "enum_of VERDICTS (verdict_js d) = Some d"
  by (cases d) (simp_all add: enum_of_def VERDICTS_def)

record verification_payload =
  vrp_runId :: string
  vrp_runner :: string
  vrp_commit :: string
  vrp_env :: "string option"
  vrp_verdict :: verdict
  vrp_wpRef :: "ulid option"
  vrp_violations :: "string list option"
  vrp_artifactLocator :: "string option"

record verification_run = verification_payload +
  vr_at :: string

definition assertVerificationRun :: "js \<Rightarrow> error + verification_payload" where
  "assertVerificationRun a =
     (if \<not> is_object a then Inl (DomainError ''scope.verification: a verification run must be an object'')
      else if \<not> nonEmptyString (js_prop a ''runId'')
      then Inl (DomainError ''scope.verification: requires a runId'')
      else if \<not> nonEmptyString (js_prop a ''runner'')
      then Inl (DomainError ''scope.verification: requires a runner'')
      else if \<not> nonEmptyString (js_prop a ''commit'')
      then Inl (DomainError ''scope.verification: requires a commit'')
      else case enum_of VERDICTS (js_prop a ''verdict'') of
        None \<Rightarrow> Inl (DomainError ''scope.verification: verdict must be one of clean|violation|conditional'')
      | Some d \<Rightarrow>
      check [(js_prop a ''env'' = Undef \<or> isString (js_prop a ''env''),
              ''scope.verification: env must be a string''),
             (js_prop a ''wpRef'' = Undef \<or> nonEmptyString (js_prop a ''wpRef''),
              ''scope.verification: wpRef must be a non-empty item id''),
             (js_prop a ''violations'' = Undef \<or> isStringArray (js_prop a ''violations''),
              ''scope.verification: violations must be a string[]''),
             (js_prop a ''artifactLocator'' = Undef \<or> nonEmptyString (js_prop a ''artifactLocator''),
              ''scope.verification: artifactLocator must be a non-empty string'')]
        \<lparr>vrp_runId = js_str (js_prop a ''runId''), vrp_runner = js_str (js_prop a ''runner''),
         vrp_commit = js_str (js_prop a ''commit''), vrp_env = optional js_str (js_prop a ''env''),
         vrp_verdict = d, vrp_wpRef = optional js_str (js_prop a ''wpRef''),
         vrp_violations = optional js_strs (js_prop a ''violations''),
         vrp_artifactLocator = optional js_str (js_prop a ''artifactLocator'')\<rparr>)"

definition VerificationPayload_js :: "verification_payload \<Rightarrow> js" where
  "VerificationPayload_js p = obj [
     (''runId'', Some (Str (vrp_runId p))),
     (''runner'', Some (Str (vrp_runner p))),
     (''commit'', Some (Str (vrp_commit p))),
     (''verdict'', Some (verdict_js (vrp_verdict p))),
     (''env'', map_option Str (vrp_env p)),
     (''wpRef'', map_option Str (vrp_wpRef p)),
     (''violations'', map_option strs (vrp_violations p)),
     (''artifactLocator'', map_option Str (vrp_artifactLocator p))]"

definition VerificationPayload_of :: "js \<Rightarrow> verification_payload option" where
  "VerificationPayload_of v = do {
     i \<leftarrow> str_of (js_prop v ''runId'');
     r \<leftarrow> str_of (js_prop v ''runner'');
     c \<leftarrow> str_of (js_prop v ''commit'');
     d \<leftarrow> enum_of VERDICTS (js_prop v ''verdict'');
     e \<leftarrow> opt str_of (js_prop v ''env'');
     w \<leftarrow> opt str_of (js_prop v ''wpRef'');
     x \<leftarrow> opt (list_of str_of) (js_prop v ''violations'');
     l \<leftarrow> opt str_of (js_prop v ''artifactLocator'');
     Some \<lparr>vrp_runId = i, vrp_runner = r, vrp_commit = c, vrp_env = e, vrp_verdict = d, vrp_wpRef = w,
       vrp_violations = x, vrp_artifactLocator = l\<rparr> }"

lemma VerificationPayload_round_trip [simp, codec_simps]:
  "VerificationPayload_of (VerificationPayload_js p) = Some p"
  by (cases p) (simp add: VerificationPayload_js_def VerificationPayload_of_def opt_given)

section \<open>Specification amendments\<close>

record spec_amend_payload =
  sap_itemId :: ulid
  sap_decisionId :: "ulid option"
  sap_liveDocRef :: "string option"
  sap_baseHash :: string
  sap_patch :: "js list"
  sap_resultHash :: string
  sap_proposalRef :: "string option"
  sap_summary :: "string option"

record spec_amendment = spec_amend_payload +
  sa_at :: string

fun assert_patch :: "js list \<Rightarrow> error + js list" where
  "assert_patch [] = Inr []"
| "assert_patch (op # ops) =
     (if \<not> is_object op then Inl (DomainError ''item.spec-amend: patch entry must be an object'')
      else if \<not> nonEmptyString (js_prop op ''op'')
      then Inl (DomainError ''item.spec-amend: patch entry op is required'')
      else if \<not> isString (js_prop op ''path'')
      then Inl (DomainError ''item.spec-amend: patch entry path must be a string'')
      else bindR (assert_patch ops) (\<lambda>rest. Inr (op # rest)))"

definition assertSpecAmend :: "js \<Rightarrow> error + spec_amend_payload" where
  "assertSpecAmend a =
     (if \<not> is_object a then Inl (DomainError ''item.spec-amend: an amendment must be an object'')
      else if \<not> nonEmptyString (js_prop a ''itemId'')
      then Inl (DomainError ''item.spec-amend: requires an itemId'')
      else if \<not> nonEmptyString (js_prop a ''baseHash'')
      then Inl (DomainError ''item.spec-amend: requires a baseHash'')
      else if \<not> nonEmptyString (js_prop a ''resultHash'')
      then Inl (DomainError ''item.spec-amend: requires a resultHash'')
      else case js_prop a ''patch'' of
        Arr ops \<Rightarrow> bindR (assert_patch ops) (\<lambda>patch.
          case find (\<lambda>key. js_prop a key \<noteq> Undef \<and> \<not> isString (js_prop a key))
                 [''decisionId'', ''liveDocRef'', ''proposalRef'', ''summary''] of
            Some key \<Rightarrow> Inl (DomainError (''item.spec-amend: '' @ key @ '' must be a string''))
          | None \<Rightarrow>
              Inr \<lparr>sap_itemId = js_str (js_prop a ''itemId''),
                   sap_decisionId = optional js_str (js_prop a ''decisionId''),
                   sap_liveDocRef = optional js_str (js_prop a ''liveDocRef''),
                   sap_baseHash = js_str (js_prop a ''baseHash''), sap_patch = patch,
                   sap_resultHash = js_str (js_prop a ''resultHash''),
                   sap_proposalRef = optional js_str (js_prop a ''proposalRef''),
                   sap_summary = optional js_str (js_prop a ''summary'')\<rparr>)
      | _ \<Rightarrow> Inl (DomainError ''item.spec-amend: patch must be a JsonPatch array''))"

definition SpecAmendPayload_js :: "spec_amend_payload \<Rightarrow> js" where
  "SpecAmendPayload_js p = obj [
     (''itemId'', Some (Str (sap_itemId p))),
     (''baseHash'', Some (Str (sap_baseHash p))),
     (''patch'', Some (Arr (sap_patch p))),
     (''resultHash'', Some (Str (sap_resultHash p))),
     (''decisionId'', map_option Str (sap_decisionId p)),
     (''liveDocRef'', map_option Str (sap_liveDocRef p)),
     (''proposalRef'', map_option Str (sap_proposalRef p)),
     (''summary'', map_option Str (sap_summary p))]"

fun arr_of :: "js \<Rightarrow> js list option" where
  "arr_of (Arr xs) = Some xs"
| "arr_of _ = None"

definition SpecAmendPayload_of :: "js \<Rightarrow> spec_amend_payload option" where
  "SpecAmendPayload_of v = do {
     i \<leftarrow> str_of (js_prop v ''itemId'');
     b \<leftarrow> str_of (js_prop v ''baseHash'');
     p \<leftarrow> arr_of (js_prop v ''patch'');
     r \<leftarrow> str_of (js_prop v ''resultHash'');
     d \<leftarrow> opt str_of (js_prop v ''decisionId'');
     l \<leftarrow> opt str_of (js_prop v ''liveDocRef'');
     q \<leftarrow> opt str_of (js_prop v ''proposalRef'');
     s \<leftarrow> opt str_of (js_prop v ''summary'');
     Some \<lparr>sap_itemId = i, sap_decisionId = d, sap_liveDocRef = l, sap_baseHash = b, sap_patch = p,
       sap_resultHash = r, sap_proposalRef = q, sap_summary = s\<rparr> }"

lemma SpecAmendPayload_round_trip [simp, codec_simps]:
  "SpecAmendPayload_of (SpecAmendPayload_js p) = Some p"
  by (cases p) (simp add: SpecAmendPayload_js_def SpecAmendPayload_of_def opt_given)

lemma assert_patch_Inr:
  "assert_patch ops = Inr ops' \<longleftrightarrow> ops' = ops \<and>
     (\<forall>op \<in> set ops. is_object op \<and> nonEmptyString (js_prop op ''op'') \<and> isString (js_prop op ''path''))"
  by (induction ops arbitrary: ops') (auto simp: bindR_eq_Inr)

section \<open>Properties\<close>

lemma optional_str_same: "v = Undef \<or> isString v \<Longrightarrow> given (map_option Str (optional js_str v)) Undef = v"
  by (auto simp: optional_def isString_iff)

lemma optional_nonEmpty_same: "v = Undef \<or> nonEmptyString v \<Longrightarrow> given (map_option Str (optional js_str v)) Undef = v"
  by (auto simp: optional_def nonEmptyString_iff)

lemma optional_strs_same:
  "v = Undef \<or> isStringArray v \<Longrightarrow> given (map_option strs (optional js_strs v)) Undef = v"
  by (auto simp: optional_def isStringArray_iff)

lemma nonEmptyString_same: "nonEmptyString v \<Longrightarrow> Str (js_str v) = v"
  by (auto simp: nonEmptyString_iff)

text \<open>The path-verdict validator is a fixed point and total on well-typed runs: what it returns,
  written as the payload of its event, is accepted again and reads back as the same run.\<close>

theorem verification_run_fixed:
  assumes "assertVerificationRun v = Inr p"
  shows "assertVerificationRun (VerificationPayload_js p) = Inr p \<and>
    VerificationPayload_of (VerificationPayload_js p) = Some p"
proof -
  let ?w = "VerificationPayload_js p"
  have obj: "is_object ?w" by (simp add: VerificationPayload_js_def)
  from assms have same: "js_prop ?w ''runId'' = js_prop v ''runId''" "js_prop ?w ''runner'' = js_prop v ''runner''"
      "js_prop ?w ''commit'' = js_prop v ''commit''" "js_prop ?w ''env'' = js_prop v ''env''"
      "js_prop ?w ''wpRef'' = js_prop v ''wpRef''" "js_prop ?w ''violations'' = js_prop v ''violations''"
      "js_prop ?w ''artifactLocator'' = js_prop v ''artifactLocator''"
      "enum_of VERDICTS (js_prop ?w ''verdict'') = enum_of VERDICTS (js_prop v ''verdict'')"
    and vobj: "is_object v"
    by (auto simp: assertVerificationRun_def VerificationPayload_js_def if_Inl_Inr optional_str_same
        optional_nonEmpty_same optional_strs_same nonEmptyString_same simp del: check.simps split: option.splits)
  have "assertVerificationRun ?w = assertVerificationRun v"
    by (simp only: assertVerificationRun_def same obj vobj)
  with assms show ?thesis by simp
qed

theorem verification_run_fixed_witness:
  "assertVerificationRun (VerificationPayload_js \<lparr>vrp_runId = ''r1'', vrp_runner = ''ci'', vrp_commit = ''abc'',
      vrp_env = None, vrp_verdict = Violation, vrp_wpRef = Some ''wp1'', vrp_violations = Some [''a.ts''],
      vrp_artifactLocator = None\<rparr>) =
    Inr \<lparr>vrp_runId = ''r1'', vrp_runner = ''ci'', vrp_commit = ''abc'',
      vrp_env = None, vrp_verdict = Violation, vrp_wpRef = Some ''wp1'', vrp_violations = Some [''a.ts''],
      vrp_artifactLocator = None\<rparr>"
proof -
  let ?v = "obj [(''runId'', Some (Str ''r1'')), (''runner'', Some (Str ''ci'')), (''commit'', Some (Str ''abc'')),
      (''verdict'', Some (Str ''violation'')), (''wpRef'', Some (Str ''wp1'')), (''extra'', Some Null),
      (''violations'', Some (strs [''a.ts'']))]"
  have "assertVerificationRun ?v = Inr \<lparr>vrp_runId = ''r1'', vrp_runner = ''ci'', vrp_commit = ''abc'',
      vrp_env = None, vrp_verdict = Violation, vrp_wpRef = Some ''wp1'', vrp_violations = Some [''a.ts''],
      vrp_artifactLocator = None\<rparr>"
    by (simp add: assertVerificationRun_def nonEmptyString_def enum_of_def VERDICTS_def optional_def isStringArray_iff)
  from verification_run_fixed[OF this] show ?thesis by simp
qed

end
