(* ===== verification/Report_Status.thy ===== *)
theory Report_Status
  imports Codec
begin

text \<open>
  \<open>packages/track/src/model/report-status.ts\<close>: the neutral stage codes, the tolerant reading of
  stored report assertions, and the validator of a new report assertion. Reports stay untyped
  values: they are display data that the state keeps as recorded.
\<close>

section \<open>Stages\<close>

definition REPORT_STAGES :: "string list" where
  "REPORT_STAGES = [''spec'', ''dev'', ''pr'', ''review'', ''merged'', ''published'', ''deployed'']"

definition WRITABLE_REPORT_STAGES :: "string list" where
  "WRITABLE_REPORT_STAGES = [''spec'', ''dev'', ''pr'', ''merged'', ''deployed'']"

definition REPORT_STATUSES :: "string list" where
  "REPORT_STATUSES = [''progressing'', ''unforeseen'', ''blocked'', ''decision-awaited'', ''not-qualified'',
     ''withdrawn'']"

definition LEGACY_STAGE_ALIASES :: "(string \<times> string) list" where
  "LEGACY_STAGE_ALIASES =
     [(''PR'', ''pr''),
      (''merg'' @ [CHR 0xE9], ''merged''),
      (''d'' @ [CHR 0xE9] @ ''ploy'' @ [CHR 0xE9], ''deployed''),
      (''revue'', ''review''),
      (''en revue'', ''review''),
      (''publi'' @ [CHR 0xE9], ''published''),
      (''publication'', ''published'')]"

text \<open>
  The alias table is an object literal, so a computed read also finds the members it inherits
  from \<open>Object.prototype\<close>.
\<close>

definition object_prototype_methods :: "string list" where
  "object_prototype_methods = [''constructor'', ''toString'', ''toLocaleString'', ''valueOf'',
     ''hasOwnProperty'', ''isPrototypeOf'', ''propertyIsEnumerable'', ''__defineGetter__'',
     ''__defineSetter__'', ''__lookupGetter__'', ''__lookupSetter__'']"

definition legacy_alias :: "string \<Rightarrow> js" where
  "legacy_alias s =
     (case map_of LEGACY_STAGE_ALIASES s of
        Some c \<Rightarrow> Str c
      | None \<Rightarrow> if s \<in> set object_prototype_methods then Func
                else if s = ''__proto__'' then Obj NullProto [] else Undef)"

definition normalizeReportStage :: "js \<Rightarrow> js" where
  "normalizeReportStage v =
     (case v of
        Str s \<Rightarrow> if s \<in> set REPORT_STAGES then Str s else legacy_alias s
      | _ \<Rightarrow> Undef)"

fun without :: "string \<Rightarrow> js \<Rightarrow> js" where
  "without k (Obj p fs) = Obj ObjectProto (filter (\<lambda>(k', _). k' \<noteq> k) fs)"
| "without k v = v"

fun spread :: "js \<Rightarrow> js" where
  "spread (Obj p fs) = Obj ObjectProto fs"
| "spread v = v"

definition normalizeStoredReport :: "js \<Rightarrow> js" where
  "normalizeStoredReport v =
     (let stored = js_prop v ''stage'' in
      case stored of
        Obj p fs \<Rightarrow>
          (let normalized = normalizeReportStage (js_prop stored ''value'') in
           if normalized = Undef then without ''stage'' v
           else js_with ''stage'' (js_with ''value'' normalized stored) v)
      | Arr xs \<Rightarrow> without ''stage'' v
      | _ \<Rightarrow> spread v)"

section \<open>Validation of a new report\<close>

fun js_keys :: "js \<Rightarrow> string list" where
  "js_keys (Obj p fs) = map fst fs"
| "js_keys _ = []"

definition keys_within :: "string list \<Rightarrow> js \<Rightarrow> bool" where
  "keys_within allowed' v \<longleftrightarrow> set (js_keys v) \<subseteq> set allowed'"

text \<open>\<open>s.split(/\s+/u).length\<close>: one more than the runs of white space.\<close>

fun space_runs :: "bool \<Rightarrow> string \<Rightarrow> nat" where
  "space_runs inrun [] = 0"
| "space_runs inrun (c # s) =
     (if js_space c then (if inrun then 0 else 1) + space_runs True s else space_runs False s)"

definition word_count :: "string \<Rightarrow> nat" where
  "word_count s = Suc (space_runs False s)"

fun join_spaces :: "string list \<Rightarrow> string" where
  "join_spaces [] = []"
| "join_spaces [x] = x"
| "join_spaces (x # y # xs) = x @ CHR '' '' # join_spaces (y # xs)"

fun assert_expectation_options :: "js list \<Rightarrow> error + unit" where
  "assert_expectation_options [] = Inr ()"
| "assert_expectation_options (o' # os) =
     (if \<not> is_object o' then Inl (DomainError ''item report-set: invalid option'')
      else if \<not> keys_within [''label'', ''consequence''] o'
      then Inl (DomainError ''item report-set: unknown field'')
      else if \<not> nonBlankString (js_prop o' ''label'') \<or> \<not> nonBlankString (js_prop o' ''consequence'')
      then Inl (DomainError ''item report-set: option label and consequence are required'')
      else assert_expectation_options os)"

definition assertDecisionExpectations :: "js \<Rightarrow> error + unit" where
  "assertDecisionExpectations v =
     (if \<not> is_object v then Inl (DomainError ''item report-set: decisionExpectations must be an object'')
      else if \<not> keys_within [''question'', ''options'', ''dossier'', ''readingMinutes''] v
      then Inl (DomainError ''item report-set: unknown field'')
      else if \<not> nonBlankString (js_prop v ''question'') \<or> \<not> nonBlankString (js_prop v ''dossier'')
      then Inl (DomainError ''item report-set: question and dossier are required'')
      else if (case js_prop v ''readingMinutes'' of Num (Fin q) \<Rightarrow> q \<le> 0 \<or> q > 2 | _ \<Rightarrow> True)
      then Inl (DomainError ''item report-set: readingMinutes must be > 0 and <= 2'')
      else case js_prop v ''options'' of
        Arr os \<Rightarrow>
          if length os < 2
          then Inl (DomainError ''item report-set: at least two options with consequences are required'')
          else bindR (assert_expectation_options os) (\<lambda>_.
            let labels = map (\<lambda>o'. js_str (js_prop o' ''label'')) os in
            if card (set labels) \<noteq> length os
            then Inl (DomainError ''item report-set: option labels must be distinct'')
            else if word_count (join_spaces (js_str (js_prop v ''question'') #
                      concat (map (\<lambda>o'. [js_str (js_prop o' ''label''), js_str (js_prop o' ''consequence'')]) os))) > 400
            then Inl (DomainError ''item report-set: decision summary exceeds 400 words (two minutes)'')
            else Inr ())
      | _ \<Rightarrow> Inl (DomainError ''item report-set: at least two options with consequences are required''))"

datatype grammar = Read | Write

definition stage_grammar :: "grammar \<Rightarrow> string list" where
  "stage_grammar g = (case g of Read \<Rightarrow> REPORT_STAGES | Write \<Rightarrow> WRITABLE_REPORT_STAGES)"

definition evidence_stages :: "grammar \<Rightarrow> string list" where
  "evidence_stages g = (case g of
     Read \<Rightarrow> [''pr'', ''review'', ''merged'', ''published'', ''deployed'']
   | Write \<Rightarrow> [''pr'', ''merged'', ''deployed''])"

definition assert_stage :: "grammar \<Rightarrow> js \<Rightarrow> error + unit" where
  "assert_stage g stage =
     (if stage = Undef then Inr ()
      else if \<not> is_object stage then Inl (DomainError ''item report-set: stage must be an object'')
      else if \<not> keys_within [''value'', ''evidence''] stage
      then Inl (DomainError ''item report-set: unknown field'')
      else if \<not> (isString (js_prop stage ''value'') \<and> js_str (js_prop stage ''value'') \<in> set (stage_grammar g))
      then Inl (DomainError ''item report-set: invalid stage'')
      else if js_prop stage ''evidence'' \<noteq> Undef \<and> \<not> nonBlankString (js_prop stage ''evidence'')
      then Inl (DomainError ''item report-set: stage evidence must be non-empty'')
      else if js_str (js_prop stage ''value'') \<in> set (evidence_stages g) \<and>
           \<not> nonBlankString (js_prop stage ''evidence'')
      then Inl (DomainError ''item report-set: the stage requires evidence'')
      else Inr ())"

definition assertItemReportStatus :: "grammar \<Rightarrow> js \<Rightarrow> error + unit" where
  "assertItemReportStatus g v =
     (if \<not> is_object v then Inl (DomainError ''item report-set: report must be an object'')
      else if \<not> keys_within [''ownerRequest'', ''stage'', ''status'', ''proposal'', ''decisionExpectations'',
             ''facts'', ''nextAction'', ''waitingOn'', ''suspended''] v
      then Inl (DomainError ''item report-set: unknown field'')
      else case find (\<lambda>key. js_prop v key \<noteq> Undef \<and> \<not> nonBlankString (js_prop v key))
             [''ownerRequest'', ''proposal'', ''facts'', ''nextAction'', ''waitingOn'', ''suspended''] of
        Some key \<Rightarrow> Inl (DomainError (''item report-set: '' @ key @ '' must be a non-empty string''))
      | None \<Rightarrow>
      if js_prop v ''status'' \<noteq> Undef \<and>
         \<not> (isString (js_prop v ''status'') \<and> js_str (js_prop v ''status'') \<in> set REPORT_STATUSES)
      then Inl (DomainError ''item report-set: invalid status'')
      else bindR (assert_stage g (js_prop v ''stage'')) (\<lambda>_.
      if js_prop v ''decisionExpectations'' = Undef then Inr ()
      else assertDecisionExpectations (js_prop v ''decisionExpectations'')))"

section \<open>Lemmas\<close>

lemma stage_write_read: "s \<in> set (stage_grammar Write) \<Longrightarrow> s \<in> set (stage_grammar Read)"
  by (auto simp: stage_grammar_def WRITABLE_REPORT_STAGES_def REPORT_STAGES_def)

lemma evidence_write_read:
  "s \<in> set (stage_grammar Write) \<Longrightarrow> s \<in> set (evidence_stages Read) \<longleftrightarrow> s \<in> set (evidence_stages Write)"
  by (auto simp: stage_grammar_def evidence_stages_def WRITABLE_REPORT_STAGES_def)

lemma assert_stage_read: "assert_stage Write v = Inr u \<Longrightarrow> assert_stage Read v = Inr u"
  by (auto simp: assert_stage_def stage_write_read evidence_write_read split: if_splits)

lemma normalizeReportStage_code: "s \<in> set REPORT_STAGES \<Longrightarrow> normalizeReportStage (Str s) = Str s"
  by (simp add: normalizeReportStage_def)

lemma legacy_targets: "map_of LEGACY_STAGE_ALIASES s = Some c \<Longrightarrow> c \<in> set REPORT_STAGES"
  by (auto simp: LEGACY_STAGE_ALIASES_def REPORT_STAGES_def split: if_splits)

section \<open>Properties\<close>

lemma assert_stage_value:
  "assert_stage Write v = Inr u \<Longrightarrow> v = Undef \<or>
     is_object v \<and> (\<exists>s \<in> set WRITABLE_REPORT_STAGES. js_prop v ''value'' = Str s)"
  by (auto simp: assert_stage_def stage_grammar_def isString_iff split: if_splits)

lemma js_with_same: "is_object v \<Longrightarrow> js_prop v k = w \<Longrightarrow> w \<noteq> Undef \<Longrightarrow> js_with k w v = spread v"
proof (cases v)
  case (Obj p fs)
  assume w: "js_prop v k = w" "w \<noteq> Undef"
  then have "map_of fs k = Some w" using Obj by (auto simp: js_prop_def split: option.splits)
  then have "AList.update k w fs = fs" by (induction fs) (auto split: if_splits)
  then show ?thesis using Obj by (simp add: js_with_def)
qed (simp_all add: is_object_def)

text \<open>New reports read back: a report the write grammar accepts is accepted by the read grammar, and
  the tolerant reading of stored reports keeps every member of it; only its stage is copied.\<close>

theorem written_report_reads_back:
  assumes "assertItemReportStatus Write v = Inr u"
  shows "assertItemReportStatus Read v = Inr () \<and>
    (k \<noteq> ''stage'' \<longrightarrow> js_prop (normalizeStoredReport v) k = js_prop v k) \<and>
    js_prop (normalizeStoredReport v) ''stage'' =
      (if js_prop v ''stage'' = Undef then Undef else spread (js_prop v ''stage''))"
proof -
  from assms have obj: "is_object v" and st: "assert_stage Write (js_prop v ''stage'') = Inr ()"
    by (auto simp: assertItemReportStatus_def bindR_eq_Inr split: if_splits option.splits)
  have "assertItemReportStatus Read v = assertItemReportStatus Write v"
    unfolding assertItemReportStatus_def st assert_stage_read[OF st] by (rule refl)
  with assms have r: "assertItemReportStatus Read v = Inr ()" by simp
  show ?thesis
  proof (cases "js_prop v ''stage'' = Undef")
    case True
    with obj have "normalizeStoredReport v = spread v" by (simp add: normalizeStoredReport_def)
    moreover have "js_prop (spread v) k' = js_prop v k'" for k'
      by (cases v) (simp_all add: js_prop_def)
    ultimately show ?thesis using r True by simp
  next
    case False
    with assert_stage_value[OF st] obtain s where so: "is_object (js_prop v ''stage'')"
      and s: "s \<in> set WRITABLE_REPORT_STAGES" "js_prop (js_prop v ''stage'') ''value'' = Str s"
      by blast
    then have code: "normalizeReportStage (Str s) = Str s"
      by (intro normalizeReportStage_code) (auto simp: WRITABLE_REPORT_STAGES_def REPORT_STAGES_def)
    have "normalizeStoredReport v = js_with ''stage'' (spread (js_prop v ''stage'')) v"
      using so s code js_with_same[OF so s(2)]
      by (cases "js_prop v ''stage''") (simp_all add: normalizeStoredReport_def is_object_def)
    with r obj False show ?thesis by (simp add: js_prop_js_with)
  qed
qed

theorem written_report_reads_back_witness:
  "assertItemReportStatus Read (obj [(''stage'', Some (obj [(''value'', Some (Str ''pr'')),
        (''evidence'', Some (Str ''#12''))])), (''facts'', Some (Str ''ok''))]) = Inr ()"
proof -
  have "assertItemReportStatus Write (obj [(''stage'', Some (obj [(''value'', Some (Str ''pr'')),
        (''evidence'', Some (Str ''#12''))])), (''facts'', Some (Str ''ok''))]) = Inr ()"
    by (simp add: assertItemReportStatus_def assert_stage_def stage_grammar_def WRITABLE_REPORT_STAGES_def
        evidence_stages_def keys_within_def obj_def js_prop_def map_filter_simps is_object_def nonBlankString_def
        js_trim_def js_space_def isString_def)
  from written_report_reads_back[OF this] show ?thesis by simp
qed

end
