(* ===== verification/Fold.thy ===== *)
theory Fold
  imports Integrity Decision Demand Evidence Report_Status
begin

text \<open>
  \<open>packages/track/src/state/fold.ts\<close>: the materialised state and its replay from the event log,
  one definition per event type in the order of the source's switch. A payload is read through the
  cast of its interface; an event whose payload does not have its declared type leaves the state
  as it is (the source would store the ill-typed value).
\<close>

section \<open>The state\<close>

record state =
  st_items :: "(ulid, item_state) jmap"
  st_decisions :: "(ulid, decision_state) jmap"
  st_blockers :: "(ulid, blocker_state) jmap"
  st_criteria :: "(string, criterion_state) jmap"
  st_evidence :: "(string, evidence_state) jmap"
  st_verificationRuns :: "(string, verification_run) jmap"
  st_specAmendments :: "(ulid, spec_amendment list) jmap"
  st_demands :: "(ulid, demand_state) jmap"

definition emptyState :: state where
  "emptyState = \<lparr>st_items = [], st_decisions = [], st_blockers = [], st_criteria = [], st_evidence = [],
     st_verificationRuns = [], st_specAmendments = [], st_demands = []\<rparr>"

definition on_item :: "ulid \<Rightarrow> (item_state \<Rightarrow> item_state) \<Rightarrow> state \<Rightarrow> state" where
  "on_item i f st = st\<lparr>st_items := jmodify i f (st_items st)\<rparr>"

definition on_decision :: "ulid \<Rightarrow> (decision_state \<Rightarrow> decision_state) \<Rightarrow> state \<Rightarrow> state" where
  "on_decision i f st = st\<lparr>st_decisions := jmodify i f (st_decisions st)\<rparr>"

definition on_demand :: "ulid \<Rightarrow> (demand_state \<Rightarrow> demand_state) \<Rightarrow> state \<Rightarrow> state" where
  "on_demand i f st = st\<lparr>st_demands := jmodify i f (st_demands st)\<rparr>"

text \<open>A cast that succeeds is applied, one that fails leaves the state.\<close>

definition cast :: "'a option \<Rightarrow> ('a \<Rightarrow> state \<Rightarrow> state) \<Rightarrow> state \<Rightarrow> state" where
  "cast x f st = (case x of None \<Rightarrow> st | Some y \<Rightarrow> f y st)"

lemma cast_simps [simp]: "cast (Some y) f st = f y st" "cast None f st = st"
  by (simp_all add: cast_def)

section \<open>Items\<close>

definition applyItemRaci :: "item_raci_update \<Rightarrow> item_state \<Rightarrow> item_state" where
  "applyItemRaci u item =
     item\<lparr>item_accountable := (case raci_accountable u of None \<Rightarrow> item_accountable item | Some a \<Rightarrow> Some a),
          item_responsible := (case raci_responsible u of None \<Rightarrow> item_responsible item | Some r \<Rightarrow> Some r)\<rparr>"

definition apply_report_updated :: "track_event \<Rightarrow> state \<Rightarrow> state" where
  "apply_report_updated e =
     on_item (e_aggregateId e) (\<lambda>item. item\<lparr>item_report := Some (normalizeStoredReport (e_payload e))\<rparr>)"

definition add_link :: "link \<Rightarrow> item_state \<Rightarrow> item_state" where
  "add_link l item =
     (let links = (case item_links item of None \<Rightarrow> [] | Some ls \<Rightarrow> ls) in
      if list_ex (\<lambda>l'. link_kind l' = link_kind l \<and> link_locator l' = link_locator l \<and>
                       link_reason l' = link_reason l) links
      then item else item\<lparr>item_links := Some (links @ [l])\<rparr>)"

definition apply_link_added :: "track_event \<Rightarrow> state \<Rightarrow> state" where
  "apply_link_added e =
     cast (opt link_of (js_prop (e_payload e) ''link'')) (\<lambda>link.
       on_item (e_aggregateId e) (\<lambda>item. case link of None \<Rightarrow> item | Some l \<Rightarrow> add_link l item))"

definition new_item :: "ulid \<Rightarrow> item_created_payload \<Rightarrow> item_state" where
  "new_item i p = \<lparr>
     item_report = None,
     item_id = i,
     item_kind = icp_kind p,
     item_title = icp_title p,
     item_workspace = icp_workspace p,
     item_specStatus = (if icp_kind p = KDecision then NotApplicable else Axis ToSpecify),
     item_realization = ToDo,
     item_disposition = (\<lambda>_. DRequired),
     item_priority = None,
     item_parentId = icp_parentId p,
     item_role = icp_role p,
     item_code = None,
     item_scope = icp_scope p,
     item_sourceKey = icp_sourceKey p,
     item_body = icp_body p,
     item_links = icp_links p,
     item_accountable = icp_accountable p,
     item_responsible = icp_responsible p,
     item_engagementRef = icp_engagementRef p,
     item_realizedCommit = None,
     item_demandId = icp_demandId p,
     item_reopenings = None\<rparr>"

definition apply_item_created :: "track_event \<Rightarrow> state \<Rightarrow> state" where
  "apply_item_created e =
     cast (ItemCreatedPayload_of (e_payload e)) (\<lambda>p st.
       st\<lparr>st_items := jset (e_aggregateId e) (new_item (e_aggregateId e) p) (st_items st)\<rparr>)"

definition apply_item_reparented :: "track_event \<Rightarrow> state \<Rightarrow> state" where
  "apply_item_reparented e =
     cast (opt str_of (js_prop (e_payload e) ''parentId'')) (\<lambda>parentId.
       on_item (e_aggregateId e) (\<lambda>item. item\<lparr>item_parentId := parentId\<rparr>))"

definition apply_scope_declared :: "track_event \<Rightarrow> state \<Rightarrow> state" where
  "apply_scope_declared e =
     cast (scope_of (js_prop (e_payload e) ''scope'')) (\<lambda>scope.
       on_item (e_aggregateId e) (\<lambda>item. item\<lparr>item_scope := Some scope\<rparr>))"

definition apply_code_assigned :: "track_event \<Rightarrow> state \<Rightarrow> state" where
  "apply_code_assigned e =
     cast (str_of (js_prop (e_payload e) ''code'')) (\<lambda>code.
       on_item (e_aggregateId e) (\<lambda>item. item\<lparr>item_code := Some code\<rparr>))"

definition apply_raci_assigned :: "track_event \<Rightarrow> state \<Rightarrow> state" where
  "apply_raci_assigned e =
     cast (ItemRaciUpdate_of (e_payload e)) (\<lambda>u. on_item (e_aggregateId e) (applyItemRaci u))"

definition apply_role_changed :: "track_event \<Rightarrow> state \<Rightarrow> state" where
  "apply_role_changed e =
     cast (enum_of item_roles (js_prop (e_payload e) ''to'')) (\<lambda>to.
       on_item (e_aggregateId e) (\<lambda>item. item\<lparr>item_role := Some to\<rparr>))"

definition apply_spec_transition :: "track_event \<Rightarrow> state \<Rightarrow> state" where
  "apply_spec_transition e =
     cast (enum_of spec_statuses (js_prop (e_payload e) ''to'')) (\<lambda>to.
       on_item (e_aggregateId e) (\<lambda>item. item\<lparr>item_specStatus := Axis to\<rparr>))"

definition apply_realization_transition :: "track_event \<Rightarrow> state \<Rightarrow> state" where
  "apply_realization_transition e =
     cast (enum_of realizations (js_prop (e_payload e) ''to'')) (\<lambda>to st.
       if jhas (st_items st) (e_aggregateId e)
       then on_item (e_aggregateId e) (\<lambda>item. item\<lparr>item_realization := to\<rparr>) st
       else on_decision (e_aggregateId e) (\<lambda>d. d\<lparr>dec_realization := to\<rparr>) st)"

definition reopen_item :: "reopen_payload \<Rightarrow> track_event \<Rightarrow> item_state \<Rightarrow> item_state" where
  "reopen_item p e item =
     (if rp_itemId p \<noteq> e_aggregateId e then item
      else let from' = item_realization item in
        if from' = Done \<or> from' = Cancelled
        then item\<lparr>item_reopenings := Some ((case item_reopenings item of None \<Rightarrow> [] | Some rs \<Rightarrow> rs) @
                    [\<lparr>reopen_from = from', reopen_motive = rp_motive p, reopen_reason = rp_reason p,
                      reopen_at = e_at e, reopen_by = e_by e\<rparr>]),
                  item_realization := InProgress\<rparr>
        else item)"

definition apply_realization_reopened :: "track_event \<Rightarrow> state \<Rightarrow> state" where
  "apply_realization_reopened e =
     cast (ReopenPayload_of (e_payload e)) (\<lambda>p. on_item (e_aggregateId e) (reopen_item p e))"

definition apply_realization_anchored :: "track_event \<Rightarrow> state \<Rightarrow> state" where
  "apply_realization_anchored e =
     cast (str_of (js_prop (e_payload e) ''commit'')) (\<lambda>commit.
       on_item (e_aggregateId e) (\<lambda>item. item\<lparr>item_realizedCommit := Some commit\<rparr>))"

definition apply_priority_assessed :: "track_event \<Rightarrow> state \<Rightarrow> state" where
  "apply_priority_assessed e =
     on_item (e_aggregateId e) (\<lambda>item. item\<lparr>item_priority := Some (e_payload e)\<rparr>)"

definition apply_spec_amended :: "track_event \<Rightarrow> state \<Rightarrow> state" where
  "apply_spec_amended e =
     cast (SpecAmendPayload_of (e_payload e)) (\<lambda>p st.
       let amendment = spec_amend_payload.extend p (spec_amendment.fields (e_at e));
           list = (case jget (st_specAmendments st) (sap_itemId p) of None \<Rightarrow> [] | Some l \<Rightarrow> l) in
       st\<lparr>st_specAmendments := jset (sap_itemId p) (list @ [amendment]) (st_specAmendments st)\<rparr>)"

section \<open>Decisions\<close>

definition new_decision :: "ulid \<Rightarrow> decision_created_payload \<Rightarrow> decision_state" where
  "new_decision i p = \<lparr>
     dec_id = i,
     dec_title = dcp_title p,
     dec_workspace = dcp_workspace p,
     dec_realization = ToDo,
     dec_decisionKind = dcp_decisionKind p,
     dec_targets = dcp_targets p,
     dec_outcome = Pending,
     dec_dossier = dcp_dossier p,
     dec_parentId = dcp_parentId p,
     dec_sourceKey = dcp_sourceKey p,
     dec_body = dcp_body p,
     dec_links = dcp_links p,
     dec_accountable = dcp_accountable p,
     dec_engagementRef = dcp_engagementRef p\<rparr>"

definition apply_decision_created :: "track_event \<Rightarrow> state \<Rightarrow> state" where
  "apply_decision_created e =
     cast (DecisionCreatedPayload_of (e_payload e)) (\<lambda>p st.
       st\<lparr>st_decisions := jset (e_aggregateId e) (new_decision (e_aggregateId e) p) (st_decisions st)\<rparr>)"

definition set_disposition :: "gate \<Rightarrow> disposition \<Rightarrow> item_state \<Rightarrow> item_state" where
  "set_disposition g d item = item\<lparr>item_disposition := (item_disposition item)(g := d)\<rparr>"

definition apply_decision_outcome :: "track_event \<Rightarrow> state \<Rightarrow> state" where
  "apply_decision_outcome e =
     cast (enum_of outcomes (js_prop (e_payload e) ''to'')) (\<lambda>to st.
       case jget (st_decisions st) (e_aggregateId e) of
         None \<Rightarrow> st
       | Some decision \<Rightarrow>
           (let st' = on_decision (e_aggregateId e) (\<lambda>d. d\<lparr>dec_outcome := to\<rparr>) st in
            if isSettled to
            then fold (\<lambda>t. on_item t (set_disposition (dec_decisionKind decision) DCompleted)) (dec_targets decision) st'
            else st'))"

definition apply_decision_disposition :: "track_event \<Rightarrow> state \<Rightarrow> state" where
  "apply_decision_disposition e =
     cast (do { i \<leftarrow> str_of (js_prop (e_payload e) ''itemId'');
                g \<leftarrow> enum_of gates (js_prop (e_payload e) ''gate'');
                d \<leftarrow> enum_of dispositions (js_prop (e_payload e) ''disposition'');
                Some (i, g, d) }) (\<lambda>(i, g, d). on_item i (set_disposition g d))"

definition apply_dossier_revised :: "track_event \<Rightarrow> state \<Rightarrow> state" where
  "apply_dossier_revised e =
     on_decision (e_aggregateId e) (\<lambda>d. d\<lparr>dec_dossier := js_prop (e_payload e) ''dossier''\<rparr>)"

definition apply_option_selected :: "track_event \<Rightarrow> state \<Rightarrow> state" where
  "apply_option_selected e =
     cast (str_of (js_prop (e_payload e) ''optionId'')) (\<lambda>o'.
       on_decision (e_aggregateId e) (\<lambda>d. d\<lparr>dec_dossier := js_with ''selectedOptionId'' (Str o') (dec_dossier d)\<rparr>))"

definition append_artifact :: "js \<Rightarrow> dossier \<Rightarrow> dossier" where
  "append_artifact a dossier = js_with ''artifacts'' (Arr (js_elems (js_prop dossier ''artifacts'') @ [a])) dossier"

definition apply_artifact_added :: "track_event \<Rightarrow> state \<Rightarrow> state" where
  "apply_artifact_added e =
     on_decision (e_aggregateId e)
       (\<lambda>d. d\<lparr>dec_dossier := append_artifact (js_prop (e_payload e) ''artifact'') (dec_dossier d)\<rparr>)"

section \<open>Acceptance, evidence, blockers\<close>

definition apply_criterion_added :: "track_event \<Rightarrow> state \<Rightarrow> state" where
  "apply_criterion_added e =
     cast (do { c \<leftarrow> str_of (js_prop (e_payload e) ''criterionId'');
                s \<leftarrow> str_of (js_prop (e_payload e) ''statement''); Some (c, s) }) (\<lambda>(c, s) st.
       st\<lparr>st_criteria := jset c \<lparr>cr_id = c, cr_itemId = e_aggregateId e, cr_statement = s, cr_waiver = None\<rparr>
            (st_criteria st)\<rparr>)"

definition apply_evidence_linked :: "track_event \<Rightarrow> state \<Rightarrow> state" where
  "apply_evidence_linked e =
     cast (EvidenceLinkedPayload_of (e_payload e)) (\<lambda>p st.
       st\<lparr>st_evidence := jset (elp_evidenceId p)
            \<lparr>ev_id = elp_evidenceId p, ev_criterionId = elp_criterionId p, ev_kind = elp_kind p,
             ev_locator = elp_locator p, ev_latestRun = None, ev_originClientToken = e_clientToken e\<rparr>
            (st_evidence st)\<rparr>)"

definition apply_run :: "track_event \<Rightarrow> state \<Rightarrow> state" where
  "apply_run e =
     cast (RunPayload_of (e_payload e)) (\<lambda>p st.
       st\<lparr>st_evidence := jmodify (rnp_evidenceId p) (\<lambda>ev. ev\<lparr>ev_latestRun := Some
            \<lparr>run_evidenceId = rnp_evidenceId p, run_commit = rnp_commit p, run_env = rnp_env p,
             run_runner = rnp_runner p, run_result = rnp_result p, run_at = e_at e\<rparr>\<rparr>) (st_evidence st)\<rparr>)"

definition apply_verification_recorded :: "track_event \<Rightarrow> state \<Rightarrow> state" where
  "apply_verification_recorded e =
     cast (VerificationPayload_of (e_payload e)) (\<lambda>p st.
       st\<lparr>st_verificationRuns := jset (vrp_runId p)
            (verification_payload.extend p (verification_run.fields (e_at e))) (st_verificationRuns st)\<rparr>)"

definition apply_waived :: "track_event \<Rightarrow> state \<Rightarrow> state" where
  "apply_waived e =
     cast (WaivedPayload_of (e_payload e)) (\<lambda>p st.
       st\<lparr>st_criteria := jmodify (wvp_criterionId p) (\<lambda>c. c\<lparr>cr_waiver := Some
            \<lparr>wv_criterionId = wvp_criterionId p, wv_reason = wvp_reason p, wv_by = wvp_by p, wv_at = e_at e\<rparr>\<rparr>)
            (st_criteria st)\<rparr>)"

definition new_blocker :: "track_event \<Rightarrow> blocker_opened_payload \<Rightarrow> blocker_state" where
  "new_blocker e p = \<lparr>
     blk_id = e_aggregateId e,
     blk_targetId = bop_targetId p,
     blk_kind = bop_kind p,
     blk_ref = bop_ref p,
     blk_reason = bop_reason p,
     blk_resolutionRule = (case bop_resolutionRule p of
        Some r \<Rightarrow> Some r | None \<Rightarrow> if bop_kind p = BDependency then Some LinkedDone else None),
     blk_owner = bop_owner p,
     blk_scope = bop_scope p,
     blk_engagementRef = bop_engagementRef p,
     blk_openedAt = e_at e,
     blk_resolvedAt = None,
     blk_resolvedByEvent = False,
     blk_open = True\<rparr>"

definition apply_blocker_opened :: "track_event \<Rightarrow> state \<Rightarrow> state" where
  "apply_blocker_opened e =
     cast (BlockerOpenedPayload_of (e_payload e)) (\<lambda>p st.
       st\<lparr>st_blockers := jset (e_aggregateId e) (new_blocker e p) (st_blockers st)\<rparr>)"

definition apply_blocker_resolved :: "track_event \<Rightarrow> state \<Rightarrow> state" where
  "apply_blocker_resolved e st =
     st\<lparr>st_blockers := jmodify (e_aggregateId e)
          (\<lambda>b. b\<lparr>blk_resolvedByEvent := True, blk_resolvedAt := Some (e_at e)\<rparr>) (st_blockers st)\<rparr>"

section \<open>Demands\<close>

definition apply_demand_raised :: "track_event \<Rightarrow> state \<Rightarrow> state" where
  "apply_demand_raised e =
     cast (do { w \<leftarrow> str_of (js_prop (e_payload e) ''workspace'');
                t \<leftarrow> enum_of DEMAND_TYPES (js_prop (e_payload e) ''type'');
                r \<leftarrow> raw_of (js_prop (e_payload e) ''raw'');
                s \<leftarrow> source_of (js_prop (e_payload e) ''source'');
                k \<leftarrow> opt str_of (js_prop (e_payload e) ''sourceKey'');
                c \<leftarrow> opt concerns_of (js_prop (e_payload e) ''concerns'');
                l \<leftarrow> opt arr_of (js_prop (e_payload e) ''links'');
                Some \<lparr>dem_id = e_aggregateId e, dem_workspace = w, dem_type = t, dem_raw = r, dem_source = s,
                  dem_status = Raised, dem_itemIds = None, dem_duplicateOf = None, dem_rejectReason = None,
                  dem_parkReason = None, dem_concerns = c, dem_sourceKey = k, dem_links = l\<rparr> })
       (\<lambda>d st. st\<lparr>st_demands := jset (dem_id d) d (st_demands st)\<rparr>)"

definition apply_qualifying_started :: "track_event \<Rightarrow> state \<Rightarrow> state" where
  "apply_qualifying_started e = on_demand (e_aggregateId e) (\<lambda>d. d\<lparr>dem_status := Qualifying\<rparr>)"

definition apply_demand_agreed :: "track_event \<Rightarrow> state \<Rightarrow> state" where
  "apply_demand_agreed e =
     cast (opt (list_of str_of) (js_prop (e_payload e) ''itemIds'')) (\<lambda>itemIds.
       on_demand (e_aggregateId e) (\<lambda>d. d\<lparr>dem_status := Agreed,
         dem_itemIds := (case itemIds of None \<Rightarrow> dem_itemIds d | Some l \<Rightarrow> Some l)\<rparr>))"

definition dispose_demand ::
  "disposition_outcome \<Rightarrow> string option \<Rightarrow> demand_ref option \<Rightarrow> demand_state \<Rightarrow> demand_state" where
  "dispose_demand z reason dup d =
     d\<lparr>dem_status := outcome_status z,
       dem_rejectReason := (if z = ORejected \<and> reason \<noteq> None then reason else dem_rejectReason d),
       dem_parkReason := (if z = OParked \<and> reason \<noteq> None then reason else dem_parkReason d),
       dem_duplicateOf := (if z = ODuplicate \<and> dup \<noteq> None then dup else dem_duplicateOf d)\<rparr>"

definition apply_demand_disposition :: "track_event \<Rightarrow> state \<Rightarrow> state" where
  "apply_demand_disposition e =
     cast (do { z \<leftarrow> enum_of DISPOSITION_OUTCOMES (js_prop (e_payload e) ''outcome'');
                r \<leftarrow> opt str_of (js_prop (e_payload e) ''reason'');
                d \<leftarrow> opt demand_ref_of (js_prop (e_payload e) ''duplicateOf'');
                Some (z, r, d) }) (\<lambda>(z, r, d). on_demand (e_aggregateId e) (dispose_demand z r d))"

section \<open>The replay\<close>

fun applyEvent :: "track_event \<Rightarrow> state \<Rightarrow> state" where
  "applyEvent e =
     (case e_type e of
        ItemReportUpdated \<Rightarrow> apply_report_updated e
      | ItemLinkAdded \<Rightarrow> apply_link_added e
      | ItemCreated \<Rightarrow> apply_item_created e
      | ItemReparented \<Rightarrow> apply_item_reparented e
      | DecisionCreated \<Rightarrow> apply_decision_created e
      | ScopeDeclared \<Rightarrow> apply_scope_declared e
      | ItemCodeAssigned \<Rightarrow> apply_code_assigned e
      | ItemRaciAssigned \<Rightarrow> apply_raci_assigned e
      | ItemRoleChanged \<Rightarrow> apply_role_changed e
      | SpecAmended \<Rightarrow> apply_spec_amended e
      | SpecTransition \<Rightarrow> apply_spec_transition e
      | RealizationTransition \<Rightarrow> apply_realization_transition e
      | RealizationReopened \<Rightarrow> apply_realization_reopened e
      | RealizationAnchored \<Rightarrow> apply_realization_anchored e
      | DecisionOutcome \<Rightarrow> apply_decision_outcome e
      | DecisionDisposition \<Rightarrow> apply_decision_disposition e
      | DossierRevised \<Rightarrow> apply_dossier_revised e
      | DecisionOptionSelected \<Rightarrow> apply_option_selected e
      | DecisionArtifactAdded \<Rightarrow> apply_artifact_added e
      | AcceptanceCriterionAdded \<Rightarrow> apply_criterion_added e
      | AcceptanceEvidenceLinked \<Rightarrow> apply_evidence_linked e
      | AcceptanceRun \<Rightarrow> apply_run e
      | ScopeVerificationRecorded \<Rightarrow> apply_verification_recorded e
      | AcceptanceWaived \<Rightarrow> apply_waived e
      | BlockerOpened \<Rightarrow> apply_blocker_opened e
      | BlockerResolved \<Rightarrow> apply_blocker_resolved e
      | PriorityAssessed \<Rightarrow> apply_priority_assessed e
      | DemandRaised \<Rightarrow> apply_demand_raised e
      | DemandQualifyingStarted \<Rightarrow> apply_qualifying_started e
      | DemandAgreed \<Rightarrow> apply_demand_agreed e
      | DemandDisposition \<Rightarrow> apply_demand_disposition e
      | _ \<Rightarrow> (\<lambda>st. st))"

definition isOpen :: "blocker_state \<Rightarrow> (ulid, item_state) jmap \<Rightarrow> bool" where
  "isOpen b items =
     (if blk_resolvedByEvent b then False
      else case blk_ref b of
        Some r \<Rightarrow>
          if blk_kind b = BDependency \<and> (case blk_resolutionRule b of None \<Rightarrow> LinkedDone | Some x \<Rightarrow> x) = LinkedDone
          then map_option item_realization (jget items r) \<noteq> Some Done
          else True
      | None \<Rightarrow> True)"

text \<open>The two passes of the source's \<open>fold\<close>.\<close>

definition replayEvents :: "track_event list \<Rightarrow> state" where
  "replayEvents es = List.fold applyEvent es emptyState"

definition computeOpen :: "state \<Rightarrow> state" where
  "computeOpen st =
     st\<lparr>st_blockers := map (\<lambda>(k, b). (k, b\<lparr>blk_open := isOpen b (st_items st)\<rparr>)) (st_blockers st)\<rparr>"

definition foldEvents :: "track_event list \<Rightarrow> state" where
  "foldEvents es = computeOpen (replayEvents es)"

definition openBlockers :: "state \<Rightarrow> blocker_state list" where
  "openBlockers st = filter blk_open (jvals (st_blockers st))"

definition openBlockersForItem :: "state \<Rightarrow> ulid \<Rightarrow> blocker_state list" where
  "openBlockersForItem st i = filter (\<lambda>b. blk_targetId b = i) (openBlockers st)"

end
