(* ===== verification/Fold_Laws.thy ===== *)
theory Fold_Laws
  imports Fold
begin

text \<open>
  What the replay keeps and computes: every map of the state is keyed by its values and has no
  duplicate key; an event touches only the part of the state its type is about; the realization
  that \<open>validate\<close> replays over the log is the one the state shows; blockers are open exactly when
  their rule says so.
\<close>

named_theorems apply_defs \<open>definitions of the event cases\<close>

lemmas [apply_defs] =
  apply_report_updated_def apply_link_added_def apply_item_created_def apply_item_reparented_def
  apply_decision_created_def apply_scope_declared_def apply_code_assigned_def apply_raci_assigned_def
  apply_role_changed_def apply_spec_amended_def apply_spec_transition_def apply_realization_transition_def
  apply_realization_reopened_def apply_realization_anchored_def apply_decision_outcome_def
  apply_decision_disposition_def apply_dossier_revised_def apply_option_selected_def apply_artifact_added_def
  apply_criterion_added_def apply_evidence_linked_def apply_run_def apply_verification_recorded_def
  apply_waived_def apply_blocker_opened_def apply_blocker_resolved_def apply_priority_assessed_def
  apply_demand_raised_def apply_qualifying_started_def apply_demand_agreed_def apply_demand_disposition_def

section \<open>Well-keyed states\<close>

text \<open>A map from keys to the list of the values that carry the key, as the amendments of the items are.\<close>

definition keyed_groups :: "('v \<Rightarrow> 'k) \<Rightarrow> ('k, 'v list) jmap \<Rightarrow> bool" where
  "keyed_groups key m \<longleftrightarrow> distinct (jkeys m) \<and> (\<forall>(k, vs) \<in> set m. vs \<noteq> [] \<and> (\<forall>v \<in> set vs. key v = k))"

lemma keyed_groups_empty [simp]: "keyed_groups key []"
  by (simp add: keyed_groups_def jkeys_def)

lemma keyed_groups_add [simp]:
  assumes "keyed_groups key m" and "key v = k"
  shows "keyed_groups key (jset k ((case jget m k of None \<Rightarrow> [] | Some vs \<Rightarrow> vs) @ [v]) m)"
proof -
  let ?old = "case jget m k of None \<Rightarrow> [] | Some vs \<Rightarrow> vs"
  have upd: "(k', ws) \<in> set (AList.update k vs m) \<Longrightarrow> k' = k \<and> ws = vs \<or> (k', ws) \<in> set m" for k' vs ws
    by (induction m) (auto split: if_splits)
  have old: "key w = k" if "w \<in> set ?old" for w
  proof (cases "jget m k")
    case (Some vs)
    with jget_mem[OF Some] assms(1) that show ?thesis by (auto simp: keyed_groups_def)
  qed (use that in simp)
  have "ws \<noteq> [] \<and> (\<forall>w \<in> set ws. key w = k')" if "(k', ws) \<in> set (jset k (?old @ [v]) m)" for k' ws
  proof -
    from upd[OF that[unfolded jset_def]] show ?thesis
    proof
      assume "k' = k \<and> ws = ?old @ [v]"
      moreover from this have "key w = k" if "w \<in> set ws" for w
        using that old assms(2) by (cases "w = v") simp_all
      ultimately show ?thesis by blast
    next
      assume "(k', ws) \<in> set m"
      with assms(1) show ?thesis by (auto simp: keyed_groups_def)
    qed
  qed
  moreover have "distinct (jkeys (jset k (?old @ [v]) m))" using assms(1) by (simp add: keyed_groups_def)
  ultimately show ?thesis unfolding keyed_groups_def by blast
qed

definition keyed_state :: "state \<Rightarrow> bool" where
  "keyed_state st \<longleftrightarrow>
     keyed item_id (st_items st) \<and> keyed dec_id (st_decisions st) \<and> keyed blk_id (st_blockers st) \<and>
     keyed cr_id (st_criteria st) \<and> keyed ev_id (st_evidence st) \<and> keyed vrp_runId (st_verificationRuns st) \<and>
     keyed_groups sap_itemId (st_specAmendments st) \<and> keyed dem_id (st_demands st)"

lemma cast_induct:
  assumes "P st" "\<And>y. x = Some y \<Longrightarrow> P (f y st)"
  shows "P (cast x f st)"
  using assms by (cases x) simp_all

lemma keyed_updates:
  assumes "keyed_state st"
  shows "keyed item_id mi \<Longrightarrow> keyed_state (st\<lparr>st_items := mi\<rparr>)"
    and "keyed dec_id md \<Longrightarrow> keyed_state (st\<lparr>st_decisions := md\<rparr>)"
    and "keyed blk_id mb \<Longrightarrow> keyed_state (st\<lparr>st_blockers := mb\<rparr>)"
    and "keyed cr_id mc \<Longrightarrow> keyed_state (st\<lparr>st_criteria := mc\<rparr>)"
    and "keyed ev_id me \<Longrightarrow> keyed_state (st\<lparr>st_evidence := me\<rparr>)"
    and "keyed vrp_runId mv \<Longrightarrow> keyed_state (st\<lparr>st_verificationRuns := mv\<rparr>)"
    and "keyed_groups sap_itemId ms \<Longrightarrow> keyed_state (st\<lparr>st_specAmendments := ms\<rparr>)"
    and "keyed dem_id mm \<Longrightarrow> keyed_state (st\<lparr>st_demands := mm\<rparr>)"
  using assms by (simp_all add: keyed_state_def)

lemma keyed_stateD:
  assumes "keyed_state st"
  shows "keyed item_id (st_items st)" and "keyed dec_id (st_decisions st)" and "keyed blk_id (st_blockers st)"
    and "keyed cr_id (st_criteria st)" and "keyed ev_id (st_evidence st)"
    and "keyed vrp_runId (st_verificationRuns st)" and "keyed_groups sap_itemId (st_specAmendments st)"
    and "keyed dem_id (st_demands st)"
  using assms by (simp_all add: keyed_state_def)

lemma keyed_cast:
  "keyed_state st \<Longrightarrow> (\<And>y. x = Some y \<Longrightarrow> keyed_state (f y st)) \<Longrightarrow> keyed_state (cast x f st)"
  by (rule cast_induct)

lemma keyed_on_item [intro!]:
  "keyed_state st \<Longrightarrow> (\<And>i. item_id (f i) = item_id i) \<Longrightarrow> keyed_state (on_item a f st)"
  by (simp add: keyed_state_def on_item_def)

lemma keyed_on_decision [intro!]:
  "keyed_state st \<Longrightarrow> (\<And>d. dec_id (f d) = dec_id d) \<Longrightarrow> keyed_state (on_decision a f st)"
  by (simp add: keyed_state_def on_decision_def)

lemma keyed_on_demand [intro!]:
  "keyed_state st \<Longrightarrow> (\<And>d. dem_id (f d) = dem_id d) \<Longrightarrow> keyed_state (on_demand a f st)"
  by (simp add: keyed_state_def on_demand_def)

lemma item_id_kept [simp]:
  "item_id (add_link l i) = item_id i" "item_id (applyItemRaci u i) = item_id i"
  "item_id (reopen_item p e i) = item_id i" "item_id (set_disposition g d i) = item_id i"
  by (simp_all add: add_link_def applyItemRaci_def reopen_item_def set_disposition_def Let_def)

lemma fold_on_item_keyed:
  "keyed_state st \<Longrightarrow> (\<And>i. item_id (f i) = item_id i) \<Longrightarrow> keyed_state (fold (\<lambda>t. on_item t f) ts st)"
  by (induction ts arbitrary: st) auto

lemma applyEvent_keyed:
  assumes "keyed_state st"
  shows "keyed_state (applyEvent e st)"
proof (cases "e_type e")
  case DecisionOutcome
  then show ?thesis
    using assms by (auto simp: apply_decision_outcome_def Let_def split: option.split
        intro!: keyed_cast fold_on_item_keyed keyed_on_decision)
next
  case DemandRaised
  have "keyed_state (st\<lparr>st_demands := jset (dem_id d) d (st_demands st)\<rparr>)" for d
    using assms by (simp add: keyed_state_def)
  then show ?thesis
    unfolding applyEvent.simps DemandRaised event_type.case apply_demand_raised_def
    by (intro keyed_cast assms)
next
  case ItemCreated
  then show ?thesis
    using assms by (auto simp: apply_item_created_def keyed_stateD[OF assms] new_item_def intro!: keyed_cast keyed_updates)
next
  case DecisionCreated
  then show ?thesis
    using assms by (auto simp: apply_decision_created_def keyed_stateD[OF assms] new_decision_def intro!: keyed_cast keyed_updates)
next
  case ItemLinkAdded
  then show ?thesis
    using assms by (auto simp: apply_link_added_def split: option.split intro!: keyed_cast keyed_updates)
next
  case RealizationTransition
  then show ?thesis
    using assms by (auto simp: apply_realization_transition_def intro!: keyed_cast keyed_updates)
next
  case SpecAmended
  then show ?thesis
    using assms by (auto simp: apply_spec_amended_def keyed_stateD[OF assms] Let_def spec_amend_payload.defs
        spec_amendment.defs intro!: keyed_cast keyed_updates keyed_groups_add)
next
  case AcceptanceCriterionAdded
  then show ?thesis
    using assms by (auto simp: apply_criterion_added_def keyed_stateD[OF assms] intro!: keyed_cast keyed_updates)
next
  case AcceptanceEvidenceLinked
  then show ?thesis
    using assms by (auto simp: apply_evidence_linked_def keyed_stateD[OF assms] intro!: keyed_cast keyed_updates)
next
  case AcceptanceRun
  then show ?thesis
    using assms by (auto simp: apply_run_def keyed_stateD[OF assms] intro!: keyed_cast keyed_updates)
next
  case ScopeVerificationRecorded
  then show ?thesis
    using assms by (auto simp: apply_verification_recorded_def keyed_stateD[OF assms] verification_payload.defs
        verification_run.defs intro!: keyed_cast keyed_updates)
next
  case AcceptanceWaived
  then show ?thesis
    using assms by (auto simp: apply_waived_def keyed_stateD[OF assms] intro!: keyed_cast keyed_updates)
next
  case BlockerOpened
  then show ?thesis
    using assms by (auto simp: apply_blocker_opened_def keyed_stateD[OF assms] new_blocker_def intro!: keyed_cast keyed_updates)
next
  case BlockerResolved
  then show ?thesis
    using assms by (auto simp: apply_blocker_resolved_def keyed_stateD[OF assms] intro!: keyed_updates)
next
  case DecisionDisposition
  then show ?thesis
    using assms by (auto simp: apply_decision_disposition_def intro!: keyed_cast keyed_updates)
next
  case DemandDisposition
  then show ?thesis
    using assms by (auto simp: apply_demand_disposition_def dispose_demand_def intro!: keyed_cast keyed_updates)
qed (use assms in \<open>auto simp: apply_defs intro!: keyed_cast\<close>)

lemma replayEvents_keyed: "keyed_state (replayEvents es)"
proof -
  have "keyed_state st \<Longrightarrow> keyed_state (fold applyEvent es st)" for st
    by (induction es arbitrary: st) (simp_all del: applyEvent.simps add: applyEvent_keyed)
  then show ?thesis
    by (simp add: replayEvents_def keyed_state_def emptyState_def jkeys_def del: applyEvent.simps)
qed

lemma keyed_map_values:
  "keyed key m \<Longrightarrow> (\<And>v. key (f v) = key v) \<Longrightarrow> keyed key (map (\<lambda>(k, v). (k, f v)) m)"
  by (force simp: keyed_def jkeys_def comp_def case_prod_unfold)

lemma foldEvents_keyed: "keyed_state (foldEvents es)"
  using replayEvents_keyed[of es]
  by (simp add: foldEvents_def computeOpen_def keyed_state_def keyed_map_values)

section \<open>What an event can change\<close>

text \<open>The part of the state that work depends on: items, decisions, blockers and demands.\<close>

definition work :: "state \<Rightarrow> (ulid, item_state) jmap \<times> (ulid, decision_state) jmap \<times>
    (ulid, blocker_state) jmap \<times> (ulid, demand_state) jmap" where
  "work st = (st_items st, st_decisions st, st_blockers st, st_demands st)"

definition evidence_types :: "event_type set" where
  "evidence_types = {AcceptanceCriterionAdded, AcceptanceEvidenceLinked, AcceptanceRun, AcceptanceWaived,
     ScopeVerificationRecorded, SpecAmended, BranchImported, SpecStarted, SpecAbandoned}"

lemma work_cast:
  assumes "\<And>y. work (f y st) = work st" shows "work (cast x f st) = work st"
  using assms by (cases x) simp_all

lemma work_cast_cong:
  assumes "\<And>y. work (f y st) = work (f y st')" "work st = work st'"
  shows "work (cast x f st) = work (cast x f st')"
  using assms by (cases x) simp_all

lemma workD: "work st = work st' \<Longrightarrow> st_items st = st_items st' \<and> st_decisions st = st_decisions st' \<and>
    st_blockers st = st_blockers st' \<and> st_demands st = st_demands st'"
  by (simp add: work_def)

lemma work_other [simp]:
  "work (st\<lparr>st_criteria := c\<rparr>) = work st" "work (st\<lparr>st_evidence := v\<rparr>) = work st"
  "work (st\<lparr>st_verificationRuns := r\<rparr>) = work st" "work (st\<lparr>st_specAmendments := a\<rparr>) = work st"
  by (simp_all add: work_def)

lemma evidence_inert: "e_type e \<in> evidence_types \<Longrightarrow> work (applyEvent e st) = work st"
  by (cases "e_type e") (simp_all add: evidence_types_def apply_criterion_added_def apply_evidence_linked_def
      apply_run_def apply_waived_def apply_verification_recorded_def apply_spec_amended_def Let_def work_cast
      case_prod_unfold)

lemma work_on:
  assumes "work st = work st'"
  shows "work (on_item i f st) = work (on_item i f st')" "work (on_decision i g st) = work (on_decision i g st')"
    and "work (on_demand i k st) = work (on_demand i k st')"
  using assms by (simp_all add: work_def on_item_def on_decision_def on_demand_def)

lemma work_fold_on_item:
  "work st = work st' \<Longrightarrow> work (fold (\<lambda>t. on_item t f) ts st) = work (fold (\<lambda>t. on_item t f) ts st')"
proof (induction ts arbitrary: st st')
  case (Cons t ts)
  show ?case using Cons.IH[OF work_on(1)[OF Cons.prems]] by simp
qed simp

lemma applyEvent_work:
  assumes "work st = work st'"
  shows "work (applyEvent e st) = work (applyEvent e st')"
proof (cases "e_type e \<in> evidence_types")
  case True
  with assms show ?thesis by (simp add: evidence_inert del: applyEvent.simps)
next
  case False
  note eqs = workD[OF assms]
  have sets: "work (st\<lparr>st_items := f (st_items st)\<rparr>) = work (st'\<lparr>st_items := f (st_items st')\<rparr>)"
    "work (st\<lparr>st_decisions := g (st_decisions st)\<rparr>) = work (st'\<lparr>st_decisions := g (st_decisions st')\<rparr>)"
    "work (st\<lparr>st_blockers := b (st_blockers st)\<rparr>) = work (st'\<lparr>st_blockers := b (st_blockers st')\<rparr>)"
    "work (st\<lparr>st_demands := k (st_demands st)\<rparr>) = work (st'\<lparr>st_demands := k (st_demands st')\<rparr>)" for f g b k
    using eqs by (simp_all add: work_def)
  show ?thesis
    using False
    by (cases "e_type e")
      (auto simp: evidence_types_def apply_defs Let_def eqs assms
        intro!: work_cast_cong work_on work_fold_on_item sets split: option.split)
qed

lemma replayEvents_snoc: "replayEvents (es @ [e]) = applyEvent e (replayEvents es)"
  by (simp add: replayEvents_def del: applyEvent.simps)

lemma replayEvents_work:
  "work (replayEvents es) = work (replayEvents (filter (\<lambda>e. e_type e \<notin> evidence_types) es))"
proof (induction es rule: rev_induct)
  case (snoc e es)
  show ?case
  proof (cases "e_type e \<in> evidence_types")
    case True
    with snoc evidence_inert show ?thesis by (simp add: replayEvents_snoc del: applyEvent.simps)
  next
    case False
    with applyEvent_work[OF snoc, of e] show ?thesis by (simp add: replayEvents_snoc del: applyEvent.simps)
  qed
qed simp

lemma openBlockers_work: "work st = work st' \<Longrightarrow> openBlockers (computeOpen st) = openBlockers (computeOpen st')"
  by (simp add: work_def openBlockers_def computeOpen_def)

section \<open>Realization\<close>

definition realization_of :: "state \<Rightarrow> ulid \<Rightarrow> realization option" where
  "realization_of st i = map_option item_realization (jget (st_items st) i)"

lemma realization_of_cast:
  "(\<And>y. realization_of (f y st) i = realization_of st i) \<Longrightarrow> realization_of (cast x f st) i = realization_of st i"
  by (cases x) simp_all

lemma realization_on_item:
  "(\<And>x. item_realization (f x) = item_realization x) \<Longrightarrow> realization_of (on_item a f st) i = realization_of st i"
  by (cases "i = a"; cases "jget (st_items st) i") (simp_all add: realization_of_def on_item_def)

lemma realization_other [simp]:
  "realization_of (on_decision a g st) i = realization_of st i" "realization_of (on_demand a k st) i = realization_of st i"
  "realization_of (st\<lparr>st_decisions := d\<rparr>) i = realization_of st i" "realization_of (st\<lparr>st_blockers := b\<rparr>) i = realization_of st i"
  "realization_of (st\<lparr>st_demands := m\<rparr>) i = realization_of st i"
  by (simp_all add: realization_of_def on_decision_def on_demand_def)

lemma item_realization_kept [simp]:
  "item_realization (add_link l x) = item_realization x" "item_realization (applyItemRaci u x) = item_realization x"
  "item_realization (set_disposition g d x) = item_realization x"
  by (simp_all add: add_link_def applyItemRaci_def set_disposition_def Let_def)

lemma realization_fold_on_item:
  "(\<And>x. item_realization (f x) = item_realization x) \<Longrightarrow>
   realization_of (fold (\<lambda>t. on_item t f) ts st) i = realization_of st i"
  by (induction ts arbitrary: st) (simp_all add: realization_on_item)

lemma realization_work: "work st = work st' \<Longrightarrow> realization_of st i = realization_of st' i"
  by (simp add: realization_of_def work_def)

lemma realization_inert:
  assumes "e_type e \<notin> {ItemCreated, RealizationTransition, RealizationReopened}"
  shows "realization_of (applyEvent e st) i = realization_of st i"
proof (cases "e_type e \<in> evidence_types")
  case True
  show ?thesis by (rule realization_work[OF evidence_inert[OF True]])
next
  case False
  show ?thesis
  proof (cases "e_type e = DecisionOutcome")
    case True
    then show ?thesis
      by (auto simp: apply_decision_outcome_def Let_def realization_fold_on_item split: option.split
          intro!: realization_of_cast)
  next
    case other: False
    from assms False other show ?thesis
      by (cases "e_type e")
        (auto simp: evidence_types_def apply_defs case_prod_unfold split: option.split
          intro!: realization_of_cast realization_on_item)
  qed
qed

text \<open>An event whose payload has the type its facade operation writes.\<close>

definition typed :: "track_event \<Rightarrow> bool" where
  "typed e \<longleftrightarrow>
     (if e_type e = ItemCreated then ItemCreatedPayload_of (e_payload e) \<noteq> None
      else if e_type e = RealizationTransition then enum_of realizations (js_prop (e_payload e) ''to'') \<noteq> None
      else True)"

lemma realization_str_inject [simp]: "realization_str r = realization_str s \<longleftrightarrow> r = s"
  by (cases r; cases s) simp_all

lemma realization_str_done [simp]:
  "realization_str r = ''done'' \<longleftrightarrow> r = Done" "realization_str r = ''cancelled'' \<longleftrightarrow> r = Cancelled"
  by (cases r; simp)+

lemma enum_realizations: "enum_of realizations v = Some r \<longleftrightarrow> v = Str (realization_str r)"
proof
  assume "enum_of realizations v = Some r"
  then show "v = Str (realization_str r)"
    by (cases v) (auto simp: enum_of_def realizations_def split: if_splits)
qed (use enum_round_trips(4) in \<open>simp add: realization_js_def\<close>)

lemma shape_casts:
  "reopenShape p = None \<Longrightarrow> js_prop p ''itemId'' = Str i \<Longrightarrow> \<exists>q. ReopenPayload_of p = Some q \<and> rp_itemId q = i"
  by (auto simp: reopenShape_def ReopenPayload_of_def isString_iff nonBlankString_iff REOPEN_MOTIVES_ACCEPTED_def
      enum_of_def REOPEN_MOTIVES_def split: if_splits)

lemma realization_created:
  "e_type e = ItemCreated \<Longrightarrow> typed e \<Longrightarrow>
     realization_of (applyEvent e st) i = (if i = e_aggregateId e then Some ToDo else realization_of st i)"
  by (auto simp: typed_def apply_item_created_def realization_of_def new_item_def)

lemma realization_moved:
  "e_type e = RealizationTransition \<Longrightarrow> enum_of realizations (js_prop (e_payload e) ''to'') = Some r \<Longrightarrow>
     realization_of (applyEvent e st) i =
       (if i = e_aggregateId e \<and> realization_of st i \<noteq> None then Some r else realization_of st i)"
  by (auto simp: apply_realization_transition_def realization_of_def on_item_def on_decision_def jhas_def)

lemma reopen_item_realization:
  "rp_itemId p = e_aggregateId e \<Longrightarrow> item_realization (reopen_item p e x) =
     (if item_realization x \<in> {Done, Cancelled} then InProgress else item_realization x)"
  by (simp add: reopen_item_def Let_def)

lemma realization_reopened:
  "e_type e = RealizationReopened \<Longrightarrow> ReopenPayload_of (e_payload e) = Some p \<Longrightarrow> rp_itemId p = e_aggregateId e \<Longrightarrow>
     realization_of (applyEvent e st) i =
       (if i = e_aggregateId e \<and> realization_of st i \<in> {Some Done, Some Cancelled} then Some InProgress
        else realization_of st i)"
  by (cases "jget (st_items st) (e_aggregateId e)"; cases "i = e_aggregateId e")
    (simp_all add: apply_realization_reopened_def realization_of_def on_item_def reopen_item_realization)

lemma replay_agrees:
  assumes "reopens_ok Map.empty es" "\<forall>e \<in> set es. typed e" "realization_of (replayEvents es) i = Some r"
  shows "replay es i = Some (realization_str r)"
  using assms
proof (induction es arbitrary: i r rule: rev_induct)
  case Nil
  then show ?case by (simp add: realization_of_def replayEvents_def emptyState_def)
next
  case (snoc e es)
  let ?st = "replayEvents es"
  have ok: "reopens_ok Map.empty es" "reopen_ok (replay es) e" and ty: "\<forall>e \<in> set es. typed e" "typed e"
    using snoc.prems(1,2) by (simp_all add: reopens_ok_append replay_def)
  note IH = snoc.IH[OF ok(1) ty(1)]
  have step: "replay (es @ [e]) = replay_realization e (replay es)" by (simp add: replay_def)
  have now: "realization_of (applyEvent e ?st) i = Some r"
    using snoc.prems(3) by (simp only: replayEvents_snoc)
  consider (created) "e_type e = ItemCreated" | (moved) "e_type e = RealizationTransition"
    | (reopened) "e_type e = RealizationReopened"
    | (other) "e_type e \<notin> {ItemCreated, RealizationTransition, RealizationReopened}" by auto
  then show ?case
  proof cases
    case created
    with now IH[of i r] show ?thesis
      by (auto simp: step replay_realization_def realization_created[OF created ty(2)] split: if_splits
          simp del: applyEvent.simps)
  next
    case moved
    then obtain s where s: "enum_of realizations (js_prop (e_payload e) ''to'') = Some s"
      using ty(2) by (auto simp: typed_def)
    then have "js_prop (e_payload e) ''to'' = Str (realization_str s)" by (simp only: enum_realizations)
    with moved now IH[of i] show ?thesis
      by (auto simp: step replay_realization_def realization_moved[OF moved s] split: if_splits
          simp del: applyEvent.simps)
  next
    case reopened
    then have shape: "reopenShape (e_payload e) = None" and addr: "addressesAggregate e"
      using ok(2) by (simp_all add: reopen_ok_def)
    from shape_casts[OF shape] addr obtain p
      where p: "ReopenPayload_of (e_payload e) = Some p" "rp_itemId p = e_aggregateId e"
      by (auto simp: addressesAggregate_def)
    show ?thesis
    proof (cases "i = e_aggregateId e \<and> realization_of ?st i \<in> {Some Done, Some Cancelled}")
      case True
      then have "replay es i \<in> {Some ''done'', Some ''cancelled''}"
        using IH[of i Done] IH[of i Cancelled] by auto
      with True reopened addr now show ?thesis
        by (auto simp: step replay_realization_def realization_reopened[OF reopened p] simp del: applyEvent.simps)
    next
      case False
      with now have before: "realization_of ?st i = Some r"
        by (auto simp: realization_reopened[OF reopened p] simp del: applyEvent.simps split: if_splits)
      note known = IH[OF this]
      with False before have "i = e_aggregateId e \<Longrightarrow> replay es i \<notin> {Some ''done'', Some ''cancelled''}"
        by auto
      with reopened known show ?thesis
        by (auto simp: step replay_realization_def)
    qed
  next
    case other
    with now realization_inert[OF other] have "realization_of ?st i = Some r" by (simp del: applyEvent.simps)
    from IH[OF this] other show ?thesis by (simp add: step replay_realization_def)
  qed
qed

lemma realization_computeOpen [simp]: "realization_of (computeOpen st) i = realization_of st i"
  by (simp add: realization_of_def computeOpen_def)

section \<open>Reopenings leave a trace\<close>

definition traced :: "item_state \<Rightarrow> bool" where
  "traced x \<longleftrightarrow> (\<forall>r \<in> set (case item_reopenings x of None \<Rightarrow> [] | Some rs \<Rightarrow> rs). reopen_from r \<in> {Done, Cancelled})"

definition all_items :: "(item_state \<Rightarrow> bool) \<Rightarrow> state \<Rightarrow> bool" where
  "all_items P st \<longleftrightarrow> (\<forall>i x. jget (st_items st) i = Some x \<longrightarrow> P x)"

lemma all_items_cast: "all_items P st \<Longrightarrow> (\<And>y. all_items P (f y st)) \<Longrightarrow> all_items P (cast x f st)"
  by (cases x) simp_all

lemma all_items_on_item: "all_items P st \<Longrightarrow> (\<And>x. P x \<Longrightarrow> P (f x)) \<Longrightarrow> all_items P (on_item a f st)"
  unfolding all_items_def on_item_def by (simp, metis (no_types) map_option_eq_Some)

lemma all_items_fold: "all_items P st \<Longrightarrow> (\<And>x. P x \<Longrightarrow> P (f x)) \<Longrightarrow> all_items P (fold (\<lambda>t. on_item t f) ts st)"
  by (induction ts arbitrary: st) (simp_all add: all_items_on_item)

lemma all_items_other [simp]:
  "all_items P (on_decision a g st) = all_items P st" "all_items P (on_demand a k st) = all_items P st"
  "all_items P (st\<lparr>st_decisions := d\<rparr>) = all_items P st" "all_items P (st\<lparr>st_blockers := b\<rparr>) = all_items P st"
  "all_items P (st\<lparr>st_demands := m\<rparr>) = all_items P st"
  by (simp_all add: all_items_def on_decision_def on_demand_def)

lemma all_items_work: "work st = work st' \<Longrightarrow> all_items P st = all_items P st'"
  by (simp add: all_items_def work_def)

lemma traced_kept [simp]:
  "traced (x\<lparr>item_report := a1\<rparr>) = traced x" "traced (x\<lparr>item_parentId := a2\<rparr>) = traced x"
  "traced (x\<lparr>item_scope := a3\<rparr>) = traced x" "traced (x\<lparr>item_code := a4\<rparr>) = traced x"
  "traced (x\<lparr>item_role := a5\<rparr>) = traced x" "traced (x\<lparr>item_specStatus := a6\<rparr>) = traced x"
  "traced (x\<lparr>item_realization := a7\<rparr>) = traced x" "traced (x\<lparr>item_realizedCommit := a8\<rparr>) = traced x"
  "traced (x\<lparr>item_priority := a9\<rparr>) = traced x" "traced (add_link l x) = traced x"
  "traced (applyItemRaci u x) = traced x" "traced (set_disposition g d x) = traced x"
  by (simp_all add: traced_def add_link_def applyItemRaci_def set_disposition_def Let_def)

lemma traced_reopen: "traced x \<Longrightarrow> traced (reopen_item p e x)"
  by (cases "item_reopenings x") (auto simp: traced_def reopen_item_def Let_def)

lemma traced_new: "traced (new_item i p)"
  by (simp add: traced_def new_item_def)

lemma applyEvent_traced:
  assumes "all_items traced st" shows "all_items traced (applyEvent e st)"
proof (cases "e_type e \<in> evidence_types")
  case True
  from all_items_work[OF evidence_inert[OF True]] assms show ?thesis by simp
next
  case False
  have created: "all_items traced (st\<lparr>st_items := jset i (new_item i p) (st_items st)\<rparr>)" for i p
    using assms by (simp add: all_items_def traced_new)
  show ?thesis
  proof (cases "e_type e = DecisionOutcome")
    case True
    then show ?thesis using assms
      by (auto simp: apply_decision_outcome_def Let_def split: option.split intro!: all_items_cast all_items_fold)
  next
    case other: False
    from assms False other show ?thesis
      by (cases "e_type e")
        (auto simp: evidence_types_def apply_defs case_prod_unfold traced_reopen created split: option.split
          intro!: all_items_cast all_items_on_item)
  qed
qed

lemma replayEvents_traced: "all_items traced (replayEvents es)"
proof (induction es rule: rev_induct)
  case (snoc e es)
  from applyEvent_traced[OF snoc] show ?case by (simp only: replayEvents_snoc)
qed (simp add: all_items_def replayEvents_def emptyState_def)

section \<open>Blockers\<close>

lemma jget_map_values: "jget (map (\<lambda>(k, v). (k, f v)) m) k = map_option f (jget m k)"
  by (induction m) (auto simp: jget_def)

lemma blocker_computeOpen:
  "jget (st_blockers (computeOpen st)) b = map_option (\<lambda>x. x\<lparr>blk_open := isOpen x (st_items st)\<rparr>) (jget (st_blockers st) b)"
  by (simp add: computeOpen_def jget_map_values)

text \<open>A dependency on the delivery of an item, not resolved by hand.\<close>

definition awaits :: "blocker_state \<Rightarrow> ulid \<Rightarrow> bool" where
  "awaits x r \<longleftrightarrow> blk_kind x = BDependency \<and> blk_ref x = Some r \<and> blk_resolutionRule x \<in> {None, Some LinkedDone} \<and>
     \<not> blk_resolvedByEvent x"

lemma isOpen_awaits: "awaits x r \<Longrightarrow> isOpen x (st_items st) \<longleftrightarrow> realization_of st r \<noteq> Some Done"
  by (auto simp: awaits_def isOpen_def realization_of_def)

lemma isOpen_other: "\<nexists>r. awaits x r \<Longrightarrow> isOpen x m \<longleftrightarrow> \<not> blk_resolvedByEvent x"
  by (auto simp: awaits_def isOpen_def split: option.splits)

section \<open>Properties\<close>

text \<open>C21. Every map of the folded state is keyed by its own values and has no duplicate key, whatever the
  log: the entry under an identifier is the item, decision, blocker, criterion, evidence, run or
  demand with that identifier, and the amendments filed under an identifier, at least one, are those of the
  item with that identifier.\<close>

theorem folded_state_keyed: "keyed_state (foldEvents es)"
  by (rule foldEvents_keyed)

text \<open>C14. The validator and the fold agree: in a log that validates, with creations and transitions of
  their declared payload types, the realization the integrity check replays for an item is the one
  the folded state shows for it, so a reopening is judged against the state readers see.\<close>

theorem validator_fold_agree:
  assumes "validate h es hh = Inr []" and "\<forall>e \<in> set es. typed e"
    and "jget (st_items (foldEvents es)) i = Some x"
  shows "replay es i = Some (realization_str (item_realization x))"
proof -
  have "realization_of (foldEvents es) i = Some (item_realization x)"
    using assms(3) by (simp add: realization_of_def)
  then have "realization_of (replayEvents es) i = Some (item_realization x)"
    by (simp add: foldEvents_def)
  from replay_agrees[OF _ assms(2) this] assms(1) show ?thesis
    by (simp add: validate_ok valid_log_def)
qed

theorem validator_fold_agree_witness:
  "\<exists>x. jget (st_items (foldEvents sample_log)) ''i1'' = Some x \<and> replay sample_log ''i1'' = Some (realization_str (item_realization x))"
proof -
  have val: "validate unary_host sample_log None = Inr []"
    using sample_valid by (simp add: validate_ok validateHead_def)
  have ty: "\<forall>e \<in> set sample_log. typed e"
    by (simp add: sample_log_def sample1_def sample2_def sample3_def typed_def ItemCreatedPayload_of_def
        enum_of_def item_kinds_def realizations_def js_prop_def)
  have "\<exists>x. jget (st_items (foldEvents sample_log)) ''i1'' = Some x"
    by (simp add: foldEvents_def computeOpen_def replayEvents_def sample_log_def sample1_def sample2_def sample3_def
        apply_item_created_def apply_realization_transition_def ItemCreatedPayload_of_def enum_of_def item_kinds_def
        realizations_def js_prop_def emptyState_def on_item_def)
  then obtain x where x: "jget (st_items (foldEvents sample_log)) ''i1'' = Some x" by blast
  from validator_fold_agree[OF val ty x] x show ?thesis by blast
qed

text \<open>C20. Evidence never moves work: acceptance evidence, path verdicts, spec amendments, branch imports
  and spec attempts, wherever they are in the log, have no effect on items, decisions, demands and
  open blockers, which are those of the log without them.\<close>

theorem evidence_moves_no_work:
  "let es' = filter (\<lambda>e. e_type e \<notin> evidence_types) es in
   st_items (foldEvents es) = st_items (foldEvents es') \<and>
   st_decisions (foldEvents es) = st_decisions (foldEvents es') \<and>
   st_demands (foldEvents es) = st_demands (foldEvents es') \<and>
   openBlockers (foldEvents es) = openBlockers (foldEvents es')"
  using replayEvents_work[of es] openBlockers_work[OF replayEvents_work[of es]]
  by (simp add: foldEvents_def work_def computeOpen_def Let_def)

text \<open>Reopenings always correct a closure: in the state folded from any log whatsoever, every entry
  in the reopening trace of an item names \<open>done\<close> or \<open>cancelled\<close> as the realization it reopened.\<close>

theorem reopenings_correct_closures:
  "list_all (\<lambda>(i, x). traced x) (st_items (foldEvents es))"
proof -
  have "keyed item_id (st_items (foldEvents es))" using foldEvents_keyed by (simp add: keyed_state_def)
  moreover have "all_items traced (foldEvents es)"
    using replayEvents_traced[of es] by (simp add: all_items_def foldEvents_def computeOpen_def)
  ultimately show ?thesis
    by (auto simp: all_items_def keyed_def jget_mem_iff list_all_iff)
qed

text \<open>C19. A delivery dependency follows the work it waits for, both ways: while the referenced item is
  done the blocker is closed, and the reopening of that item opens the blocker again.\<close>

theorem reopening_reopens_dependents:
  assumes "jget (st_blockers (replayEvents es)) b = Some x" "awaits x r"
    and "realization_of (foldEvents es) r = Some Done"
    and "e_type e = RealizationReopened" "ReopenPayload_of (e_payload e) = Some p"
    and "e_aggregateId e = r" "rp_itemId p = r"
  shows "map_option blk_open (jget (st_blockers (foldEvents es)) b) = Some False \<and>
    map_option blk_open (jget (st_blockers (foldEvents (es @ [e]))) b) = Some True"
proof -
  have "realization_of (replayEvents (es @ [e])) r = Some InProgress"
    using assms realization_reopened[OF assms(4,5), of "replayEvents es" r]
    by (simp add: replayEvents_snoc foldEvents_def del: applyEvent.simps)
  moreover have "st_blockers (replayEvents (es @ [e])) = st_blockers (replayEvents es)"
    using assms(4,5) by (simp add: replayEvents_snoc apply_realization_reopened_def on_item_def)
  ultimately show ?thesis
    using assms(1,3) by (simp add: foldEvents_def blocker_computeOpen isOpen_awaits[OF assms(2)])
qed

theorem reopening_reopens_dependents_witness:
  "\<exists>es e. map_option blk_open (jget (st_blockers (foldEvents es)) ''b1'') = Some False \<and>
    map_option blk_open (jget (st_blockers (foldEvents (es @ [e]))) ''b1'') = Some True"
proof -
  let ?b = "sealed 1 None ((sample_event ''04'' BlockerOpened [(''targetId'', Str ''i2''), (''blockerId'', Str ''b1''),
      (''kind'', Str ''dependency''), (''ref'', Str ''i1''), (''reason'', Str ''needs it'')])\<lparr>e_aggregateId := ''b1''\<rparr>)"
  let ?es = "sample_log @ [?b]"
  let ?e = "sealed 4 None (sample_event ''05'' RealizationReopened [(''itemId'', Str ''i1''),
      (''motive'', Str ''regression-observed''), (''reason'', Str ''it broke'')])"
  note D = replayEvents_def sample_log_def sample1_def sample2_def sample3_def
        apply_item_created_def apply_realization_transition_def ItemCreatedPayload_of_def enum_of_def item_kinds_def
        realizations_def js_prop_def emptyState_def on_item_def apply_blocker_opened_def BlockerOpenedPayload_of_def
        blocker_kinds_def new_item_def new_blocker_def
  have x: "\<exists>x. jget (st_blockers (replayEvents ?es)) ''b1'' = Some x \<and> awaits x ''i1''"
    by (simp add: D awaits_def)
  have r: "realization_of (foldEvents ?es) ''i1'' = Some Done"
    by (simp add: foldEvents_def) (simp add: D realization_of_def)
  have p: "\<exists>p. ReopenPayload_of (e_payload ?e) = Some p \<and> rp_itemId p = ''i1''"
    by (simp add: ReopenPayload_of_def enum_of_def REOPEN_MOTIVES_def js_prop_def)
  from x p reopening_reopens_dependents[OF _ _ r, of "''b1''" _ ?e] show ?thesis by force
qed

end
