(* ===== verification/Snapshot.thy ===== *)
theory Snapshot
  imports Fold_Laws "HOL-Library.Char_ord"
begin

text \<open>
  \<open>packages/track/src/state/snapshot.ts\<close>: the snapshot cache of the folded state. The directory
  \<open>.track/snapshots\<close> is a map from file names to contents, absent before the first save; a file
  holds the value that reading its JSON text gives, or text that does not parse. The fields of a state that
  have a type of their own are strings, booleans and lists of them, which cloning, writing and reading
  return as they are; those that hold a value as a payload brought it go through \<open>structuredClone\<close> and
  the JSON round trip. What a getter returns is not part of a value: a clone that would call one is
  refused in the model.
\<close>

section \<open>Clones and JSON texts\<close>

fun structuredClone :: "js \<Rightarrow> error + js" where
  "structuredClone (Arr xs) = bindR (mapR structuredClone xs) (\<lambda>ys. Inr (Arr ys))"
| "structuredClone (Obj p fs) =
     bindR (mapR (\<lambda>(k, v). bindR (structuredClone v) (\<lambda>w. Inr (k, w))) fs) (\<lambda>gs. Inr (Obj ObjectProto gs))"
| "structuredClone Func = Inl (Error ''DataCloneError'')"
| "structuredClone Symbol = Inl (Error ''DataCloneError'')"
| "structuredClone Accessor = Inl (Error ''getter'')"
| "structuredClone v = Inr v"

text \<open>\<open>JSON.parse(JSON.stringify(v))\<close> of a clone, which holds no function: a member that is undefined is left
  out, in an array it is \<open>null\<close>, and so is a number that is not finite.\<close>

definition no_text :: "js \<Rightarrow> bool" where
  "no_text v \<longleftrightarrow> v \<in> {Undef, Hole, Func, Symbol}"

fun json_copy :: "js \<Rightarrow> error + js" where
  "json_copy (Arr xs) = bindR (mapR (\<lambda>x. if no_text x then Inr Null else json_copy x) xs) (\<lambda>ys. Inr (Arr ys))"
| "json_copy (Obj p fs) =
     bindR (mapR (\<lambda>(k, v). if no_text v then Inr (k, v) else bindR (json_copy v) (\<lambda>w. Inr (k, w))) fs) (\<lambda>gs.
     Inr (Obj ObjectProto (filter (\<lambda>(k, v). \<not> no_text v) gs)))"
| "json_copy (Num n) = (case n of Fin q \<Rightarrow> Inr (Num n) | _ \<Rightarrow> Inr Null)"
| "json_copy BigInt = Inl (Error ''TypeError'')"
| "json_copy v = Inr (if no_text v then Undef else v)"

section \<open>Serialised states\<close>

text \<open>\<open>Partial<SerializedState>\<close>: every collection may be missing.\<close>

record serialized_state =
  ser_items :: "item_state list option"
  ser_decisions :: "decision_state list option"
  ser_blockers :: "blocker_state list option"
  ser_criteria :: "criterion_state list option"
  ser_evidence :: "evidence_state list option"
  ser_verificationRuns :: "verification_run list option"
  ser_specAmendments :: "(string \<times> spec_amendment list) list option"
  ser_demands :: "demand_state list option"

record snapshot =
  sn_streamLength :: nat
  sn_state :: serialized_state

text \<open>The collections of a state, and a copy of them with their values copied.\<close>

definition collections :: "state \<Rightarrow> serialized_state" where
  "collections st = \<lparr>
     ser_items = Some (jvals (st_items st)),
     ser_decisions = Some (jvals (st_decisions st)),
     ser_blockers = Some (jvals (st_blockers st)),
     ser_criteria = Some (jvals (st_criteria st)),
     ser_evidence = Some (jvals (st_evidence st)),
     ser_verificationRuns = Some (jvals (st_verificationRuns st)),
     ser_specAmendments = Some (st_specAmendments st),
     ser_demands = Some (jvals (st_demands st))\<rparr>"

definition copy_member :: "(js \<Rightarrow> error + js) \<Rightarrow> js option \<Rightarrow> error + js option" where
  "copy_member f x = (case x of None \<Rightarrow> Inr None
     | Some v \<Rightarrow> bindR (f v) (\<lambda>w. Inr (if w = Undef then None else Some w)))"

definition copy_elements :: "(js \<Rightarrow> error + js) \<Rightarrow> js list \<Rightarrow> error + js list" where
  "copy_elements f xs = bindR (f (Arr xs)) (\<lambda>w. Inr (js_elems w))"

definition copy_item :: "(js \<Rightarrow> error + js) \<Rightarrow> item_state \<Rightarrow> error + item_state" where
  "copy_item f i =
     bindR (copy_member f (item_report i)) (\<lambda>report.
     bindR (copy_member f (item_priority i)) (\<lambda>priority.
     Inr (i\<lparr>item_report := report, item_priority := priority\<rparr>)))"

definition copy_decision :: "(js \<Rightarrow> error + js) \<Rightarrow> decision_state \<Rightarrow> error + decision_state" where
  "copy_decision f d = bindR (f (dec_dossier d)) (\<lambda>dossier. Inr (d\<lparr>dec_dossier := dossier\<rparr>))"

definition copy_demand :: "(js \<Rightarrow> error + js) \<Rightarrow> demand_state \<Rightarrow> error + demand_state" where
  "copy_demand f d =
     (case dem_links d of
        None \<Rightarrow> Inr d
      | Some ls \<Rightarrow> bindR (copy_elements f ls) (\<lambda>links. Inr (d\<lparr>dem_links := Some links\<rparr>)))"

definition copy_amendment :: "(js \<Rightarrow> error + js) \<Rightarrow> spec_amendment \<Rightarrow> error + spec_amendment" where
  "copy_amendment f a = bindR (copy_elements f (sap_patch a)) (\<lambda>patch. Inr (a\<lparr>sap_patch := patch\<rparr>))"

definition copy_all :: "('a \<Rightarrow> error + 'a) \<Rightarrow> 'a list option \<Rightarrow> error + 'a list option" where
  "copy_all f xs = (case xs of None \<Rightarrow> Inr None | Some l \<Rightarrow> bindR (mapR f l) (\<lambda>l'. Inr (Some l')))"

definition copy_serialized :: "(js \<Rightarrow> error + js) \<Rightarrow> serialized_state \<Rightarrow> error + serialized_state" where
  "copy_serialized f s =
     bindR (copy_all (copy_item f) (ser_items s)) (\<lambda>items.
     bindR (copy_all (copy_decision f) (ser_decisions s)) (\<lambda>decisions.
     bindR (copy_all (\<lambda>(k, l). bindR (mapR (copy_amendment f) l) (\<lambda>l'. Inr (k, l'))) (ser_specAmendments s)) (\<lambda>amendments.
     bindR (copy_all (copy_demand f) (ser_demands s)) (\<lambda>demands.
     Inr (s\<lparr>ser_items := items, ser_decisions := decisions, ser_specAmendments := amendments, ser_demands := demands\<rparr>)))))"

definition serializeState :: "state \<Rightarrow> error + serialized_state" where
  "serializeState st = copy_serialized structuredClone (collections st)"

definition or_empty :: "'a list option \<Rightarrow> 'a list" where
  "or_empty x = (case x of None \<Rightarrow> [] | Some l \<Rightarrow> l)"

definition new_map :: "('k \<times> 'v) list \<Rightarrow> ('k, 'v) jmap" where
  "new_map es = fold (\<lambda>(k, v). jset k v) es []"

definition keyed_map :: "('v \<Rightarrow> 'k) \<Rightarrow> 'v list option \<Rightarrow> ('k, 'v) jmap" where
  "keyed_map key vs = new_map (map (\<lambda>v. (key v, v)) (or_empty vs))"

definition deserializeState :: "serialized_state \<Rightarrow> state" where
  "deserializeState s = \<lparr>
     st_items = keyed_map item_id (ser_items s),
     st_decisions = keyed_map dec_id (ser_decisions s),
     st_blockers = keyed_map blk_id (ser_blockers s),
     st_criteria = keyed_map cr_id (ser_criteria s),
     st_evidence = keyed_map ev_id (ser_evidence s),
     st_verificationRuns = keyed_map vrp_runId (ser_verificationRuns s),
     st_specAmendments = new_map (or_empty (ser_specAmendments s)),
     st_demands = keyed_map dem_id (ser_demands s)\<rparr>"

section \<open>File names\<close>

definition digit_char :: "nat \<Rightarrow> char" where
  "digit_char d = char_of (48 + d)"

definition char_digit :: "char \<Rightarrow> nat option" where
  "char_digit c = (if 48 \<le> (of_char c :: nat) \<and> of_char c \<le> (57 :: nat) then Some (of_char c - 48) else None)"

text \<open>Decimal text of a whole number below the range where JavaScript prints an exponent.\<close>

fun nat_str :: "nat \<Rightarrow> string" where
  "nat_str n = (if n < 10 then [digit_char n] else nat_str (n div 10) @ [digit_char (n mod 10)])"

declare nat_str.simps [simp del]

definition int_str :: "int \<Rightarrow> string" where
  "int_str i = (if i < 0 then CHR ''-'' # nat_str (nat (- i)) else nat_str (nat i))"

text \<open>The longest prefix of digits, read from the left onto an accumulator.\<close>

fun digits_value :: "nat \<Rightarrow> string \<Rightarrow> nat" where
  "digits_value acc [] = acc"
| "digits_value acc (c # s) = (case char_digit c of None \<Rightarrow> acc | Some d \<Rightarrow> digits_value (10 * acc + d) s)"

definition unsigned_value :: "string \<Rightarrow> nat option" where
  "unsigned_value s = (case s of
     [] \<Rightarrow> None
   | c # _ \<Rightarrow> if char_digit c = None then None else Some (digits_value 0 s))"

text \<open>\<open>Number.parseInt(f, 10)\<close>, with \<open>None\<close> for \<open>NaN\<close>.\<close>

definition parseInt :: "string \<Rightarrow> int option" where
  "parseInt s =
     (let t = dropWhile js_space s in
      case t of
        [] \<Rightarrow> None
      | c # u \<Rightarrow>
          if c = CHR ''-'' then map_option (\<lambda>n. - int n) (unsigned_value u)
          else if c = CHR ''+'' then map_option int (unsigned_value u)
          else map_option int (unsigned_value t))"

definition json_ext :: string where
  "json_ext = ''.json''"

section \<open>The cache\<close>

datatype snapshot_file = Snap snapshot | Garbled

type_synonym snapshots_dir = "(string, snapshot_file) jmap option"

text \<open>The directory is made before the text is; a state that cannot be cloned leaves no trace.\<close>

definition saveSnapshot :: "track_event list \<Rightarrow> snapshots_dir \<Rightarrow> (error + snapshot) \<times> snapshots_dir" where
  "saveSnapshot events dir =
     (case serializeState (foldEvents events) of
        Inl e \<Rightarrow> (Inl e, dir)
      | Inr s \<Rightarrow>
          (let files = (case dir of None \<Rightarrow> [] | Some m \<Rightarrow> m) in
           case copy_serialized json_copy s of
             Inl e \<Rightarrow> (Inl e, Some files)
           | Inr t \<Rightarrow>
               (Inr \<lparr>sn_streamLength = length events, sn_state = s\<rparr>,
                Some (jset (nat_str (length events) @ json_ext) (Snap \<lparr>sn_streamLength = length events, sn_state = t\<rparr>) files))))"

definition loadLatestSnapshot :: "snapshots_dir \<Rightarrow> error + snapshot option" where
  "loadLatestSnapshot dir =
     (case dir of
        None \<Rightarrow> Inr None
      | Some files \<Rightarrow>
          (let names = filter (\<lambda>f. suffix json_ext f) (jkeys files);
               lengths = sort_key uminus (List.map_filter parseInt names) in
           case lengths of
             [] \<Rightarrow> Inr None
           | latest # _ \<Rightarrow>
               (case jget files (int_str latest @ json_ext) of
                  None \<Rightarrow> Inl (Error ''ENOENT'')
                | Some Garbled \<Rightarrow> Inl (Error ''SyntaxError'')
                | Some (Snap s) \<Rightarrow> Inr (Some s))))"

section \<open>Reading back\<close>

lemma char_digit_digit [simp]: "d < 10 \<Longrightarrow> char_digit (digit_char d) = Some d"
  by (simp add: char_digit_def digit_char_def)

lemma digits_value_append:
  "list_all (\<lambda>c. char_digit c \<noteq> None) s \<Longrightarrow> digits_value acc (s @ t) = digits_value (digits_value acc s) t"
  by (induction s arbitrary: acc) auto

lemma nat_str_digits: "list_all (\<lambda>c. char_digit c \<noteq> None) (nat_str n)"
proof (induction n rule: nat_str.induct)
  case (1 n)
  then show ?case by (subst nat_str.simps) simp
qed

lemma nat_str_value: "digits_value 0 (nat_str n) = n"
proof (induction n rule: nat_str.induct)
  case (1 n)
  then show ?case
    by (subst nat_str.simps) (simp add: digits_value_append[OF nat_str_digits])
qed

lemma nat_str_not_Nil [simp]: "nat_str n \<noteq> []"
  by (subst nat_str.simps) simp

lemma nat_str_inject [simp]: "nat_str m = nat_str n \<longleftrightarrow> m = n"
  using nat_str_value by metis

lemma digit_not_space: "char_digit c \<noteq> None \<Longrightarrow> \<not> js_space c \<and> c \<noteq> CHR ''-'' \<and> c \<noteq> CHR ''+''"
  by (auto simp: char_digit_def js_space_def split: if_splits)

lemma parseInt_name: "parseInt (nat_str n @ json_ext) = Some (int n)"
proof -
  obtain c s where cs: "nat_str n = c # s"
    using nat_str_not_Nil[of n] by (cases "nat_str n") auto
  then have c: "char_digit c \<noteq> None"
    using nat_str_digits[of n] by simp
  have "digits_value 0 (nat_str n @ json_ext) = n"
    by (simp add: digits_value_append[OF nat_str_digits] nat_str_value) (simp add: json_ext_def char_digit_def)
  then have "unsigned_value (nat_str n @ json_ext) = Some n"
    using c cs by (simp add: unsigned_value_def)
  then show ?thesis
    using cs digit_not_space[OF c] by (simp add: parseInt_def)
qed

lemma new_map_append: "distinct (jkeys (acc @ m)) \<Longrightarrow> fold (\<lambda>(k, v). jset k v) m acc = acc @ m"
proof (induction m arbitrary: acc)
  case (Cons p m)
  then show ?case
    by (cases p) (simp add: jset_new jget_eq_None_iff jkeys_def)
qed simp

lemma new_map_self: "distinct (jkeys m) \<Longrightarrow> new_map m = m"
  using new_map_append[of "[]" m] by (simp add: new_map_def)

lemma keyed_map_jvals: "keyed key m \<Longrightarrow> keyed_map key (Some (jvals m)) = m"
proof -
  assume m: "keyed key m"
  then have "map (\<lambda>v. (key v, v)) (jvals m) = m"
    by (auto simp: keyed_def jvals_def intro!: map_idI)
  then show ?thesis
    using m by (simp add: keyed_map_def or_empty_def new_map_self keyed_def)
qed

lemma deserialize_collections: "keyed_state st \<Longrightarrow> deserializeState (collections st) = st"
  by (simp add: deserializeState_def collections_def keyed_map_jvals keyed_state_def new_map_self or_empty_def
      keyed_groups_def)

end
