(* ===== verification/Snapshot_Laws.thy ===== *)
theory Snapshot_Laws
  imports Snapshot
begin

text \<open>
  The snapshot cache returns what was folded: the values a folded state holds are JSON values when the
  payloads of its events are, which cloning, writing and reading return as they are, and the latest
  snapshot is the one of the longest log saved.
\<close>

section \<open>JSON values\<close>

fun json_value :: "js \<Rightarrow> bool" where
  "json_value Null = True"
| "json_value (Bool b) = True"
| "json_value (Str s) = True"
| "json_value (Num n) = (\<exists>q. n = Fin q)"
| "json_value (Arr xs) = list_all json_value xs"
| "json_value (Obj p fs) = (p = ObjectProto \<and> distinct (map fst fs) \<and> list_all (\<lambda>(k, v). json_value v) fs)"
| "json_value v = False"

lemma json_text: "json_value v \<Longrightarrow> \<not> no_text v"
  by (cases v) (simp_all add: no_text_def)

lemma clone_json: "json_value v \<Longrightarrow> structuredClone v = Inr v"
proof (induction v)
  case (Arr xs)
  then have "mapR structuredClone xs = Inr (map id xs)"
    by (intro mapR_all) (simp add: list_all_iff)
  then show ?case by simp
next
  case (Obj p fs)
  have "mapR (\<lambda>(k, v). bindR (structuredClone v) (\<lambda>w. Inr (k, w))) fs = Inr (map id fs)"
    using Obj by (intro mapR_all) (force simp: list_all_iff)
  with Obj.prems show ?case by simp
qed auto

lemma copy_json: "json_value v \<Longrightarrow> json_copy v = Inr v"
proof (induction v)
  case (Arr xs)
  have "mapR (\<lambda>x. if no_text x then Inr Null else json_copy x) xs = Inr (map id xs)"
    using Arr by (intro mapR_all) (auto simp: list_all_iff json_text)
  then show ?case by simp
next
  case (Obj p fs)
  have each: "json_copy v = Inr v" "\<not> no_text v" if "(k, v) \<in> set fs" for k v
    using Obj.IH[OF that, of v] Obj.prems that by (auto simp: list_all_iff json_text)
  have "mapR (\<lambda>(k, v). if no_text v then Inr (k, v) else bindR (json_copy v) (\<lambda>w. Inr (k, w))) fs = Inr (map id fs)"
    by (rule mapR_all) (auto simp: each)
  moreover have "filter (\<lambda>(k, v). \<not> no_text v) fs = fs"
    using each by (auto simp: filter_id_conv)
  ultimately show ?case using Obj.prems by simp
qed (auto simp: no_text_def)

definition json_member :: "js \<Rightarrow> bool" where
  "json_member v \<longleftrightarrow> v = Undef \<or> json_value v"

section \<open>States of JSON values\<close>

definition json_item :: "item_state \<Rightarrow> bool" where
  "json_item i \<longleftrightarrow> pred_option json_value (item_report i) \<and> pred_option json_value (item_priority i)"

definition json_decision :: "decision_state \<Rightarrow> bool" where
  "json_decision d \<longleftrightarrow> json_member (dec_dossier d)"

definition json_demand :: "demand_state \<Rightarrow> bool" where
  "json_demand d \<longleftrightarrow> pred_option (list_all json_value) (dem_links d)"

definition json_amendment :: "spec_amendment \<Rightarrow> bool" where
  "json_amendment a \<longleftrightarrow> list_all json_value (sap_patch a)"

definition json_state :: "state \<Rightarrow> bool" where
  "json_state st \<longleftrightarrow> (\<forall>i \<in> set (jvals (st_items st)). json_item i) \<and>
     (\<forall>d \<in> set (jvals (st_decisions st)). json_decision d) \<and>
     (\<forall>l \<in> set (jvals (st_specAmendments st)). list_all json_amendment l) \<and>
     (\<forall>d \<in> set (jvals (st_demands st)). json_demand d)"

text \<open>A copy that returns JSON values, and undefined for an undefined member, as they are.\<close>

locale faithful_copy =
  fixes f :: "js \<Rightarrow> error + js"
  assumes same: "json_member v \<Longrightarrow> f v = Inr v"
begin

lemma faithful_value: "json_value v \<Longrightarrow> f v = Inr v"
  using same by (simp add: json_member_def)

lemma copy_member_json: "pred_option json_value x \<Longrightarrow> copy_member f x = Inr x"
  by (cases x) (auto simp: copy_member_def faithful_value)

lemma copy_elements_json: "list_all json_value xs \<Longrightarrow> copy_elements f xs = Inr xs"
  by (simp add: copy_elements_def faithful_value)

lemma copy_records_json:
  "json_item i \<Longrightarrow> copy_item f i = Inr i"
  "json_decision d \<Longrightarrow> copy_decision f d = Inr d"
  "json_demand m \<Longrightarrow> copy_demand f m = Inr m"
  "json_amendment a \<Longrightarrow> copy_amendment f a = Inr a"
  using same
  by (auto simp: json_item_def copy_item_def copy_member_json json_decision_def copy_decision_def
      json_demand_def copy_demand_def copy_elements_json json_amendment_def copy_amendment_def split: option.split)

lemma copy_all_id: "(\<And>x. x \<in> set xs \<Longrightarrow> g x = Inr x) \<Longrightarrow> copy_all g (Some xs) = Inr (Some xs)"
  using mapR_all[of xs g id] by (simp add: copy_all_def)

lemma copy_serialized_json:
  assumes "json_state st"
  shows "copy_serialized f (collections st) = Inr (collections st)"
proof -
  have "mapR (copy_amendment f) l = Inr l" if "list_all json_amendment l" for l
    using that mapR_all[of l "copy_amendment f" id] by (simp add: list_all_iff copy_records_json)
  then have "(\<lambda>(k, l). bindR (mapR (copy_amendment f) l) (\<lambda>l'. Inr (k, l'))) p = Inr p"
    if "p \<in> set (st_specAmendments st)" for p
    using assms that by (cases p) (force simp: json_state_def jvals_def)
  then show ?thesis
    using assms by (simp add: copy_serialized_def collections_def copy_all_id json_state_def copy_records_json)
qed

end

interpretation clone: faithful_copy structuredClone
  by unfold_locales (auto simp: json_member_def clone_json)

interpretation text_copy: faithful_copy json_copy
  by unfold_locales (auto simp: json_member_def copy_json no_text_def)

lemma save_json:
  assumes "json_state (foldEvents es)"
  defines "s \<equiv> \<lparr>sn_streamLength = length es, sn_state = collections (foldEvents es)\<rparr>"
  shows "saveSnapshot es dir =
    (Inr s, Some (jset (nat_str (length es) @ json_ext) (Snap s) (case dir of None \<Rightarrow> [] | Some m \<Rightarrow> m)))"
  using clone.copy_serialized_json[OF assms(1)] text_copy.copy_serialized_json[OF assms(1)]
  by (simp add: saveSnapshot_def serializeState_def s_def Let_def)

section \<open>Events with JSON payloads\<close>

text \<open>A log that was read from its file has JSON payloads. Two more things are asked of them: an artifact event
  carries its artifact, and the stage of a report is not the name of a method of \<open>Object.prototype\<close>, which
  the alias table of the stages would answer with that method.\<close>

definition json_event :: "track_event \<Rightarrow> bool" where
  "json_event e \<longleftrightarrow> json_value (e_payload e) \<and>
     (e_type e = DecisionArtifactAdded \<longrightarrow> js_prop (e_payload e) ''artifact'' \<noteq> Undef) \<and>
     (e_type e = ItemReportUpdated \<longrightarrow> json_member (normalizeReportStage (js_prop (js_prop (e_payload e) ''stage'') ''value'')))"

lemma json_prop: "json_value v \<Longrightarrow> json_member (js_prop v k)"
  by (cases v) (auto simp: json_member_def js_prop_def list_all_iff split: option.split dest!: map_of_SomeD)

lemma json_elems: "json_member v \<Longrightarrow> list_all json_value (js_elems v)"
  by (cases v) (auto simp: json_member_def)

lemma update_fields: "(k', w) \<in> set (AList.update k v fs) \<Longrightarrow> w = v \<or> (k', w) \<in> set fs"
  by (induction fs) (auto split: if_splits)

lemma json_with: "json_member o' \<Longrightarrow> json_value v \<Longrightarrow> json_value (js_with k v o')"
  by (cases o') (auto simp: js_with_def obj_def map_filter_simps json_member_def list_all_iff distinct_update
      dest!: update_fields)

lemma json_without: "json_value v \<Longrightarrow> json_value (without k v)"
  by (cases v) (auto simp: list_all_iff distinct_map_filter)

lemma json_report:
  assumes "json_value v" and "json_member (normalizeReportStage (js_prop (js_prop v ''stage'') ''value''))"
  shows "json_value (normalizeStoredReport v)"
proof (cases "js_prop v ''stage''")
  case (Obj p fs)
  have "json_member (js_prop v ''stage'')" by (rule json_prop[OF assms(1)])
  with Obj assms show ?thesis
    by (auto simp: normalizeStoredReport_def Let_def json_member_def intro!: json_with json_without)
next
  case (Arr xs)
  with assms show ?thesis by (simp add: normalizeStoredReport_def json_without)
qed (use assms in \<open>cases v; simp add: normalizeStoredReport_def\<close>)+

lemma json_updates:
  assumes "json_state st"
  shows "(\<forall>i \<in> set (jvals mi). json_item i) \<Longrightarrow> json_state (st\<lparr>st_items := mi\<rparr>)"
    and "(\<forall>d \<in> set (jvals md). json_decision d) \<Longrightarrow> json_state (st\<lparr>st_decisions := md\<rparr>)"
    and "json_state (st\<lparr>st_blockers := mb\<rparr>)" and "json_state (st\<lparr>st_criteria := mc\<rparr>)"
    and "json_state (st\<lparr>st_evidence := me\<rparr>)" and "json_state (st\<lparr>st_verificationRuns := mv\<rparr>)"
    and "(\<forall>l \<in> set (jvals ms). list_all json_amendment l) \<Longrightarrow> json_state (st\<lparr>st_specAmendments := ms\<rparr>)"
    and "(\<forall>d \<in> set (jvals mm). json_demand d) \<Longrightarrow> json_state (st\<lparr>st_demands := mm\<rparr>)"
  using assms by (simp_all add: json_state_def)

lemma json_jset: "(\<forall>x \<in> set (jvals m). P x) \<Longrightarrow> P v \<Longrightarrow> \<forall>x \<in> set (jvals (jset k v m)). P x"
  by (auto simp: jvals_def jset_def dest!: update_fields)

lemma json_jmodify: "(\<forall>x \<in> set (jvals m). P x) \<Longrightarrow> (\<And>x. P x \<Longrightarrow> P (f x)) \<Longrightarrow> \<forall>x \<in> set (jvals (jmodify k f m)). P x"
  by (auto simp: jvals_def jmodify_def)

lemma json_on_item: "json_state st \<Longrightarrow> (\<And>i. json_item i \<Longrightarrow> json_item (f i)) \<Longrightarrow> json_state (on_item a f st)"
  unfolding on_item_def by (intro json_updates json_jmodify) (auto simp: json_state_def)

lemma json_on_decision: "json_state st \<Longrightarrow> (\<And>d. json_decision d \<Longrightarrow> json_decision (f d)) \<Longrightarrow> json_state (on_decision a f st)"
  unfolding on_decision_def by (intro json_updates json_jmodify) (auto simp: json_state_def)

lemma json_on_demand: "json_state st \<Longrightarrow> (\<And>d. json_demand d \<Longrightarrow> json_demand (f d)) \<Longrightarrow> json_state (on_demand a f st)"
  unfolding on_demand_def by (intro json_updates json_jmodify) (auto simp: json_state_def)

lemma json_cast: "json_state st \<Longrightarrow> (\<And>y. x = Some y \<Longrightarrow> json_state (f y st)) \<Longrightarrow> json_state (cast x f st)"
  by (rule cast_induct)

lemma item_values_kept [simp]:
  "item_report (add_link l i) = item_report i" "item_report (applyItemRaci u i) = item_report i"
  "item_report (reopen_item p e i) = item_report i" "item_report (set_disposition g d i) = item_report i"
  "item_priority (add_link l i) = item_priority i" "item_priority (applyItemRaci u i) = item_priority i"
  "item_priority (reopen_item p e i) = item_priority i" "item_priority (set_disposition g d i) = item_priority i"
  by (simp_all add: add_link_def applyItemRaci_def reopen_item_def set_disposition_def Let_def)

lemma json_fold_on_item:
  "json_state st \<Longrightarrow> (\<And>i. json_item i \<Longrightarrow> json_item (f i)) \<Longrightarrow> json_state (fold (\<lambda>t. on_item t f) ts st)"
  by (induction ts arbitrary: st) (auto intro: json_on_item)

lemma json_artifact: "json_member d \<Longrightarrow> json_value a \<Longrightarrow> json_member (append_artifact a d)"
proof -
  assume d: "json_member d" and a: "json_value a"
  have "json_member (js_prop d ''artifacts'')"
    using d json_prop[of d "''artifacts''"] by (auto simp: json_member_def js_prop_def)
  then have "json_value (Arr (js_elems (js_prop d ''artifacts'') @ [a]))" using a json_elems by simp
  from json_with[OF d this] show ?thesis by (simp add: append_artifact_def json_member_def)
qed

lemma json_arr: "json_member v \<Longrightarrow> arr_of v = Some xs \<Longrightarrow> list_all json_value xs"
  by (cases v) (auto simp: json_member_def)

lemma applyEvent_json:
  assumes st: "json_state st" and e: "json_event e"
  shows "json_state (applyEvent e st)"
proof -
  have v: "json_value (e_payload e)" using e by (simp add: json_event_def)
  note member = json_prop[OF v]
  note keeps = json_cast json_on_item json_on_decision json_on_demand json_fold_on_item st
  show ?thesis
  proof (cases "e_type e")
    case ItemReportUpdated
    then show ?thesis
      using e json_report[OF v] by (auto simp: apply_report_updated_def json_event_def json_item_def intro!: keeps)
  next
    case ItemCreated
    have "json_state (st\<lparr>st_items := jset i (new_item i p) (st_items st)\<rparr>)" for i p
      using st by (intro json_updates[OF st] json_jset) (simp_all add: json_state_def json_item_def new_item_def)
    then show ?thesis by (simp add: ItemCreated apply_item_created_def) (intro keeps)
  next
    case SpecAmended
    have "json_state (st\<lparr>st_specAmendments := jset (sap_itemId p)
        ((case jget (st_specAmendments st) (sap_itemId p) of None \<Rightarrow> [] | Some l \<Rightarrow> l) @
         [spec_amend_payload.extend p (spec_amendment.fields (e_at e))]) (st_specAmendments st)\<rparr>)"
      if "SpecAmendPayload_of (e_payload e) = Some p" for p
    proof (intro json_updates[OF st] json_jset)
      show "\<forall>l \<in> set (jvals (st_specAmendments st)). list_all json_amendment l" using st by (simp add: json_state_def)
      have "list_all json_value (sap_patch p)"
        using that json_arr[OF member[of "''patch''"]] by (auto simp: SpecAmendPayload_of_def bind_eq_Some_conv)
      then have new: "json_amendment (spec_amend_payload.extend p (spec_amendment.fields (e_at e)))"
        by (simp add: json_amendment_def spec_amend_payload.defs spec_amendment.defs)
      show "list_all json_amendment ((case jget (st_specAmendments st) (sap_itemId p) of None \<Rightarrow> [] | Some l \<Rightarrow> l) @
         [spec_amend_payload.extend p (spec_amendment.fields (e_at e))])"
        using st new by (auto simp: json_state_def dest: jget_jvals split: option.split)
    qed
    then show ?thesis by (simp add: SpecAmended apply_spec_amended_def Let_def) (intro keeps)
  next
    case DecisionCreated
    have "json_state (st\<lparr>st_decisions := jset i (new_decision i p) (st_decisions st)\<rparr>)"
      if "DecisionCreatedPayload_of (e_payload e) = Some p" for i p
      using st that member[of "''dossier''"]
      by (intro json_updates[OF st] json_jset)
        (auto simp: json_state_def json_decision_def new_decision_def DecisionCreatedPayload_of_def bind_eq_Some_conv)
    then show ?thesis by (simp add: DecisionCreated apply_decision_created_def) (intro keeps)
  next
    case DemandRaised
    have key: "json_state (st\<lparr>st_demands := jset (dem_id d) d (st_demands st)\<rparr>)" if "json_demand d" for d
      using st that by (intro json_updates[OF st] json_jset) (simp_all add: json_state_def)
    show ?thesis
      unfolding applyEvent.simps DemandRaised event_type.case apply_demand_raised_def
      by (rule json_cast[OF st], rule key)
        (use json_arr[OF member[of "''links''"]] in \<open>auto simp: bind_eq_Some_conv opt_def json_demand_def split: if_splits\<close>)
  next
    case DecisionArtifactAdded
    then have "json_value (js_prop (e_payload e) ''artifact'')"
      using e member[of "''artifact''"] by (simp add: json_event_def json_member_def)
    then show ?thesis
      by (auto simp: DecisionArtifactAdded apply_artifact_added_def json_decision_def intro!: keeps json_artifact)
  next
    case PriorityAssessed
    then show ?thesis by (auto simp: apply_priority_assessed_def json_item_def v intro!: keeps)
  next
    case DossierRevised
    then show ?thesis by (auto simp: apply_dossier_revised_def json_decision_def member intro!: keeps)
  next
    case DecisionOptionSelected
    have "json_decision (d\<lparr>dec_dossier := js_with ''selectedOptionId'' (Str z) (dec_dossier d)\<rparr>)" if "json_decision d" for d z
      using that json_with[of "dec_dossier d" "Str z"] by (simp add: json_decision_def json_member_def)
    then show ?thesis by (auto simp: DecisionOptionSelected apply_option_selected_def intro!: keeps)
  qed (auto simp: apply_defs json_item_def json_decision_def json_demand_def dispose_demand_def Let_def split: option.split
      intro!: keeps json_updates)
qed

lemma foldEvents_json: "list_all json_event es \<Longrightarrow> json_state (foldEvents es)"
proof -
  have "json_state st \<Longrightarrow> list_all json_event es \<Longrightarrow> json_state (fold applyEvent es st)" for st
    by (induction es arbitrary: st) (simp_all del: applyEvent.simps add: applyEvent_json)
  moreover have "json_state emptyState" by (simp add: json_state_def emptyState_def jvals_def)
  ultimately show "list_all json_event es \<Longrightarrow> json_state (foldEvents es)"
    by (simp add: foldEvents_def computeOpen_def replayEvents_def json_updates del: applyEvent.simps)
qed

section \<open>A directory of saved snapshots\<close>

definition saves :: "track_event list list \<Rightarrow> snapshots_dir" where
  "saves logs = fold (\<lambda>es dir. snd (saveSnapshot es dir)) logs None"

definition file_of :: "track_event list \<Rightarrow> string" where
  "file_of es = nat_str (length es) @ json_ext"

definition snapshot_of :: "track_event list \<Rightarrow> snapshot" where
  "snapshot_of es = \<lparr>sn_streamLength = length es, sn_state = collections (foldEvents es)\<rparr>"

lemma saves_snoc:
  "list_all json_event es \<Longrightarrow> saves (logs @ [es]) =
     Some (jset (file_of es) (Snap (snapshot_of es)) (case saves logs of None \<Rightarrow> [] | Some m \<Rightarrow> m))"
  by (simp add: saves_def save_json foldEvents_json file_of_def snapshot_of_def)

lemma saves_keys:
  "logs \<noteq> [] \<Longrightarrow> list_all (list_all json_event) logs \<Longrightarrow>
     \<exists>files. saves logs = Some files \<and> set (jkeys files) = file_of ` set logs"
proof (induction logs rule: rev_induct)
  case (snoc es logs)
  have "set (jkeys (case saves logs of None \<Rightarrow> [] | Some m \<Rightarrow> m)) = file_of ` set logs"
  proof (cases "logs = []")
    case False
    with snoc show ?thesis by auto
  qed (simp add: saves_def jkeys_def)
  then show ?case using snoc.prems by (simp add: saves_snoc jkeys_jset)
qed simp

lemma saves_get:
  "list_all (list_all json_event) (es # later) \<Longrightarrow> \<forall>l \<in> set later. length l \<noteq> length es \<Longrightarrow>
     \<exists>files. saves (logs @ es # later) = Some files \<and> jget files (file_of es) = Some (Snap (snapshot_of es))"
proof (induction later rule: rev_induct)
  case Nil
  then show ?case by (simp add: saves_snoc)
next
  case (snoc l later)
  then obtain files where "saves (logs @ es # later) = Some files" "jget files (file_of es) = Some (Snap (snapshot_of es))"
    by auto
  with snoc.prems show ?case
    using saves_snoc[of l "logs @ es # later"] by (auto simp: file_of_def)
qed

lemma set_map_filter_image: "(\<And>x. x \<in> set xs \<Longrightarrow> f x \<noteq> None) \<Longrightarrow> set (List.map_filter f xs) = the ` f ` set xs"
proof (induction xs)
  case (Cons x xs)
  then obtain y where "f x = Some y" by fastforce
  with Cons show ?case by (simp add: map_filter_simps)
qed (simp add: map_filter_simps)

lemma parseInt_file: "parseInt (file_of es) = Some (int (length es))"
  by (simp add: file_of_def parseInt_name)

lemma hd_sort_max:
  assumes "(m :: int) \<in> set xs" and "\<forall>x \<in> set xs. x \<le> m"
  shows "\<exists>ys. sort_key uminus xs = m # ys"
proof -
  obtain y ys where ys: "sort_key uminus xs = y # ys"
    using assms(1) by (metis list.exhaust list.set_cases set_sort)
  have "sorted (map uminus (y # ys))"
    using sorted_sort_key[of uminus xs] ys by metis
  moreover have "m \<in> set (y # ys)" and "y \<in> set xs"
    using assms(1) ys by (metis set_sort, metis list.set_intros(1) set_sort)
  ultimately have "m \<le> y" and "y \<le> m"
    using assms(2) by auto
  then show ?thesis using ys by simp
qed

lemma load_latest:
  assumes "saves logs = Some files" "set (jkeys files) = file_of ` set logs" "es \<in> set logs"
    and "\<forall>l \<in> set logs. length l \<le> length es" and "jget files (file_of es) = Some (Snap s)"
  shows "loadLatestSnapshot (saves logs) = Inr (Some s)"
proof -
  let ?lengths = "List.map_filter parseInt (filter (\<lambda>f. suffix json_ext f) (jkeys files))"
  have names: "filter (\<lambda>f. suffix json_ext f) (jkeys files) = jkeys files"
    unfolding filter_id_conv assms(2) by (auto simp: file_of_def suffix_def)
  have lengths: "set ?lengths = int ` length ` set logs"
    unfolding names by (subst set_map_filter_image) (auto simp: assms(2) image_image parseInt_file)
  have "\<exists>ys. sort_key uminus ?lengths = int (length es) # ys"
    by (rule hd_sort_max) (use lengths assms(3,4) in auto)
  moreover have "int_str (int (length es)) @ json_ext = file_of es"
    by (simp add: int_str_def file_of_def)
  ultimately show ?thesis
    using assms(1,5) by (auto simp: loadLatestSnapshot_def Let_def)
qed

text \<open>A report whose stored stage is the name of a method: its state cannot be cloned.\<close>

definition method_report :: track_event where
  "method_report = sealed 2 None (sample_event ''07'' ItemReportUpdated
     [(''stage'', Obj ObjectProto [(''value'', Str ''toString'')])])"

lemma method_report_json: "json_value (e_payload sample1)" "json_value (e_payload method_report)"
  by (simp_all add: sample1_def method_report_def sealed_def sample_event_def)

lemma method_stage_not_cloned: "saveSnapshot [sample1, method_report] dir = (Inl (Error ''DataCloneError''), dir)"
proof -
  have "normalizeStoredReport (e_payload method_report) =
      Obj ObjectProto [(''stage'', Obj ObjectProto [(''value'', Func)])]"
    by (simp add: method_report_def sealed_def sample_event_def normalizeStoredReport_def normalizeReportStage_def
        legacy_alias_def js_prop_def js_with_def REPORT_STAGES_def LEGACY_STAGE_ALIASES_def object_prototype_methods_def)
  then have "\<exists>x. jvals (st_items (foldEvents [sample1, method_report])) = [x] \<and>
      item_report x = Some (Obj ObjectProto [(''stage'', Obj ObjectProto [(''value'', Func)])])"
    by (simp add: foldEvents_def replayEvents_def computeOpen_def emptyState_def apply_item_created_def
        apply_report_updated_def ItemCreatedPayload_of_def sample1_def method_report_def sealed_def sample_event_def
        on_item_def jset_def jmodify_def jvals_def js_prop_def new_item_def enum_of_def item_kinds_def)
  then show ?thesis
    by (auto simp: saveSnapshot_def serializeState_def copy_serialized_def collections_def copy_all_def copy_item_def
        copy_member_def)
qed

section \<open>Property\<close>

text \<open>C40. A snapshot is a faithful cache, and the one that is loaded is that of the longest log: after saving
  the snapshots of any logs whose payloads are JSON values (with an artifact in each artifact event and no
  report stage that names a method of an object prototype), loading the latest one gives the snapshot of the longest of
  them, the last one saved when several are as long, and deserialising it gives exactly the state folded
  from that log. When a reseal has shortened the log, that is the older, longer log.\<close>

theorem latest_snapshot_is_fold:
  assumes "list_all (list_all json_event) (logs @ es # later)"
    and "\<forall>l \<in> set logs. length l \<le> length es" and "\<forall>l \<in> set later. length l < length es"
  shows "\<exists>s. loadLatestSnapshot (saves (logs @ es # later)) = Inr (Some s) \<and>
    sn_streamLength s = length es \<and> deserializeState (sn_state s) = foldEvents es"
proof -
  obtain files where files: "saves (logs @ es # later) = Some files" "set (jkeys files) = file_of ` set (logs @ es # later)"
    using saves_keys[of "logs @ es # later"] assms(1) by auto
  have "jget files (file_of es) = Some (Snap (snapshot_of es))"
    using saves_get[of es later logs] assms(1,3) files(1) by fastforce
  from load_latest[OF files _ _ this] assms(2,3)
  have "loadLatestSnapshot (saves (logs @ es # later)) = Inr (Some (snapshot_of es))" by fastforce
  then show ?thesis
    using deserialize_collections[OF foldEvents_keyed] by (simp add: snapshot_of_def)
qed

theorem latest_snapshot_is_fold_witness:
  "\<exists>s. loadLatestSnapshot (saves ([[], [sample1]] @ sample_log # [[sample1, sample2]])) = Inr (Some s) \<and>
    sn_streamLength s = 3 \<and> deserializeState (sn_state s) = foldEvents sample_log"
proof -
  have "list_all (list_all json_event) ([[], [sample1]] @ sample_log # [[sample1, sample2]])"
    by (simp add: sample_log_def json_event_def sample1_def sample2_def sample3_def sealed_def sample_event_def)
  from latest_snapshot_is_fold[OF this] show ?thesis by (simp add: sample_log_def eval_nat_numeral)
qed

end
