(* ===== verification/Acceptance.thy ===== *)
theory Acceptance
  imports Fold_Laws
begin

text \<open>
  What is derived from the folded state relative to a commit: the acceptance cascades
  (\<open>packages/track/src/accept/status.ts\<close>), the openness of a blocker at a baseline
  (\<open>report/blocker-status.ts\<close>), the report buckets (\<open>report/buckets.ts\<close>) and the
  eligibility of an item for consolidation (\<open>track.ts\<close>).
\<close>

section \<open>Acceptance\<close>

definition evidenceForCriterion :: "state \<Rightarrow> string \<Rightarrow> evidence_state list" where
  "evidenceForCriterion st c = filter (\<lambda>e. ev_criterionId e = c) (jvals (st_evidence st))"

definition live_fail :: "evidence_state \<Rightarrow> bool" where
  "live_fail e \<longleftrightarrow> map_option run_result (ev_latestRun e) = Some Fail"

definition criterionStatus :: "state \<Rightarrow> string \<Rightarrow> string \<Rightarrow> criterion_status" where
  "criterionStatus st c baselineCommit =
     (let criterion = jget (st_criteria st) c;
          evidence = evidenceForCriterion st c in
      if list_ex live_fail evidence then CFail
      else if Option.bind criterion cr_waiver \<noteq> None then CWaived
      else if evidence = [] then CUnknown
      else if list_ex (\<lambda>e. ev_latestRun e = None) evidence then CUnknown
      else if list_ex (\<lambda>e. map_option run_commit (ev_latestRun e) \<noteq> Some baselineCommit) evidence then CStale
      else CPass)"

definition criteria_of :: "state \<Rightarrow> ulid \<Rightarrow> criterion_state list" where
  "criteria_of st i = filter (\<lambda>c. cr_itemId c = i) (jvals (st_criteria st))"

definition acceptanceStatus :: "state \<Rightarrow> ulid \<Rightarrow> string \<Rightarrow> acceptance_status" where
  "acceptanceStatus st i baselineCommit =
     (if jhas (st_decisions st) i then NoAcceptance
      else
        let criteria = criteria_of st i in
        if criteria = [] then Status CUnknown
        else
          let statuses = map (\<lambda>c. criterionStatus st (cr_id c) baselineCommit) criteria in
          if CFail \<in> set statuses then Status CFail
          else if CUnknown \<in> set statuses then Status CUnknown
          else if CStale \<in> set statuses then Status CStale
          else if CWaived \<in> set statuses then Status CWaived
          else Status CPass)"

definition isConsolidationEligible :: "state \<Rightarrow> ulid \<Rightarrow> bool" where
  "isConsolidationEligible st i =
     (case jget (st_items st) i of
        None \<Rightarrow> False
      | Some item \<Rightarrow>
          if item_realization item \<noteq> Done then False
          else
            let criteria = criteria_of st i in
            if criteria = [] then False
            else list_all (\<lambda>c.
                let evidence = filter (\<lambda>e. ev_criterionId e = cr_id c) (jvals (st_evidence st)) in
                if evidence = [] then False
                else if list_ex (\<lambda>e. ev_latestRun e = None) evidence then False
                else if list_ex live_fail evidence then False
                else list_all (\<lambda>e. map_option run_result (ev_latestRun e) = Some Pass) evidence) criteria)"

section \<open>Openness at a baseline\<close>

definition ACCEPTED_CLOSES :: "acceptance_status list" where
  "ACCEPTED_CLOSES = [Status CPass]"

definition effectiveBlockerOpen :: "state \<Rightarrow> blocker_state \<Rightarrow> string \<Rightarrow> bool" where
  "effectiveBlockerOpen st blocker baselineCommit =
     (if blk_resolvedByEvent blocker then False
      else case (if blk_kind blocker = BDependency \<and> blk_resolutionRule blocker = Some LinkedAccepted
                 then blk_ref blocker else None) of
        Some r \<Rightarrow>
          if (case jget (st_items st) r of
                Some ref \<Rightarrow> length (case item_reopenings ref of None \<Rightarrow> [] | Some rs \<Rightarrow> rs) > 0 \<and>
                            item_realization ref \<noteq> Done
              | None \<Rightarrow> False)
          then True
          else acceptanceStatus st r baselineCommit \<notin> set ACCEPTED_CLOSES
      | None \<Rightarrow> blk_open blocker)"

definition effectiveOpenBlockersForItem :: "state \<Rightarrow> ulid \<Rightarrow> string \<Rightarrow> blocker_state list" where
  "effectiveOpenBlockersForItem st i baselineCommit =
     filter (\<lambda>b. blk_targetId b = i \<and> effectiveBlockerOpen st b baselineCommit) (jvals (st_blockers st))"

section \<open>Buckets\<close>

datatype bucket = Awaited | Dropped | DoneBucket | TodoBucket

record report_config =
  baselineCommit :: string
  requireAccepted :: bool

definition bucketOf :: "state \<Rightarrow> item_state \<Rightarrow> report_config \<Rightarrow> bucket" where
  "bucketOf st item config =
     (if length (effectiveOpenBlockersForItem st (item_id item) (baselineCommit config)) > 0 then Awaited
      else if item_realization item = Cancelled \<or> item_realization item = Rejected then Dropped
      else if item_realization item = Done then
        (if requireAccepted config \<and>
            acceptanceStatus st (item_id item) (baselineCommit config) \<noteq> Status CPass
         then TodoBucket else DoneBucket)
      else TodoBucket)"

section \<open>Characterisations\<close>

text \<open>A criterion that is met at a commit: some evidence, all of it passing there, and no waiver.\<close>

definition met_at :: "string \<Rightarrow> evidence_state \<Rightarrow> bool" where
  "met_at commit e = (case ev_latestRun e of Some r \<Rightarrow> run_result r = Pass \<and> run_commit r = commit | None \<Rightarrow> False)"

lemma run_result_neq_Fail: "r \<noteq> Fail \<longleftrightarrow> r = Pass" "r \<noteq> Pass \<longleftrightarrow> r = Fail"
  by (cases r, simp_all)+

lemma criterionStatus_pass:
  "criterionStatus st c commit = CPass \<longleftrightarrow>
     Option.bind (jget (st_criteria st) c) cr_waiver = None \<and>
     evidenceForCriterion st c \<noteq> [] \<and> list_all (met_at commit) (evidenceForCriterion st c)"
  unfolding criterionStatus_def Let_def
  by (force simp: list_ex_iff list_all_iff met_at_def live_fail_def run_result_neq_Fail
      split: option.splits)

lemma criterionStatus_fail:
  "criterionStatus st c commit = CFail \<longleftrightarrow> list_ex live_fail (evidenceForCriterion st c)"
  by (simp add: criterionStatus_def Let_def)

lemma acceptanceStatus_fail:
  "\<not> jhas (st_decisions st) i \<Longrightarrow> c \<in> set (criteria_of st i) \<Longrightarrow>
     criterionStatus st (cr_id c) commit = CFail \<Longrightarrow> acceptanceStatus st i commit = Status CFail"
proof -
  assume "\<not> jhas (st_decisions st) i" and c: "c \<in> set (criteria_of st i)"
    and fail: "criterionStatus st (cr_id c) commit = CFail"
  moreover have "criteria_of st i \<noteq> []"
    using c by auto
  moreover have "CFail \<in> set (map (\<lambda>c. criterionStatus st (cr_id c) commit) (criteria_of st i))"
    using c fail by (force simp: image_iff)
  ultimately show "acceptanceStatus st i commit = Status CFail"
    by (simp only: acceptanceStatus_def Let_def if_True if_False)
qed

lemma criteria_keyed:
  assumes "keyed_state st" and "c \<in> set (criteria_of st i)"
  shows "jget (st_criteria st) (cr_id c) = Some c"
proof -
  have k: "keyed cr_id (st_criteria st)"
    using assms(1) by (simp add: keyed_state_def)
  obtain k' where "(k', c) \<in> set (st_criteria st)"
    using assms(2) by (auto simp: criteria_of_def jvals_def)
  moreover from this have "k' = cr_id c"
    using k by (auto simp: keyed_def)
  ultimately show ?thesis
    using k by (simp add: keyed_def jget_mem_iff)
qed

lemma mem_map: "y \<in> set (map f xs) \<longleftrightarrow> (\<exists>x \<in> set xs. f x = y)"
  by auto

lemma acceptanceStatus_pass:
  "acceptanceStatus st i commit = Status CPass \<longleftrightarrow>
     \<not> jhas (st_decisions st) i \<and> criteria_of st i \<noteq> [] \<and>
     list_all (\<lambda>c. criterionStatus st (cr_id c) commit = CPass) (criteria_of st i)"
proof -
  have pass: "x = CPass \<longleftrightarrow> x \<noteq> CFail \<and> x \<noteq> CUnknown \<and> x \<noteq> CStale \<and> x \<noteq> CWaived" for x
    by (cases x) simp_all
  show ?thesis
    unfolding pass by (auto simp: acceptanceStatus_def Let_def list_all_iff mem_map simp del: set_map)
qed

text \<open>An unresolved gate on acceptance.\<close>

definition gates_on :: "blocker_state \<Rightarrow> ulid \<Rightarrow> bool" where
  "gates_on b r \<longleftrightarrow> blk_kind b = BDependency \<and> blk_resolutionRule b = Some LinkedAccepted \<and>
     blk_ref b = Some r \<and> \<not> blk_resolvedByEvent b"

lemma effectiveBlockerOpen_gate:
  "gates_on b r \<Longrightarrow> acceptanceStatus st r commit \<noteq> Status CPass \<Longrightarrow> effectiveBlockerOpen st b commit"
  by (auto simp: effectiveBlockerOpen_def gates_on_def ACCEPTED_CLOSES_def split: option.split)

lemma bucketOf_awaited:
  "b \<in> set (jvals (st_blockers st)) \<Longrightarrow> blk_targetId b = item_id item \<Longrightarrow>
     effectiveBlockerOpen st b (baselineCommit config) \<Longrightarrow> bucketOf st item config = Awaited"
  by (auto simp: bucketOf_def effectiveOpenBlockersForItem_def filter_empty_conv)

section \<open>A run in the log\<close>

lemma computeOpen_other [simp]:
  "st_items (computeOpen st) = st_items st" "st_decisions (computeOpen st) = st_decisions st"
  "st_criteria (computeOpen st) = st_criteria st" "st_evidence (computeOpen st) = st_evidence st"
  "st_demands (computeOpen st) = st_demands st" "st_verificationRuns (computeOpen st) = st_verificationRuns st"
  "st_specAmendments (computeOpen st) = st_specAmendments st"
  by (simp_all add: computeOpen_def)

definition run_of :: "track_event \<Rightarrow> run_payload \<Rightarrow> test_run" where
  "run_of e p = \<lparr>run_evidenceId = rnp_evidenceId p, run_commit = rnp_commit p, run_env = rnp_env p,
     run_runner = rnp_runner p, run_result = rnp_result p, run_at = e_at e\<rparr>"

lemma foldEvents_run:
  assumes "e_type e = AcceptanceRun" and "RunPayload_of (e_payload e) = Some p"
  shows "foldEvents (es @ [e]) = (foldEvents es)\<lparr>st_evidence :=
    jmodify (rnp_evidenceId p) (\<lambda>ev. ev\<lparr>ev_latestRun := Some (run_of e p)\<rparr>) (st_evidence (foldEvents es))\<rparr>"
  using assms by (simp add: foldEvents_def replayEvents_snoc apply_run_def computeOpen_def run_of_def)

section \<open>Properties\<close>

text \<open>C25. An item is accepted at a commit exactly when it is not a decision, has a criterion, and every
  one of its criteria has evidence, no waiver, and only evidence whose latest run passed at that
  very commit.\<close>
theorem accepted_exactly:
  "acceptanceStatus (foldEvents es) i commit = Status CPass \<longleftrightarrow>
     \<not> jhas (st_decisions (foldEvents es)) i \<and> criteria_of (foldEvents es) i \<noteq> [] \<and>
     list_all (\<lambda>c. cr_waiver c = None \<and> evidenceForCriterion (foldEvents es) (cr_id c) \<noteq> [] \<and>
         list_all (met_at commit) (evidenceForCriterion (foldEvents es) (cr_id c)))
       (criteria_of (foldEvents es) i)"
proof -
  have "Option.bind (jget (st_criteria (foldEvents es)) (cr_id c)) cr_waiver = cr_waiver c"
    if "c \<in> set (criteria_of (foldEvents es) i)" for c
    using criteria_keyed[OF foldEvents_keyed that] by simp
  then show ?thesis
    by (simp add: acceptanceStatus_pass criterionStatus_pass list_all_iff cong: conj_cong)
qed

text \<open>C33. A failing run revokes acceptance and every gate that rests on it: whatever was recorded before,
  once a run of evidence for a criterion of an item fails, the item is not accepted at any commit, and
  the target of an unresolved acceptance gate on it is in the AWAITED bucket of every report.\<close>
theorem failing_run_reopens_gates:
  assumes "jget (st_blockers (foldEvents es)) b = Some x" "gates_on x r"
    and "\<not> jhas (st_decisions (foldEvents es)) r"
    and "jget (st_criteria (foldEvents es)) c = Some cr" "cr_itemId cr = r"
    and "jget (st_evidence (foldEvents es)) v = Some y" "ev_criterionId y = c"
    and "e_type e = AcceptanceRun" "RunPayload_of (e_payload e) = Some p"
    and "rnp_evidenceId p = v" "rnp_result p = Fail"
    and "jget (st_items (foldEvents es)) (blk_targetId x) = Some item"
  shows "acceptanceStatus (foldEvents (es @ [e])) r commit = Status CFail \<and>
    map_option (\<lambda>i. bucketOf (foldEvents (es @ [e])) i config)
      (jget (st_items (foldEvents (es @ [e]))) (blk_targetId x)) = Some Awaited"
proof -
  let ?st = "foldEvents (es @ [e])"
  note run = foldEvents_run[OF assms(8,9), of es]
  have keyed: "keyed_state (foldEvents es)" by (rule foldEvents_keyed)
  have "jget (st_evidence ?st) v = Some (y\<lparr>ev_latestRun := Some (run_of e p)\<rparr>)"
    using assms(6,10) by (simp add: run)
  then have "y\<lparr>ev_latestRun := Some (run_of e p)\<rparr> \<in> set (evidenceForCriterion ?st c)"
    using jget_jvals assms(7) by (fastforce simp: evidenceForCriterion_def)
  then have "criterionStatus ?st c commit' = CFail" for commit'
    using assms(11) by (force simp: criterionStatus_fail list_ex_iff live_fail_def run_of_def)
  moreover have "cr_id cr = c"
    using keyed assms(4) by (auto simp: keyed_state_def dest: keyed_jget)
  moreover have "cr \<in> set (criteria_of ?st r)"
    using assms(4,5) jget_jvals by (fastforce simp: criteria_of_def run)
  moreover have "\<not> jhas (st_decisions ?st) r"
    using assms(3) by (simp add: run)
  ultimately have fail: "acceptanceStatus ?st r commit' = Status CFail" for commit'
    using acceptanceStatus_fail by blast
  have "item_id item = blk_targetId x"
    using keyed assms(12) by (auto simp: keyed_state_def dest: keyed_jget)
  moreover have "x \<in> set (jvals (st_blockers ?st))"
    using assms(1) jget_jvals by (simp add: run) fast
  moreover have "effectiveBlockerOpen ?st x commit'" for commit'
    by (rule effectiveBlockerOpen_gate[OF assms(2)]) (simp add: fail)
  ultimately have "bucketOf ?st item config = Awaited"
    by (intro bucketOf_awaited) simp_all
  then show ?thesis
    using fail assms(12) by (simp add: run)
qed

theorem failing_run_reopens_gates_witness:
  "\<exists>es e. acceptanceStatus (foldEvents es) ''i1'' ''c0'' = Status CPass \<and>
     acceptanceStatus (foldEvents (es @ [e])) ''i1'' ''c0'' = Status CFail \<and>
     map_option (\<lambda>i. bucketOf (foldEvents (es @ [e])) i \<lparr>baselineCommit = ''c0'', requireAccepted = False\<rparr>)
       (jget (st_items (foldEvents (es @ [e]))) ''i2'') = Some Awaited"
proof -
  let ?ev = "\<lambda>n ty a fs. sealed n None ((sample_event ''x'' ty fs)\<lparr>e_aggregateId := a\<rparr>)"
  let ?run = "\<lambda>n res. ?ev n AcceptanceRun ''i1'' [(''evidenceId'', Str ''v''), (''commit'', Str ''c0''),
      (''env'', Str ''ci''), (''runner'', Str ''r''), (''result'', Str res)]"
  let ?es = "[sample1, ?ev 1 ItemCreated ''i2'' [(''kind'', Str ''bug''), (''title'', Str ''t''), (''workspace'', Str ''w'')],
     ?ev 2 AcceptanceCriterionAdded ''i1'' [(''criterionId'', Str ''c''), (''statement'', Str ''works'')],
     ?ev 3 AcceptanceEvidenceLinked ''i1'' [(''evidenceId'', Str ''v''), (''criterionId'', Str ''c''),
        (''kind'', Str ''unit''), (''locator'', Str ''f'')],
     ?ev 1 BlockerOpened ''b1'' [(''targetId'', Str ''i2''), (''blockerId'', Str ''b1''),
        (''kind'', Str ''dependency''), (''ref'', Str ''i1''), (''reason'', Str ''needs it''),
        (''resolutionRule'', Str ''linked-accepted'')],
     ?run 4 ''pass'']"
  let ?e = "?run 5 ''fail''"
  note D = foldEvents_def replayEvents_def sample1_def
        apply_item_created_def apply_criterion_added_def ItemCreatedPayload_of_def enum_of_def item_kinds_def
        js_prop_def emptyState_def apply_blocker_opened_def BlockerOpenedPayload_of_def
        blocker_kinds_def resolution_rules_def new_item_def new_blocker_def apply_evidence_linked_def
        EvidenceLinkedPayload_of_def evidence_kinds_def apply_run_def RunPayload_of_def run_results_def opt_def
  have st: "\<exists>x y cr item. jget (st_blockers (foldEvents ?es)) ''b1'' = Some x \<and> gates_on x ''i1'' \<and>
      blk_targetId x = ''i2'' \<and> jget (st_items (foldEvents ?es)) ''i2'' = Some item \<and>
      jget (st_criteria (foldEvents ?es)) ''c'' = Some cr \<and> cr_itemId cr = ''i1'' \<and>
      jget (st_evidence (foldEvents ?es)) ''v'' = Some y \<and> ev_criterionId y = ''c'' \<and>
      \<not> jhas (st_decisions (foldEvents ?es)) ''i1''"
    by (simp add: D gates_on_def blocker_computeOpen jhas_def)
  have pass: "acceptanceStatus (foldEvents ?es) ''i1'' ''c0'' = Status CPass"
    by (simp add: acceptanceStatus_def criteria_of_def criterionStatus_def evidenceForCriterion_def live_fail_def
        D jset_def jmodify_def jvals_def jhas_def jget_def Let_def)
  have p: "\<exists>p. RunPayload_of (e_payload ?e) = Some p \<and> rnp_evidenceId p = ''v'' \<and> rnp_result p = Fail"
    by (simp add: RunPayload_of_def enum_of_def run_results_def js_prop_def)
  from st obtain x y cr item where x: "jget (st_blockers (foldEvents ?es)) ''b1'' = Some x" "gates_on x ''i1''"
      "blk_targetId x = ''i2''" "jget (st_items (foldEvents ?es)) ''i2'' = Some item"
    and y: "jget (st_criteria (foldEvents ?es)) ''c'' = Some cr" "cr_itemId cr = ''i1''"
      "jget (st_evidence (foldEvents ?es)) ''v'' = Some y" "ev_criterionId y = ''c''"
      "\<not> jhas (st_decisions (foldEvents ?es)) ''i1''"
    by (elim exE conjE) rule
  from p obtain p where p: "RunPayload_of (e_payload ?e) = Some p" "rnp_evidenceId p = ''v''" "rnp_result p = Fail"
    by (elim exE conjE) rule
  have item: "jget (st_items (foldEvents ?es)) (blk_targetId x) = Some item"
    using x(3,4) by (simp only:)
  have ty: "e_type ?e = AcceptanceRun"
    by simp
  show ?thesis
    using pass failing_run_reopens_gates[OF x(1,2) y(5,1,2,3,4) ty p item, of "''c0''"
      "\<lparr>baselineCommit = ''c0'', requireAccepted = False\<rparr>"]
    unfolding x(3) by (intro exI conjI) (assumption | elim conjE)+
qed

end
