(* ===== verification/Double.thy ===== *)
theory Double
  imports Canonical "HOL-Library.Log_Nat"
begin

text \<open>
  The arithmetic of JavaScript numbers that the sources use on quantities that need not be integers:
  the quotients of \<open>packages/track/src/report/rollup.ts\<close> and \<open>packages/track/src/model/priority.ts\<close>.
  A number is a binary64 value or one of the special values; an operation is the exact rational
  operation followed by rounding to the nearest binary64, ties to even. The sign of zero is not
  represented: no source here divides by zero.
\<close>

section \<open>Rounding\<close>

definition round_even :: "rat \<Rightarrow> int" where
  "round_even x =
     (let f = \<lfloor>x\<rfloor>; d = x - of_int f in
      if d < 1 / 2 then f else if d > 1 / 2 then f + 1 else if even f then f else f + 1)"

text \<open>The power of two at or below a positive rational.\<close>

definition binexp :: "rat \<Rightarrow> int" where
  "binexp q =
     (let (n, d) = quotient_of q; e = int (floorlog 2 (nat n)) - int (floorlog 2 (nat d)) in
      if q < 2 powi e then e - 1 else e)"

text \<open>The distance between neighbouring binary64 values around a rational: 53 significant bits, and no
  exponent below that of the least subnormal.\<close>

definition ulp :: "rat \<Rightarrow> rat" where
  "ulp q = 2 powi (max (binexp \<bar>q\<bar> - 52) (-1074))"

definition rounded :: "rat \<Rightarrow> rat" where
  "rounded q = (if q = 0 then 0 else of_int (round_even (q / ulp q)) * ulp q)"

definition to_double :: "rat \<Rightarrow> jsnum" where
  "to_double q = (if \<bar>rounded q\<bar> < 2 ^ 1024 then Fin (rounded q) else if q > 0 then PosInf else NegInf)"

section \<open>Operations\<close>

fun js_add :: "jsnum \<Rightarrow> jsnum \<Rightarrow> jsnum" where
  "js_add (Fin a) (Fin b) = to_double (a + b)"
| "js_add NaN _ = NaN"
| "js_add _ NaN = NaN"
| "js_add PosInf NegInf = NaN"
| "js_add NegInf PosInf = NaN"
| "js_add PosInf _ = PosInf"
| "js_add _ PosInf = PosInf"
| "js_add NegInf _ = NegInf"
| "js_add _ NegInf = NegInf"

fun js_mul :: "jsnum \<Rightarrow> jsnum \<Rightarrow> jsnum" where
  "js_mul (Fin a) (Fin b) = to_double (a * b)"
| "js_mul NaN _ = NaN"
| "js_mul _ NaN = NaN"
| "js_mul (Fin a) y = (if a = 0 then NaN else if a > 0 then y else if y = PosInf then NegInf else PosInf)"
| "js_mul x (Fin b) = (if b = 0 then NaN else if b > 0 then x else if x = PosInf then NegInf else PosInf)"
| "js_mul x y = (if x = y then PosInf else NegInf)"

text \<open>The divisor is not zero where the sources divide; the value at zero is the one of positive zero.\<close>

fun js_div :: "jsnum \<Rightarrow> jsnum \<Rightarrow> jsnum" where
  "js_div (Fin a) (Fin b) =
     (if b = 0 then (if a = 0 then NaN else if a > 0 then PosInf else NegInf) else to_double (a / b))"
| "js_div NaN _ = NaN"
| "js_div _ NaN = NaN"
| "js_div (Fin a) _ = Fin 0"
| "js_div x (Fin b) = (if b \<ge> 0 then x else if x = PosInf then NegInf else PosInf)"
| "js_div _ _ = NaN"

fun js_positive :: "jsnum \<Rightarrow> bool" where
  "js_positive (Fin a) = (a > 0)"
| "js_positive PosInf = True"
| "js_positive _ = False"

text \<open>\<open>Math.round\<close>: the nearest integer, halves upwards.\<close>

fun js_round :: "jsnum \<Rightarrow> jsnum" where
  "js_round (Fin a) = Fin (of_int \<lfloor>a + 1 / 2\<rfloor>)"
| "js_round x = x"

section \<open>Rounding is close and monotone to integers\<close>

lemma round_even_close: "\<bar>of_int (round_even x) - x\<bar> \<le> 1 / 2"
proof -
  have "0 \<le> x - of_int \<lfloor>x\<rfloor>" "x - of_int \<lfloor>x\<rfloor> < 1" by linarith+
  then show ?thesis by (simp add: round_even_def Let_def)
qed

lemma round_even_between:
  assumes "of_int a \<le> x" and "x \<le> of_int b"
  shows "a \<le> round_even x" and "round_even x \<le> b"
proof -
  have x: "of_int \<lfloor>x\<rfloor> \<le> x" "x < of_int \<lfloor>x\<rfloor> + 1" by linarith+
  have "a \<le> \<lfloor>x\<rfloor>" using assms(1) by (simp add: le_floor_iff)
  then show "a \<le> round_even x" by (simp add: round_even_def Let_def)
  have up: "\<lfloor>x\<rfloor> + 1 \<le> b" if "x \<noteq> of_int \<lfloor>x\<rfloor>"
  proof -
    have "of_int \<lfloor>x\<rfloor> < (of_int b :: rat)" using assms(2) that x by linarith
    then show ?thesis by simp
  qed
  have "\<lfloor>x\<rfloor> \<le> b" using assms(2) x by linarith
  with up show "round_even x \<le> b"
    by (cases "x = of_int \<lfloor>x\<rfloor>") (simp_all add: round_even_def Let_def)
qed

lemma round_even_int [simp]: "round_even (of_int n) = n"
  by (simp add: round_even_def)

lemma floorlog_bounds2: "n > 0 \<Longrightarrow> 2 ^ (floorlog 2 n - 1) \<le> n \<and> n < 2 ^ floorlog 2 n"
  using floorlog_bounds[of n 2] by simp

lemma powi_of_nat: "(2 :: rat) powi (int a - int b) = 2 ^ a / 2 ^ b"
  by (simp add: power_int_diff)

lemma binexp_bounds:
  assumes "q > 0"
  shows "2 powi (binexp q) \<le> q" and "q < 2 powi (binexp q + 1)"
proof -
  obtain n d where nd: "quotient_of q = (n, d)" by fastforce
  have q: "q = of_int n / of_int d" and d: "d > 0"
    using quotient_of_div[OF nd] quotient_of_denom_pos[OF nd] by auto
  with assms have n: "n > 0" by (simp add: zero_less_divide_iff)
  define bn bd where "bn = floorlog 2 (nat n)" and "bd = floorlog 2 (nat d)"
  have b: "bn > 0" "bd > 0" "2 ^ (bn - 1) \<le> nat n" "nat n < 2 ^ bn" "2 ^ (bd - 1) \<le> nat d" "nat d < 2 ^ bd"
    using floorlog_bounds2[of "nat n"] floorlog_bounds2[of "nat d"] n d by (auto simp: bn_def bd_def floorlog_def)
  have rat: "of_nat (nat n) = (of_int n :: rat)" "of_nat (nat d) = (of_int d :: rat)" using n d by simp_all
  have cast: "(of_nat x :: rat) \<le> of_nat y" if "x \<le> y" for x y using that by simp
  have cast': "(of_nat x :: rat) < of_nat y" if "x < y" for x y using that by simp
  have nb: "2 ^ (bn - 1) \<le> (of_int n :: rat)" "(of_int n :: rat) < 2 ^ bn"
    and db: "2 ^ (bd - 1) \<le> (of_int d :: rat)" "(of_int d :: rat) < 2 ^ bd"
    using cast[OF b(3)] cast'[OF b(4)] cast[OF b(5)] cast'[OF b(6)] by (simp_all add: rat)
  have dpos: "(of_int d :: rat) > 0" using d by simp
  let ?e = "int bn - int bd"
  have "q < 2 ^ bn / 2 ^ (bd - 1)"
    unfolding q using nb db dpos n by (intro frac_less) auto
  also have "\<dots> = 2 powi (?e + 1)"
    using b(2) powi_of_nat[of bn "bd - 1"] by (simp add: of_nat_diff algebra_simps)
  finally have upper: "q < 2 powi (?e + 1)" .
  have "2 ^ (bn - 1) / 2 ^ bd \<le> q"
    unfolding q using nb db dpos n by (intro frac_le) auto
  also have "(2 :: rat) ^ (bn - 1) / 2 ^ bd = 2 powi (?e - 1)"
    using b(1) powi_of_nat[of "bn - 1" bd] by (simp add: of_nat_diff algebra_simps)
  finally have lower: "2 powi (?e - 1) \<le> q" .
  have "binexp q = (if q < 2 powi ?e then ?e - 1 else ?e)"
    by (simp add: binexp_def nd bn_def bd_def Let_def)
  then show "2 powi (binexp q) \<le> q" "q < 2 powi (binexp q + 1)"
    using lower upper by (simp_all split: if_splits)
qed

lemma ulp_pos [simp]: "ulp q > 0"
  by (simp add: ulp_def)

lemma rounded_close: "\<bar>rounded q - q\<bar> \<le> ulp q / 2"
proof (cases "q = 0")
  case False
  have "rounded q - q = (of_int (round_even (q / ulp q)) - q / ulp q) * ulp q"
    using False ulp_pos[of q] less_imp_neq[OF ulp_pos[of q]] by (simp add: rounded_def field_simps)
  then have "\<bar>rounded q - q\<bar> = \<bar>of_int (round_even (q / ulp q)) - q / ulp q\<bar> * ulp q"
    by (simp add: abs_mult less_imp_le)
  also have "\<dots> \<le> 1 / 2 * ulp q"
    by (rule mult_right_mono[OF round_even_close]) (simp add: less_imp_le)
  finally show ?thesis by simp
qed (simp add: rounded_def less_imp_le)

text \<open>Below \<open>2 ^ 53\<close> the integers are among the values rounded to, so rounding does not cross one.\<close>

lemma ulp_divides:
  assumes "0 < q" and "q \<le> of_nat n" and "n < 2 ^ 53"
  shows "\<exists>k :: int. of_nat n = of_int k * ulp q"
proof -
  have "2 powi (binexp q) \<le> q" by (rule binexp_bounds(1)[OF assms(1)])
  also have "\<dots> < 2 powi 53"
    using assms(2) of_nat_less_iff[where 'a = rat, THEN iffD2, OF assms(3)] by simp
  finally have "binexp q < 53"
    using power_int_increasing[of 53 "binexp q" "2 :: rat"] by (cases "binexp q < 53") simp_all
  then have "max (binexp q - 52) (-1074) \<le> 0" by simp
  then obtain m where m: "max (binexp q - 52) (-1074) = - int m" by (metis nonpos_int_cases)
  have "of_nat n = of_int (int n * 2 ^ m) * ulp q"
    using assms(1) by (simp add: ulp_def m power_int_minus)
  then show ?thesis by blast
qed

lemma rounded_between:
  assumes "0 \<le> q" and "q \<le> of_nat n" and "n < 2 ^ 53"
  shows "0 \<le> rounded q" and "rounded q \<le> of_nat n"
proof -
  have "0 \<le> rounded q \<and> rounded q \<le> of_nat n"
  proof (cases "q = 0")
    case False
    then have pos: "q > 0" using assms(1) by simp
    from ulp_divides[OF pos assms(2,3)] obtain k where k: "of_nat n = of_int k * ulp q" by blast
    have "of_int 0 \<le> q / ulp q" "q / ulp q \<le> of_int k"
      using pos assms(2) by (simp_all add: less_imp_le k pos_divide_le_eq)
    from round_even_between[OF this] have "0 \<le> round_even (q / ulp q)" "round_even (q / ulp q) \<le> k" .
    then show ?thesis
      using False by (simp add: rounded_def k less_imp_le mult_right_mono)
  qed (simp add: rounded_def)
  then show "0 \<le> rounded q" "rounded q \<le> of_nat n" by simp_all
qed

lemma rounded_nat: "n < 2 ^ 53 \<Longrightarrow> rounded (of_nat n) = of_nat n"
proof (cases "n = 0")
  case False
  assume "n < 2 ^ 53"
  with False ulp_divides[of "of_nat n" n] obtain k where k: "of_nat n = of_int k * ulp (of_nat n)" by auto
  then have "of_nat n / ulp (of_nat n) = of_int k" by (metis less_irrefl nonzero_mult_div_cancel_right ulp_pos)
  with False k show ?thesis by (simp add: rounded_def)
qed (simp add: rounded_def)

lemma to_double_between:
  assumes "0 \<le> q" and "q \<le> of_nat n" and "n < 2 ^ 53"
  shows "to_double q = Fin (rounded q)"
proof -
  note b = rounded_between[OF assms]
  have "(of_nat n :: rat) < of_nat (2 ^ 53)" using assms(3) by (simp only: of_nat_less_iff)
  also have "\<dots> < 2 ^ 1024" by simp
  finally show ?thesis using b by (simp add: to_double_def)
qed

end
