(* ===== verification/Rollup.thy ===== *)
theory Rollup
  imports Snapshot Acceptance Double
begin

text \<open>
  \<open>packages/track/src/report/rollup.ts\<close>: the forest of work packages with the buckets of their leaves
  summed up, the clip of a forest to one workspace and the root work package of an item. The comparison
  of identifiers is an argument, as in the source; it is used through \<open>compareIds(a, b) <= 0\<close>. The
  recursions over the children have no bound in the source; here they take fuel, and running out of it is
  the outcome \<open>None\<close>. The excerpt of an item's body that a leaf carries for display is left out: it is
  cut by UTF-16 code units and ends in a character outside the strings of the model.
\<close>

section \<open>Leaves\<close>

record wp_leaf_blocker =
  lb_blockerId :: ulid
  lb_kind :: blocker_kind
  lb_ref :: "ulid option"
  lb_scope :: "blocker_scope option"
  lb_resolutionRule :: "resolution_rule option"
  lb_engagementRef :: "string option"
  lb_reason :: string

record wp_leaf =
  lf_id :: ulid
  lf_title :: string
  lf_bucket :: bucket
  lf_kind :: item_kind
  lf_workspace :: string
  lf_realization :: realization
  lf_acceptance :: acceptance_status
  lf_priority :: "js option"
  lf_specStatus :: spec_axis
  lf_accountable :: "actor_id option"
  lf_openBlockers :: "wp_leaf_blocker list"
  lf_engagementRef :: "string option"
  lf_awaitedOnDecision :: bool

definition projectBlocker :: "blocker_state \<Rightarrow> wp_leaf_blocker" where
  "projectBlocker b = \<lparr>
     lb_blockerId = blk_id b,
     lb_kind = blk_kind b,
     lb_ref = blk_ref b,
     lb_scope = blk_scope b,
     lb_resolutionRule = blk_resolutionRule b,
     lb_engagementRef = blk_engagementRef b,
     lb_reason = blk_reason b\<rparr>"

definition buildWpLeaf :: "state \<Rightarrow> item_state \<Rightarrow> report_config \<Rightarrow> wp_leaf" where
  "buildWpLeaf st item config =
     (let bucket = bucketOf st item config;
          open = effectiveOpenBlockersForItem st (item_id item) (baselineCommit config);
          acceptance = acceptanceStatus st (item_id item) (baselineCommit config) in
      \<lparr>lf_id = item_id item,
       lf_title = item_title item,
       lf_bucket = bucket,
       lf_kind = item_kind item,
       lf_workspace = item_workspace item,
       lf_realization = item_realization item,
       lf_acceptance = acceptance,
       lf_priority = map_option (\<lambda>p. js_prop p ''score'') (item_priority item),
       lf_specStatus = item_specStatus item,
       lf_accountable = item_accountable item,
       lf_openBlockers = map projectBlocker open,
       lf_engagementRef = item_engagementRef item,
       lf_awaitedOnDecision = (bucket = Awaited \<and> list_ex (\<lambda>b. blk_kind b = BDecision) open)\<rparr>)"

section \<open>Counts\<close>

record counts =
  ct_done :: nat
  ct_active :: nat
  ct_dropped :: nat

definition tally_step :: "wp_leaf \<Rightarrow> counts \<Rightarrow> counts" where
  "tally_step l c =
     (case lf_bucket l of
        DoneBucket \<Rightarrow> c\<lparr>ct_done := Suc (ct_done c), ct_active := Suc (ct_active c)\<rparr>
      | TodoBucket \<Rightarrow> c\<lparr>ct_active := Suc (ct_active c)\<rparr>
      | Awaited \<Rightarrow> c\<lparr>ct_active := Suc (ct_active c)\<rparr>
      | Dropped \<Rightarrow> c\<lparr>ct_dropped := Suc (ct_dropped c)\<rparr>)"

definition tally :: "wp_leaf list \<Rightarrow> counts" where
  "tally leaves = fold tally_step leaves \<lparr>ct_done = 0, ct_active = 0, ct_dropped = 0\<rparr>"

datatype pct = NotAvailable | Percent jsnum

definition pct_of :: "nat \<Rightarrow> nat \<Rightarrow> pct" where
  "pct_of done active =
     (if active = 0 then NotAvailable
      else Percent (js_round (js_mul (js_div (Fin (of_nat done)) (Fin (of_nat active))) (Fin 100))))"

section \<open>Nodes\<close>

datatype wp_node = WpNode
  (nd_id: ulid)
  (nd_title: string)
  (nd_label: string)
  (nd_code: "string option")
  (nd_stream: bool)
  (nd_done: nat)
  (nd_active: nat)
  (nd_dropped: nat)
  (nd_pct: pct)
  (nd_leaves: "wp_leaf list")
  (nd_children: "wp_node list")
  (nd_terminal: bool)
  (nd_partial: bool)

definition isWp :: "item_state \<Rightarrow> bool" where
  "isWp item = isRoleContainer (item_role item)"

fun insort_by :: "(string \<Rightarrow> string \<Rightarrow> bool) \<Rightarrow> item_state \<Rightarrow> item_state list \<Rightarrow> item_state list" where
  "insort_by le x [] = [x]"
| "insort_by le x (y # ys) = (if le (item_id x) (item_id y) then x # y # ys else y # insort_by le x ys)"

definition sort_items :: "(string \<Rightarrow> string \<Rightarrow> bool) \<Rightarrow> item_state list \<Rightarrow> item_state list" where
  "sort_items le xs = foldr (insort_by le) xs []"

definition childrenOf :: "state \<Rightarrow> (string \<Rightarrow> string \<Rightarrow> bool) \<Rightarrow> ulid \<Rightarrow> item_state list" where
  "childrenOf st le p = sort_items le (filter (\<lambda>i. item_parentId i = Some p) (jvals (st_items st)))"

text \<open>The leaves attached at a node, down to the containers below it.\<close>

fun directLeaves ::
  "nat \<Rightarrow> (ulid \<Rightarrow> item_state list) \<Rightarrow> (item_state \<Rightarrow> wp_leaf) \<Rightarrow> ulid \<Rightarrow> wp_leaf list option" where
  "directLeaves 0 kids leaf parentId = None"
| "directLeaves (Suc n) kids leaf parentId =
     map_option concat (those (map (\<lambda>child.
       if isWp child then Some []
       else if kids (item_id child) = [] then Some [leaf child]
       else directLeaves n kids leaf (item_id child)) (kids parentId)))"

text \<open>The containers directly below a node, through the items between.\<close>

fun collectSubWps :: "nat \<Rightarrow> (ulid \<Rightarrow> item_state list) \<Rightarrow> ulid \<Rightarrow> item_state list option" where
  "collectSubWps 0 kids parentId = None"
| "collectSubWps (Suc n) kids parentId =
     map_option concat (those (map (\<lambda>child.
       if isWp child then Some [child] else collectSubWps n kids (item_id child)) (kids parentId)))"

definition sub_label :: "string \<Rightarrow> nat \<Rightarrow> item_state \<Rightarrow> string" where
  "sub_label label k child =
     (case item_code child of Some code \<Rightarrow> code | None \<Rightarrow> label @ ''.'' @ nat_str k)"

definition assemble :: "item_state \<Rightarrow> string \<Rightarrow> wp_leaf list \<Rightarrow> wp_node list \<Rightarrow> wp_node" where
  "assemble wp label leaves children =
     (let self = tally leaves;
          d = ct_done self + sum_list (map nd_done children);
          a = ct_active self + sum_list (map nd_active children);
          x = ct_dropped self + sum_list (map nd_dropped children) in
      WpNode (item_id wp) (item_title wp) label (item_code wp) (item_role wp = Some Stream) d a x (pct_of d a)
        leaves children (item_realization wp = Cancelled \<or> item_realization wp = Rejected) False)"

fun buildNode ::
  "nat \<Rightarrow> (ulid \<Rightarrow> item_state list) \<Rightarrow> (item_state \<Rightarrow> wp_leaf) \<Rightarrow> item_state \<Rightarrow> string \<Rightarrow> wp_node option" where
  "buildNode 0 kids leaf wp label = None"
| "buildNode (Suc n) kids leaf wp label =
     Option.bind (directLeaves n kids leaf (item_id wp)) (\<lambda>leaves.
     Option.bind (collectSubWps n kids (item_id wp)) (\<lambda>subs.
     Option.bind (those (map2 (\<lambda>k child. buildNode n kids leaf child (sub_label label k child))
                          [1..<Suc (length subs)] subs)) (\<lambda>children.
     Some (assemble wp label leaves children))))"

section \<open>Root labels\<close>

text \<open>
  \<open>/^WP(\d+)$/\<close> and \<open>/^S(\d+)$/\<close>: the ordinal a code claims. The source converts the digits to a
  double; the ordinal here is exact, which is the same below $2^{53}$, and a counter of roots only meets
  ordinals up to the number of its codes and roots.
\<close>

definition claim_of :: "string \<Rightarrow> string \<Rightarrow> nat option" where
  "claim_of pre code =
     (let ds = drop (length pre) code in
      if take (length pre) code = pre \<and> ds \<noteq> [] \<and> list_all (\<lambda>c. char_digit c \<noteq> None) ds
      then Some (digits_value 0 ds) else None)"

definition claimed :: "state \<Rightarrow> string \<Rightarrow> nat list" where
  "claimed st pre = List.map_filter (\<lambda>item.
     if isWp item then claim_of pre (case item_code item of None \<Rightarrow> [] | Some c \<Rightarrow> c) else None) (jvals (st_items st))"

text \<open>\<open>while (claimed.has(counter)) counter++\<close>.\<close>

function next_free :: "nat list \<Rightarrow> nat \<Rightarrow> nat" where
  "next_free cl n = (if n \<in> set cl then next_free cl (Suc n) else n)"
  by pat_completeness auto
termination
proof (relation "measure (\<lambda>(cl, n). card {m \<in> set cl. n \<le> m})")
  fix cl :: "nat list" and n
  let ?S = "\<lambda>n. {m \<in> set cl. n \<le> m}"
  assume "n \<in> set cl"
  then have "n \<in> ?S n" "n \<notin> ?S (Suc n)" by simp_all
  moreover have "?S (Suc n) \<subseteq> ?S n" by (rule Collect_mono) simp
  ultimately have "?S (Suc n) \<subset> ?S n" by blast
  then show "((cl, Suc n), cl, n) \<in> measure (\<lambda>(cl, n). card {m \<in> set cl. n \<le> m})"
    by (simp only: in_measure case_prod_conv) (rule psubset_card_mono[rotated], simp_all)
qed simp

declare next_free.simps [simp del]

fun rootLabels :: "nat list \<Rightarrow> nat list \<Rightarrow> nat \<Rightarrow> nat \<Rightarrow> item_state list \<Rightarrow> string list" where
  "rootLabels cw cs w s [] = []"
| "rootLabels cw cs w s (r # rs) =
     (case item_code r of
        Some code \<Rightarrow> code # rootLabels cw cs w s rs
      | None \<Rightarrow>
          if item_role r = Some Stream
          then (''S'' @ nat_str (next_free cs s)) # rootLabels cw cs w (Suc (next_free cs s)) rs
          else (''WP'' @ nat_str (next_free cw w)) # rootLabels cw cs (Suc (next_free cw w)) s rs)"

definition wp_roots :: "state \<Rightarrow> (string \<Rightarrow> string \<Rightarrow> bool) \<Rightarrow> item_state list" where
  "wp_roots st le = sort_items le (filter (\<lambda>i. isWp i \<and>
     \<not> (case item_parentId i of None \<Rightarrow> False
        | Some p \<Rightarrow> (case jget (st_items st) p of None \<Rightarrow> False | Some q \<Rightarrow> isWp q))) (jvals (st_items st)))"

definition wp_root_labels :: "state \<Rightarrow> (string \<Rightarrow> string \<Rightarrow> bool) \<Rightarrow> string list" where
  "wp_root_labels st le = rootLabels (claimed st ''WP'') (claimed st ''S'') 1 1 (wp_roots st le)"

definition tree_fuel :: "state \<Rightarrow> nat" where
  "tree_fuel st = length (st_items st) + 2"

definition computeWpTree :: "state \<Rightarrow> report_config \<Rightarrow> (string \<Rightarrow> string \<Rightarrow> bool) \<Rightarrow> wp_node list option" where
  "computeWpTree st config le =
     those (map2 (buildNode (tree_fuel st) (childrenOf st le) (\<lambda>i. buildWpLeaf st i config))
       (wp_roots st le) (wp_root_labels st le))"

section \<open>Clipping\<close>

lemma map_filter_cong [fundef_cong]:
  "xs = ys \<Longrightarrow> (\<And>x. x \<in> set ys \<Longrightarrow> f x = g x) \<Longrightarrow> List.map_filter f xs = List.map_filter g ys"
  by (induction ys arbitrary: xs) (auto simp: map_filter_simps split: option.split)

fun clipNode :: "string \<Rightarrow> wp_node \<Rightarrow> wp_node option" where
  "clipNode workspace (WpNode i t l c r d a x p leaves children tm pt) =
     (let leaves' = filter (\<lambda>l. lf_workspace l = workspace) leaves;
          children' = List.map_filter (clipNode workspace) children;
          self = tally leaves';
          d' = ct_done self + sum_list (map nd_done children');
          a' = ct_active self + sum_list (map nd_active children');
          x' = ct_dropped self + sum_list (map nd_dropped children') in
      if a' + x' = 0 then None
      else Some (WpNode i t l c r d' a' x' (pct_of d' a') leaves' children' tm (a' + x' < a + x)))"

definition clipWpTreeToWorkspace :: "wp_node list \<Rightarrow> string \<Rightarrow> wp_node list" where
  "clipWpTreeToWorkspace tree workspace = List.map_filter (clipNode workspace) tree"

section \<open>The root work package of an item\<close>

function wpRoot_walk :: "(ulid, item_state) jmap \<Rightarrow> ulid list \<Rightarrow> ulid option \<Rightarrow> ulid option \<Rightarrow> ulid option" where
  "wpRoot_walk items seen highest cursor =
     (case cursor of
        None \<Rightarrow> highest
      | Some c \<Rightarrow>
          if c \<in> set seen then highest
          else (case jget items c of
                  None \<Rightarrow> highest
                | Some item \<Rightarrow>
                    wpRoot_walk items (c # seen) (if item_role item = Some Workpackage then Some c else highest)
                      (item_parentId item)))"
  by pat_completeness auto
termination
proof (relation "measure (\<lambda>(items, seen, _). card (set (jkeys items) - set seen))")
  fix items :: "(ulid, item_state) jmap" and seen highest cursor c item
  assume "cursor = Some c" "c \<notin> set seen" "jget items c = Some item"
  then have "c \<in> set (jkeys items)" by (metis jget_eq_None_iff option.distinct(1))
  then have "set (jkeys items) - set (c # seen) \<subset> set (jkeys items) - set seen"
    using \<open>c \<notin> set seen\<close> by auto
  then show "((items, c # seen, if item_role item = Some Workpackage then Some c else highest, item_parentId item),
      items, seen, highest, cursor) \<in> measure (\<lambda>(items, seen, _). card (set (jkeys items) - set seen))"
    by (simp add: psubset_card_mono)
qed simp

declare wpRoot_walk.simps [simp del]

definition wpRootId :: "(ulid, item_state) jmap \<Rightarrow> ulid \<Rightarrow> ulid option" where
  "wpRootId items itemId = wpRoot_walk items [] None (Some itemId)"

end
