(* ===== verification/Lease.thy ===== *)
theory Lease
  imports Codec
begin

text \<open>
  \<open>packages/track/src/lease/store.ts\<close>: the advisory leases on demands and items. A timestamp is its
  time value in milliseconds (not a number when its text does not parse); the clock and the
  identifier source are injected, so each operation takes the values it draws from them. The file
  is the state; every operation runs under the lock of the theory \<open>Lock\<close>, so it is one step here.
\<close>

section \<open>Leases\<close>

datatype lease_phase = PQualifying | PSpecifying | PExecuting

datatype lease_kind = LDemand | LItem

record lease_subject =
  ls_kind :: lease_kind
  ls_id :: string

record lease =
  le_leaseId :: string
  le_workspace :: string
  le_subject :: lease_subject
  le_phase :: lease_phase
  le_holder :: actor_id
  le_acquiredAt :: jsnum
  le_heartbeatAt :: jsnum
  le_expiresAt :: jsnum
  le_ttlMs :: jsnum
  le_token :: string
  le_eventHead :: "sha option"

definition DEFAULT_LEASE_TTL_MS :: jsnum where
  "DEFAULT_LEASE_TTL_MS = Fin (30 * 60000)"

fun lease_kind_str :: "lease_kind \<Rightarrow> string" where
  "lease_kind_str LDemand = ''demand''"
| "lease_kind_str LItem = ''item''"

definition subjectKey :: "lease_subject \<Rightarrow> string" where
  "subjectKey s = lease_kind_str (ls_kind s) @ CHR '':'' # ls_id s"

section \<open>Arithmetic of time values\<close>

fun num_add :: "jsnum \<Rightarrow> jsnum \<Rightarrow> jsnum" where
  "num_add (Fin a) (Fin b) = Fin (a + b)"
| "num_add NaN _ = NaN"
| "num_add _ NaN = NaN"
| "num_add PosInf NegInf = NaN"
| "num_add NegInf PosInf = NaN"
| "num_add PosInf _ = PosInf"
| "num_add _ PosInf = PosInf"
| "num_add NegInf _ = NegInf"
| "num_add _ NegInf = NegInf"

fun num_neg :: "jsnum \<Rightarrow> jsnum" where
  "num_neg (Fin a) = Fin (- a)"
| "num_neg NaN = NaN"
| "num_neg PosInf = NegInf"
| "num_neg NegInf = PosInf"

fun num_less :: "jsnum \<Rightarrow> jsnum \<Rightarrow> bool" where
  "num_less (Fin a) (Fin b) = (a < b)"
| "num_less NaN _ = False"
| "num_less _ NaN = False"
| "num_less NegInf b = (b \<noteq> NegInf)"
| "num_less a PosInf = (a \<noteq> PosInf)"
| "num_less _ _ = False"

text \<open>\<open>new Date(t).toISOString()\<close>: a time value of a date is an integer of limited size.\<close>

definition to_date :: "jsnum \<Rightarrow> error + jsnum" where
  "to_date t = (case t of
     Fin q \<Rightarrow> (if \<bar>q\<bar> \<le> 8640000000000000
               then Inr (Fin (of_int (if q < 0 then \<lceil>q\<rceil> else \<lfloor>q\<rfloor>)))
               else Inl (Error ''RangeError: Invalid time value''))
   | _ \<Rightarrow> Inl (Error ''RangeError: Invalid time value''))"

definition isLeaseAbandoned :: "lease \<Rightarrow> jsnum \<Rightarrow> bool" where
  "isLeaseAbandoned l now = num_less (le_ttlMs l) (num_add now (num_neg (le_heartbeatAt l)))"

section \<open>The file\<close>

datatype leases_file = NoFile | Unreadable | NotAnArray | Leases "lease list"

definition readLeasesFile :: "leases_file \<Rightarrow> lease list" where
  "readLeasesFile f = (case f of Leases ls \<Rightarrow> ls | _ \<Rightarrow> [])"

definition writeLeasesFile :: "lease list \<Rightarrow> leases_file" where
  "writeLeasesFile ls = Leases ls"

definition on_subject :: "string \<Rightarrow> lease \<Rightarrow> bool" where
  "on_subject key l \<longleftrightarrow> subjectKey (le_subject l) = key"

definition forSubject :: "lease_subject \<Rightarrow> leases_file \<Rightarrow> lease option" where
  "forSubject s f = find (on_subject (subjectKey s)) (readLeasesFile f)"

fun find_index :: "('a \<Rightarrow> bool) \<Rightarrow> 'a list \<Rightarrow> nat option" where
  "find_index P [] = None"
| "find_index P (x # xs) = (if P x then Some 0 else map_option Suc (find_index P xs))"

section \<open>Operations\<close>

record acquire_input =
  aq_workspace :: string
  aq_subject :: lease_subject
  aq_phase :: lease_phase
  aq_holder :: actor_id
  aq_ttlMs :: "jsnum option"
  aq_eventHead :: "sha option"

text \<open>
  The record an acquisition mints; the identifiers drawn are the lease identifier and the token,
  in this order.
\<close>

definition minted :: "jsnum \<Rightarrow> string \<Rightarrow> string \<Rightarrow> acquire_input \<Rightarrow> jsnum \<Rightarrow> jsnum \<Rightarrow> lease" where
  "minted now leaseId token input ttlMs expiresAt = \<lparr>
     le_leaseId = leaseId,
     le_workspace = aq_workspace input,
     le_subject = aq_subject input,
     le_phase = aq_phase input,
     le_holder = aq_holder input,
     le_acquiredAt = now,
     le_heartbeatAt = now,
     le_expiresAt = expiresAt,
     le_ttlMs = ttlMs,
     le_token = token,
     le_eventHead = aq_eventHead input\<rparr>"

definition acquire ::
  "jsnum \<Rightarrow> string \<Rightarrow> string \<Rightarrow> acquire_input \<Rightarrow> leases_file \<Rightarrow> (error + lease) \<times> leases_file" where
  "acquire now leaseId token input f =
     (let all = readLeasesFile f;
          key = subjectKey (aq_subject input);
          existing = find (on_subject key) all in
      if (case existing of Some l \<Rightarrow> \<not> isLeaseAbandoned l now | None \<Rightarrow> False)
      then (Inl (DomainError ''lease: subject is already held (one active lease per subject)''), f)
      else
        let ttlMs = (case aq_ttlMs input of None \<Rightarrow> DEFAULT_LEASE_TTL_MS | Some t \<Rightarrow> t) in
        case to_date (num_add now ttlMs) of
          Inl e \<Rightarrow> (Inl e, f)
        | Inr expiresAt \<Rightarrow>
            let lease = minted now leaseId token input ttlMs expiresAt in
            (Inr lease, writeLeasesFile (filter (\<lambda>l. \<not> on_subject key l) all @ [lease])))"

definition heartbeat ::
  "jsnum \<Rightarrow> lease_subject \<Rightarrow> string \<Rightarrow> leases_file \<Rightarrow> (error + lease) \<times> leases_file" where
  "heartbeat now subject token f =
     (let all = readLeasesFile f; key = subjectKey subject in
      case find_index (on_subject key) all of
        None \<Rightarrow> (Inl (DomainError ''lease: no lease to heartbeat for subject''), f)
      | Some idx \<Rightarrow>
          let lease = all ! idx in
          if le_token lease \<noteq> token
          then (Inl (DomainError ''lease: heartbeat token mismatch - only the holder may renew''), f)
          else
            case to_date (num_add now (le_ttlMs lease)) of
              Inl e \<Rightarrow> (Inl e, f)
            | Inr expiresAt \<Rightarrow>
                let renewed = lease\<lparr>le_heartbeatAt := now, le_expiresAt := expiresAt\<rparr> in
                (Inr renewed, writeLeasesFile (all[idx := renewed])))"

definition release :: "lease_subject \<Rightarrow> string \<Rightarrow> leases_file \<Rightarrow> (error + unit) \<times> leases_file" where
  "release subject token f =
     (let all = readLeasesFile f; key = subjectKey subject in
      case find_index (on_subject key) all of
        None \<Rightarrow> (Inl (DomainError ''lease: no lease to release for subject''), f)
      | Some idx \<Rightarrow>
          if le_token (all ! idx) \<noteq> token
          then (Inl (DomainError ''lease: release token mismatch - only the holder may release''), f)
          else (Inr (), writeLeasesFile (take idx all @ drop (Suc idx) all)))"

section \<open>One lease per subject\<close>

lemma subjectKey_inject [simp]: "subjectKey s = subjectKey t \<longleftrightarrow> s = t"
  by (cases s; cases t; cases "ls_kind s"; cases "ls_kind t") (auto simp: subjectKey_def)

definition one_per_subject :: "leases_file \<Rightarrow> bool" where
  "one_per_subject f \<longleftrightarrow> distinct (map le_subject (readLeasesFile f))"

lemma readLeasesFile_write [simp]: "readLeasesFile (writeLeasesFile ls) = ls"
  by (simp add: readLeasesFile_def writeLeasesFile_def)

lemma on_subject_key [simp]: "on_subject (subjectKey s) l \<longleftrightarrow> le_subject l = s"
  by (simp add: on_subject_def)

lemma find_index_None: "find_index P xs = None \<longleftrightarrow> find P xs = None"
  by (induction xs) auto

lemma find_index_Some:
  "find_index P xs = Some i \<Longrightarrow> i < length xs \<and> P (xs ! i) \<and> find P xs = Some (xs ! i)"
  by (induction xs arbitrary: i) (auto split: if_splits)

lemma find_append: "find P (xs @ ys) = (case find P xs of None \<Rightarrow> find P ys | Some x \<Rightarrow> Some x)"
  by (induction xs) auto

lemma find_filter_other: "(\<And>x. P x \<Longrightarrow> Q x) \<Longrightarrow> find P (filter Q xs) = find P xs"
  by (induction xs) auto

lemma find_filter_none: "(\<And>x. P x \<Longrightarrow> \<not> Q x) \<Longrightarrow> find P (filter Q xs) = None"
  by (induction xs) auto

lemma find_update_other:
  "i < length xs \<Longrightarrow> \<not> P (xs ! i) \<Longrightarrow> \<not> P y \<Longrightarrow> find P (xs[i := y]) = find P xs"
  by (induction xs arbitrary: i) (auto split: nat.splits)

lemma find_update_same:
  "find_index P xs = Some i \<Longrightarrow> P y \<Longrightarrow> find P (xs[i := y]) = Some y"
  by (induction xs arbitrary: i) (auto split: if_splits)

lemma find_remove_other:
  "i < length xs \<Longrightarrow> \<not> P (xs ! i) \<Longrightarrow> find P (take i xs @ drop (Suc i) xs) = find P xs"
proof (induction xs arbitrary: i)
  case (Cons x xs)
  then show ?case by (cases i) auto
qed simp

lemma find_remove_same:
  "distinct (map g xs) \<Longrightarrow> find_index (\<lambda>x. g x = k) xs = Some i \<Longrightarrow>
     find (\<lambda>x. g x = k) (take i xs @ drop (Suc i) xs) = None"
proof (induction xs arbitrary: i)
  case (Cons x xs)
  then show ?case by (cases i) (auto simp: find_None_iff image_iff split: if_splits)
qed simp

lemma forSubject_find: "forSubject s f = find (\<lambda>l. le_subject l = s) (readLeasesFile f)"
  by (simp add: forSubject_def on_subject_def[abs_def])

lemma on_subject_eta: "on_subject (subjectKey s) = (\<lambda>l. le_subject l = s)"
  by (rule ext) simp

section \<open>The file as a map from subjects\<close>

text \<open>
  What a client of the store relies on: each operation against the lease the file records for a
  subject.
\<close>

definition blocked :: "jsnum \<Rightarrow> lease option \<Rightarrow> bool" where
  "blocked now existing = (case existing of Some l \<Rightarrow> \<not> isLeaseAbandoned l now | None \<Rightarrow> False)"

definition ttl_of :: "acquire_input \<Rightarrow> jsnum" where
  "ttl_of input = (case aq_ttlMs input of None \<Rightarrow> DEFAULT_LEASE_TTL_MS | Some t \<Rightarrow> t)"

lemma acquire_Inr:
  "acquire now i k input f = (Inr l, f') \<longleftrightarrow>
     \<not> blocked now (forSubject (aq_subject input) f) \<and>
     (\<exists>x. to_date (num_add now (ttl_of input)) = Inr x \<and> l = minted now i k input (ttl_of input) x) \<and>
     f' = writeLeasesFile (filter (\<lambda>y. le_subject y \<noteq> aq_subject input) (readLeasesFile f) @ [l])"
  by (auto simp: acquire_def Let_def blocked_def ttl_of_def forSubject_def split: sum.splits)

lemma acquire_Inl: "acquire now i k input f = (Inl e, f') \<Longrightarrow> f' = f"
  by (auto simp: acquire_def Let_def split: if_splits sum.splits)

lemma heartbeat_Inl: "heartbeat now s k f = (Inl e, f') \<Longrightarrow> f' = f"
  by (auto simp: heartbeat_def Let_def split: if_splits sum.splits option.splits)

lemma release_Inl: "release s k f = (Inl e, f') \<Longrightarrow> f' = f"
  by (auto simp: release_def Let_def split: if_splits option.splits)

lemma heartbeat_Inr:
  "heartbeat now s k f = (Inr l, f') \<longleftrightarrow>
     (\<exists>i x. find_index (on_subject (subjectKey s)) (readLeasesFile f) = Some i \<and>
        le_token (readLeasesFile f ! i) = k \<and>
        to_date (num_add now (le_ttlMs (readLeasesFile f ! i))) = Inr x \<and>
        l = (readLeasesFile f ! i)\<lparr>le_heartbeatAt := now, le_expiresAt := x\<rparr> \<and>
        f' = writeLeasesFile ((readLeasesFile f)[i := l]))"
  by (auto simp: heartbeat_def Let_def split: sum.splits option.splits)

lemma release_Inr:
  "release s k f = (Inr u, f') \<longleftrightarrow>
     (\<exists>i. find_index (on_subject (subjectKey s)) (readLeasesFile f) = Some i \<and>
        le_token (readLeasesFile f ! i) = k \<and>
        f' = writeLeasesFile (take i (readLeasesFile f) @ drop (Suc i) (readLeasesFile f)))"
  by (auto simp: release_def Let_def split: option.splits)

lemma forSubject_acquire:
  assumes "acquire now i k input f = (Inr l, f')"
  shows "forSubject t f' = (if t = aq_subject input then Some l else forSubject t f)"
proof -
  have l: "le_subject l = aq_subject input"
    using assms by (auto simp: acquire_Inr minted_def)
  have f': "readLeasesFile f' = filter (\<lambda>y. le_subject y \<noteq> aq_subject input) (readLeasesFile f) @ [l]"
    using assms by (simp add: acquire_Inr)
  have none: "find (\<lambda>l. le_subject l = aq_subject input) (readLeasesFile f') = Some l"
    unfolding f' by (simp add: find_append find_filter_none l)
  have other: "find (\<lambda>l. le_subject l = t) (readLeasesFile f') = forSubject t f" if t: "t \<noteq> aq_subject input"
  proof -
    have "find (\<lambda>l. le_subject l = t) (filter (\<lambda>y. le_subject y \<noteq> aq_subject input) (readLeasesFile f)) =
        find (\<lambda>l. le_subject l = t) (readLeasesFile f)"
      by (rule find_filter_other) (use t in simp)
    then show ?thesis
      using t l by (simp add: f' find_append forSubject_find split: option.split)
  qed
  show ?thesis
    using none other by (simp add: forSubject_find)
qed

lemma index_subject:
  "find_index (on_subject (subjectKey s)) xs = Some i \<Longrightarrow>
     i < length xs \<and> le_subject (xs ! i) = s \<and> find (\<lambda>l. le_subject l = s) xs = Some (xs ! i)"
  using find_index_Some[of "on_subject (subjectKey s)" xs i] by (simp add: on_subject_eta)

lemma forSubject_heartbeat:
  assumes "heartbeat now s k f = (Inr l, f')"
  shows "\<exists>old. forSubject s f = Some old \<and> le_token old = k \<and>
           l = old\<lparr>le_heartbeatAt := now, le_expiresAt := le_expiresAt l\<rparr> \<and>
           forSubject t f' = (if t = s then Some l else forSubject t f)"
proof -
  obtain i x where i: "find_index (on_subject (subjectKey s)) (readLeasesFile f) = Some i"
    and k: "le_token (readLeasesFile f ! i) = k"
    and l: "l = (readLeasesFile f ! i)\<lparr>le_heartbeatAt := now, le_expiresAt := x\<rparr>"
    and f': "readLeasesFile f' = (readLeasesFile f)[i := l]"
    using assms by (auto simp: heartbeat_Inr)
  have idx: "i < length (readLeasesFile f)" "le_subject (readLeasesFile f ! i) = s"
      "forSubject s f = Some (readLeasesFile f ! i)"
    using index_subject[OF i] by (simp_all add: forSubject_find)
  have "find (\<lambda>l. le_subject l = s) ((readLeasesFile f)[i := l]) = Some l"
    by (rule find_update_same) (use i l idx in \<open>simp_all add: on_subject_eta\<close>)
  moreover have "t \<noteq> s \<Longrightarrow> find (\<lambda>l. le_subject l = t) ((readLeasesFile f)[i := l]) = forSubject t f"
    by (simp add: find_update_other idx l forSubject_find)
  ultimately show ?thesis
    using idx k l by (simp add: forSubject_find f')
qed

lemma forSubject_release:
  assumes "release s k f = (Inr u, f')" and "one_per_subject f"
  shows "\<exists>old. forSubject s f = Some old \<and> le_token old = k \<and>
           forSubject t f' = (if t = s then None else forSubject t f)"
proof -
  obtain i where i: "find_index (on_subject (subjectKey s)) (readLeasesFile f) = Some i"
    and k: "le_token (readLeasesFile f ! i) = k"
    and f': "readLeasesFile f' = take i (readLeasesFile f) @ drop (Suc i) (readLeasesFile f)"
    using assms(1) by (auto simp: release_Inr)
  have idx: "i < length (readLeasesFile f)" "le_subject (readLeasesFile f ! i) = s"
      "forSubject s f = Some (readLeasesFile f ! i)"
    using index_subject[OF i] by (simp_all add: forSubject_find)
  have "find (\<lambda>l. le_subject l = s) (readLeasesFile f') = None"
    unfolding f' by (rule find_remove_same[of le_subject])
      (use assms(2) i in \<open>simp_all add: one_per_subject_def on_subject_eta\<close>)
  moreover have "t \<noteq> s \<Longrightarrow> find (\<lambda>l. le_subject l = t) (readLeasesFile f') = forSubject t f"
    unfolding f' by (simp add: find_remove_other idx forSubject_find)
  ultimately show ?thesis
    using idx k by (simp add: forSubject_find)
qed

lemma one_per_subject_acquire:
  assumes "one_per_subject f"
  shows "one_per_subject (snd (acquire now i k input f))"
proof (cases "acquire now i k input f")
  case (Pair r f')
  show ?thesis
  proof (cases r)
    case (Inr l)
    then have f': "readLeasesFile f' = filter (\<lambda>y. le_subject y \<noteq> aq_subject input) (readLeasesFile f) @ [l]"
      and l: "le_subject l = aq_subject input"
      using Pair by (auto simp: acquire_Inr minted_def)
    then show ?thesis
      using assms Pair by (auto simp: one_per_subject_def distinct_map inj_on_def)
  qed (use Pair assms acquire_Inl in fastforce)
qed

lemma one_per_subject_heartbeat:
  assumes "one_per_subject f"
  shows "one_per_subject (snd (heartbeat now s k f))"
proof (cases "heartbeat now s k f")
  case (Pair r f')
  show ?thesis
  proof (cases r)
    case (Inr l)
    then obtain i where i: "find_index (on_subject (subjectKey s)) (readLeasesFile f) = Some i"
      and l: "le_subject l = le_subject (readLeasesFile f ! i)"
      and f': "readLeasesFile f' = (readLeasesFile f)[i := l]"
      using Pair by (auto simp: heartbeat_Inr)
    have "map le_subject (readLeasesFile f') = map le_subject (readLeasesFile f)"
      using index_subject[OF i] by (simp add: f' map_update l list_update_same_conv)
    then show ?thesis
      using assms Pair by (simp add: one_per_subject_def)
  qed (use Pair assms heartbeat_Inl in fastforce)
qed

lemma one_per_subject_release:
  assumes "one_per_subject f"
  shows "one_per_subject (snd (release s k f))"
proof (cases "release s k f")
  case (Pair r f')
  show ?thesis
  proof (cases r)
    case (Inr u)
    then obtain i where "readLeasesFile f' = take i (readLeasesFile f) @ drop (Suc i) (readLeasesFile f)"
      using Pair by (auto simp: release_Inr)
    then have subjects: "map le_subject (readLeasesFile f') =
        take i (map le_subject (readLeasesFile f)) @ drop (Suc i) (map le_subject (readLeasesFile f))"
      by (simp add: take_map drop_map)
    have "distinct (take i xs @ drop (Suc i) xs)" if "distinct xs" for xs :: "lease_subject list"
      using that by (simp add: set_take_disj_set_drop_if_distinct)
    then have "distinct (map le_subject (readLeasesFile f'))"
      unfolding subjects using assms by (simp only: one_per_subject_def)
    then show ?thesis
      using Pair by (simp add: one_per_subject_def)
  qed (use Pair assms release_Inl in fastforce)
qed

section \<open>Runs of the store\<close>

text \<open>One operation of one process, under the lock, with the values it draws from clock and identifier source.\<close>

datatype lease_op =
    LAcquire jsnum string string acquire_input
  | LHeartbeat jsnum lease_subject string
  | LRelease lease_subject string

fun lease_step :: "lease_op \<Rightarrow> leases_file \<Rightarrow> leases_file" where
  "lease_step (LAcquire now i k input) f = snd (acquire now i k input f)"
| "lease_step (LHeartbeat now s k) f = snd (heartbeat now s k f)"
| "lease_step (LRelease s k) f = snd (release s k f)"

text \<open>
  The contract of a lease book: an operation that is allowed leaves the lease recorded for a
  subject in the hands of its owner.
\<close>

locale lease_book =
  fixes book :: "'s \<Rightarrow> 'f \<Rightarrow> 'l option"
    and step :: "'op \<Rightarrow> 'f \<Rightarrow> 'f"
    and sound :: "'f \<Rightarrow> bool"
    and allowed :: "'s \<Rightarrow> 'l \<Rightarrow> 'op \<Rightarrow> bool"
    and renews :: "'l \<Rightarrow> 'l \<Rightarrow> bool"
  assumes sound_step: "sound f \<Longrightarrow> sound (step c f)"
    and keeps: "sound f \<Longrightarrow> book s f = Some l \<Longrightarrow> renews l0 l \<Longrightarrow> allowed s l0 c \<Longrightarrow>
      \<exists>l'. book s (step c f) = Some l' \<and> renews l0 l'"
begin

lemma sound_run: "sound f \<Longrightarrow> sound (fold step cs f)"
  by (induction cs arbitrary: f) (simp_all add: sound_step)

lemma survives:
  assumes "sound f" and "book s f = Some l" and "renews l0 l" and "list_all (allowed s l0) cs"
  shows "\<exists>l'. book s (fold step cs f) = Some l' \<and> renews l0 l'"
  using assms
proof (induction cs arbitrary: f l)
  case (Cons c cs)
  then obtain l' where "book s (step c f) = Some l'" "renews l0 l'"
    using keeps by (metis list.pred_inject(2))
  then show ?case
    using Cons by (simp add: sound_step)
qed simp

end

definition time_between :: "jsnum \<Rightarrow> jsnum \<Rightarrow> jsnum \<Rightarrow> bool" where
  "time_between a w t = (case (a, w, t) of (Fin a', Fin w', Fin t') \<Rightarrow> a' \<le> t' \<and> t' \<le> a' + w' | _ \<Rightarrow> False)"

definition time_le :: "jsnum \<Rightarrow> jsnum \<Rightarrow> bool" where
  "time_le a b = (case (a, b) of (Fin a', Fin b') \<Rightarrow> a' \<le> b' | _ \<Rightarrow> False)"

text \<open>
  Operations that leave \<open>l0\<close>'s owner alone: acquisitions and heartbeats within the lease's own
  window, and releases that do not present its token for its subject.
\<close>

fun leaves_owner :: "lease_subject \<Rightarrow> lease \<Rightarrow> lease_op \<Rightarrow> bool" where
  "leaves_owner s l0 (LAcquire now _ _ _) = time_between (le_heartbeatAt l0) (le_ttlMs l0) now"
| "leaves_owner s l0 (LHeartbeat now _ _) = time_between (le_heartbeatAt l0) (le_ttlMs l0) now"
| "leaves_owner s l0 (LRelease t k) = (t \<noteq> s \<or> k \<noteq> le_token l0)"

text \<open>The same lease, with a heartbeat that is not older.\<close>

definition renewal :: "lease \<Rightarrow> lease \<Rightarrow> bool" where
  "renewal l0 l \<longleftrightarrow> l = l0\<lparr>le_heartbeatAt := le_heartbeatAt l, le_expiresAt := le_expiresAt l\<rparr> \<and>
     time_le (le_heartbeatAt l0) (le_heartbeatAt l)"

lemma renewal_fields:
  "renewal l0 l \<Longrightarrow> le_token l = le_token l0 \<and> le_ttlMs l = le_ttlMs l0 \<and> le_subject l = le_subject l0"
  unfolding renewal_def by (cases l; cases l0) simp

lemma renewal_live:
  assumes "renewal l0 l" and "time_between (le_heartbeatAt l0) (le_ttlMs l0) now"
  shows "\<not> isLeaseAbandoned l now"
proof -
  obtain a w t where "le_heartbeatAt l0 = Fin a" "le_ttlMs l0 = Fin w" "now = Fin t" "t \<le> a + w"
    using assms(2) by (auto simp: time_between_def split: jsnum.splits)
  moreover obtain b where "le_heartbeatAt l = Fin b" "a \<le> b"
    using assms(1) calculation(1) by (auto simp: renewal_def time_le_def split: jsnum.splits)
  ultimately show ?thesis
    using renewal_fields[OF assms(1)] by (simp add: isLeaseAbandoned_def)
qed

lemma renewal_heartbeat:
  "renewal l0 l \<Longrightarrow> time_between (le_heartbeatAt l0) (le_ttlMs l0) now \<Longrightarrow>
     renewal l0 (l\<lparr>le_heartbeatAt := now, le_expiresAt := x\<rparr>)"
  unfolding renewal_def time_between_def time_le_def
  by (cases l; cases l0) (auto split: jsnum.splits)

lemma lease_step_keeps:
  assumes f: "one_per_subject f" and l: "forSubject s f = Some l" and r: "renewal l0 l"
    and c: "leaves_owner s l0 c"
  shows "\<exists>l'. forSubject s (lease_step c f) = Some l' \<and> renewal l0 l'"
proof (cases c)
  case (LAcquire now i k input)
  obtain res f' where res: "acquire now i k input f = (res, f')" by fastforce
  show ?thesis
  proof (cases res)
    case (Inl e)
    then show ?thesis using res LAcquire l r by (auto dest: acquire_Inl)
  next
    case (Inr m)
    have "\<not> isLeaseAbandoned l now"
      using renewal_live[OF r] c LAcquire by simp
    then have "s \<noteq> aq_subject input"
      using res Inr l by (auto simp: acquire_Inr blocked_def)
    then show ?thesis
      using res Inr l r LAcquire forSubject_acquire[of now i k input f m f' s] by simp
  qed
next
  case (LHeartbeat now t k)
  obtain res f' where res: "heartbeat now t k f = (res, f')" by fastforce
  show ?thesis
  proof (cases res)
    case (Inl e)
    then show ?thesis using res LHeartbeat l r by (auto dest: heartbeat_Inl)
  next
    case (Inr m)
    obtain old where "forSubject t f = Some old" "m = old\<lparr>le_heartbeatAt := now, le_expiresAt := le_expiresAt m\<rparr>"
      "forSubject s f' = (if s = t then Some m else forSubject s f)"
      using forSubject_heartbeat[of now t k f m f' s] res Inr by auto
    moreover have "renewal l0 (l\<lparr>le_heartbeatAt := now, le_expiresAt := le_expiresAt m\<rparr>)"
      using renewal_heartbeat[OF r] c LHeartbeat by simp
    ultimately show ?thesis
      using res l r LHeartbeat by (cases "s = t") simp_all
  qed
next
  case (LRelease t k)
  obtain res f' where res: "release t k f = (res, f')" by fastforce
  show ?thesis
  proof (cases res)
    case (Inl e)
    then show ?thesis using res LRelease l r by (auto dest: release_Inl)
  next
    case (Inr u)
    obtain old where old: "forSubject t f = Some old" "le_token old = k"
      "forSubject s f' = (if s = t then None else forSubject s f)"
      using forSubject_release[of t k f u f' s] res Inr f by auto
    then have "s \<noteq> t"
      using c LRelease l renewal_fields[OF r] by auto
    then show ?thesis
      using res old l r LRelease by simp
  qed
qed

interpretation leases: lease_book forSubject lease_step one_per_subject leaves_owner renewal
proof
  fix f c
  show "one_per_subject f \<Longrightarrow> one_per_subject (lease_step c f)"
    by (cases c) (simp_all add: one_per_subject_acquire one_per_subject_heartbeat one_per_subject_release)
qed (rule lease_step_keeps)

section \<open>Properties\<close>

text \<open>The store as a map from subjects to leases, one guarded update per operation.\<close>

fun lease_spec :: "lease_op \<Rightarrow> (lease_subject \<Rightarrow> lease option) \<Rightarrow> (lease_subject \<Rightarrow> lease option)" where
  "lease_spec (LAcquire now i k input) m =
     (if blocked now (m (aq_subject input)) then m
      else case to_date (num_add now (ttl_of input)) of
        Inl _ \<Rightarrow> m
      | Inr x \<Rightarrow> m(aq_subject input \<mapsto> minted now i k input (ttl_of input) x))"
| "lease_spec (LHeartbeat now s k) m =
     (case m s of
        None \<Rightarrow> m
      | Some l \<Rightarrow>
          if le_token l \<noteq> k then m
          else case to_date (num_add now (le_ttlMs l)) of
            Inl _ \<Rightarrow> m
          | Inr x \<Rightarrow> m(s \<mapsto> l\<lparr>le_heartbeatAt := now, le_expiresAt := x\<rparr>))"
| "lease_spec (LRelease s k) m =
     (case m s of None \<Rightarrow> m | Some l \<Rightarrow> if le_token l = k then m(s := None) else m)"

definition held :: "leases_file \<Rightarrow> lease_subject \<Rightarrow> lease option" where
  "held f s = forSubject s f"

lemma forSubject_index:
  "forSubject s f = map_option ((!) (readLeasesFile f)) (find_index (on_subject (subjectKey s)) (readLeasesFile f))"
proof (cases "find_index (on_subject (subjectKey s)) (readLeasesFile f)")
  case None
  then show ?thesis by (simp add: forSubject_def find_index_None)
next
  case (Some i)
  then show ?thesis using index_subject[OF Some] by (simp add: forSubject_find)
qed

lemma held_acquire: "held (snd (acquire now i k input f)) = lease_spec (LAcquire now i k input) (held f)"
proof (cases "acquire now i k input f")
  case (Pair r f')
  show ?thesis
  proof (cases r)
    case (Inl e)
    then have "blocked now (forSubject (aq_subject input) f) \<or> (\<exists>e. to_date (num_add now (ttl_of input)) = Inl e)"
      using Pair by (auto simp: acquire_def Let_def forSubject_def blocked_def ttl_of_def split: if_splits sum.splits)
    then show ?thesis
      using Inl Pair acquire_Inl[of now i k input f e f'] by (auto simp: held_def)
  next
    case (Inr l)
    then have free: "\<not> blocked now (forSubject (aq_subject input) f)"
      and "\<exists>x. to_date (num_add now (ttl_of input)) = Inr x \<and> l = minted now i k input (ttl_of input) x"
      using Pair by (simp_all add: acquire_Inr)
    then obtain x where "to_date (num_add now (ttl_of input)) = Inr x" "l = minted now i k input (ttl_of input) x"
      by blast
    moreover have "forSubject t f' = (if t = aq_subject input then Some l else forSubject t f)" for t
      using Inr forSubject_acquire[of now i k input f l f'] Pair by blast
    ultimately show ?thesis
      using Pair free by (simp add: held_def fun_eq_iff)
  qed
qed

lemma held_heartbeat: "held (snd (heartbeat now s k f)) = lease_spec (LHeartbeat now s k) (held f)"
proof (cases "heartbeat now s k f")
  case (Pair r f')
  show ?thesis
  proof (cases r)
    case (Inl e)
    then show ?thesis
      using Pair heartbeat_Inl[of now s k f e f']
      by (auto simp: heartbeat_def held_def Let_def forSubject_index split: if_splits sum.splits option.splits)
  next
    case (Inr l)
    then obtain old where "forSubject s f = Some old" "le_token old = k"
      and l: "l = old\<lparr>le_heartbeatAt := now, le_expiresAt := le_expiresAt l\<rparr>"
      using forSubject_heartbeat[of now s k f l f'] Pair by blast
    moreover have "to_date (num_add now (le_ttlMs old)) = Inr (le_expiresAt l)"
      using Inr Pair calculation(1) by (auto simp: heartbeat_Inr forSubject_index)
    moreover have "forSubject t f' = (if t = s then Some l else forSubject t f)" for t
      using forSubject_heartbeat[of now s k f l f' t] Inr Pair by blast
    ultimately show ?thesis
      using Pair by (simp add: held_def fun_eq_iff)
  qed
qed

lemma held_release:
  assumes "one_per_subject f"
  shows "held (snd (release s k f)) = lease_spec (LRelease s k) (held f)"
proof (cases "release s k f")
  case (Pair r f')
  show ?thesis
  proof (cases r)
    case (Inl e)
    then show ?thesis
      using Pair release_Inl[of s k f e f']
      by (auto simp: release_def held_def Let_def forSubject_index split: if_splits option.splits)
  next
    case (Inr u)
    then obtain old where "forSubject s f = Some old" "le_token old = k"
      using forSubject_release[of s k f u f'] assms Pair by blast
    moreover have "forSubject t f' = (if t = s then None else forSubject t f)" for t
      using Inr forSubject_release[of s k f u f' t] assms Pair by blast
    ultimately show ?thesis
      using Pair by (simp add: held_def fun_eq_iff)
  qed
qed

lemma held_step: "one_per_subject f \<Longrightarrow> held (lease_step c f) = lease_spec c (held f)"
  by (cases c) (simp_all add: held_acquire held_heartbeat held_release del: lease_spec.simps)

definition sample_subject :: lease_subject where
  "sample_subject = \<lparr>ls_kind = LDemand, ls_id = ''d1''\<rparr>"

definition sample_acquire :: acquire_input where
  "sample_acquire = \<lparr>aq_workspace = ''w'', aq_subject = sample_subject, aq_phase = PQualifying,
     aq_holder = ''alice'', aq_ttlMs = None, aq_eventHead = None\<rparr>"

definition sample_lease :: lease where
  "sample_lease = minted (Fin 0) ''l1'' ''t1'' sample_acquire DEFAULT_LEASE_TTL_MS DEFAULT_LEASE_TTL_MS"

lemmas sample_lease_defs = sample_lease_def minted_def sample_acquire_def sample_subject_def
  DEFAULT_LEASE_TTL_MS_def

text \<open>C23. The lease file refines a map from subjects to leases: starting from a file with at most one
  lease per subject, any sequence of acquisitions, heartbeats and releases keeps at most one lease per
  subject, and what the file records for each subject is what the guarded map updates give, so an
  acquisition is granted exactly when no live lease is recorded and renewals and releases need the token.\<close>
theorem lease_file_refines_map:
  assumes "one_per_subject f"
  shows "one_per_subject (fold lease_step cs f) \<and> held (fold lease_step cs f) = fold lease_spec cs (held f)"
  using assms
proof (induction cs arbitrary: f)
  case (Cons c cs)
  then show ?case
    using leases.sound_step[of f c] held_step[of f c] by (simp del: lease_step.simps lease_spec.simps)
qed simp

theorem lease_file_refines_map_witness:
  "one_per_subject NoFile \<and>
   held (fold lease_step [LAcquire (Fin 0) ''l1'' ''t1'' sample_acquire, LRelease sample_subject ''no''] NoFile)
     sample_subject = Some sample_lease"
proof -
  have empty: "one_per_subject NoFile"
    by (simp add: one_per_subject_def readLeasesFile_def)
  have none: "held NoFile sample_subject = None"
    by (simp add: held_def forSubject_def readLeasesFile_def)
  have "held (fold lease_step [LAcquire (Fin 0) ''l1'' ''t1'' sample_acquire, LRelease sample_subject ''no''] NoFile) =
    fold lease_spec [LAcquire (Fin 0) ''l1'' ''t1'' sample_acquire, LRelease sample_subject ''no''] (held NoFile)"
    using lease_file_refines_map[OF empty] by blast
  then show ?thesis
    using empty none by (simp add: blocked_def ttl_of_def to_date_def sample_lease_defs)
qed

text \<open>C24. A live lease is never stolen: as long as acquisitions and heartbeats happen within the time to
  live counted from its heartbeat and nobody presents its token to release it, the lease stays recorded for
  its subject with the same holder, token and identity, and its heartbeat only moves forward.\<close>
theorem live_lease_survives:
  assumes "one_per_subject f" and "forSubject s f = Some l"
    and "time_le (le_heartbeatAt l) (le_heartbeatAt l)"
    and "list_all (leaves_owner s l) cs"
  shows "\<exists>l'. forSubject s (fold lease_step cs f) = Some l' \<and> renewal l l'"
  by (rule leases.survives[OF assms(1,2) _ assms(4)]) (use assms(3) in \<open>simp add: renewal_def\<close>)

theorem live_lease_survives_witness:
  "\<exists>l'. forSubject sample_subject
     (fold lease_step [LHeartbeat (Fin 60000) sample_subject ''t1'',
        LAcquire (Fin 1800000) ''l2'' ''t2'' (sample_acquire\<lparr>aq_holder := ''bob''\<rparr>),
        LRelease sample_subject ''t2''] (Leases [sample_lease])) = Some l' \<and> renewal sample_lease l'"
proof (rule live_lease_survives)
  show "one_per_subject (Leases [sample_lease])"
    by (simp add: one_per_subject_def readLeasesFile_def)
  show "forSubject sample_subject (Leases [sample_lease]) = Some sample_lease"
    by (simp add: forSubject_find readLeasesFile_def) (simp add: sample_lease_defs)
qed (simp_all add: sample_lease_defs time_le_def time_between_def)

end
