(* ===== verification/Session.thy ===== *)
theory Session
  imports Acceptance Lease Store_Laws
begin

text \<open>
  The machinery of the command facade, class \<open>Track\<close> of \<open>packages/track/src/track.ts\<close>: its fields
  as the state of a command, commands as functions from that state to a result and the next state,
  the emission of events through the store, and the scoped settings. The clock and the identifier
  source are injected in the source; here they are sequences, and the state counts the draws.
\<close>

section \<open>The session\<close>

record env =
  en_host :: host
  en_disk :: disk
  en_now :: "nat \<Rightarrow> string"
  en_parse :: "string \<Rightarrow> jsnum"
  en_newId :: "nat \<Rightarrow> ulid"
  en_actor :: actor_id
  en_prov :: "provenance option"
  en_leases :: "leases_file option"

record session =
  se_store :: store
  se_ticks :: nat
  se_ids :: nat
  se_clientToken :: "string option"
  se_dedupe :: "(command_event list \<Rightarrow> track_event list \<Rightarrow> error + track_event list option) option"
  se_recheck :: "(command_event list \<Rightarrow> track_event list \<Rightarrow> error + unit) option"

type_synonym 'a cmd = "session \<Rightarrow> (error + 'a) \<times> session"

definition returnC :: "'a \<Rightarrow> 'a cmd" where
  "returnC x s = (Inr x, s)"

definition liftC :: "error + 'a \<Rightarrow> 'a cmd" where
  "liftC r s = (r, s)"

definition bindC :: "'a cmd \<Rightarrow> ('a \<Rightarrow> 'b cmd) \<Rightarrow> 'b cmd" where
  "bindC m f s = (case m s of (Inl e, s') \<Rightarrow> (Inl e, s') | (Inr x, s') \<Rightarrow> f x s')"

definition thenC :: "'a cmd \<Rightarrow> 'b cmd \<Rightarrow> 'b cmd" where
  "thenC m k = bindC m (\<lambda>_. k)"

text \<open>\<open>if (!ok) throw new DomainError(...)\<close>, and \<open>Map.get\<close> with its check.\<close>

definition require :: "bool \<Rightarrow> string \<Rightarrow> error + unit" where
  "require ok msg = (if ok then Inr () else Inl (DomainError msg))"

definition get_or :: "string \<Rightarrow> 'a option \<Rightarrow> error + 'a" where
  "get_or msg x = (case x of None \<Rightarrow> Inl (DomainError msg) | Some y \<Rightarrow> Inr y)"

definition requireC :: "bool \<Rightarrow> string \<Rightarrow> unit cmd" where
  "requireC ok msg = liftC (require ok msg)"

definition eventsC :: "track_event list cmd" where
  "eventsC s = (readAll (se_store s), s)"

definition stateC :: "state cmd" where
  "stateC = bindC eventsC (\<lambda>es. returnC (foldEvents es))"

definition nowC :: "env \<Rightarrow> string cmd" where
  "nowC env s = (Inr (en_now env (se_ticks s)), s\<lparr>se_ticks := Suc (se_ticks s)\<rparr>)"

definition newIdC :: "env \<Rightarrow> ulid cmd" where
  "newIdC env s = (Inr (en_newId env (se_ids s)), s\<lparr>se_ids := Suc (se_ids s)\<rparr>)"

text \<open>One identifier per element, in order.\<close>

fun newIdsC :: "env \<Rightarrow> nat \<Rightarrow> ulid list cmd" where
  "newIdsC env 0 = returnC []"
| "newIdsC env (Suc n) = bindC (newIdC env) (\<lambda>i. bindC (newIdsC env n) (\<lambda>is. returnC (i # is)))"

section \<open>Emission\<close>

record event_part =
  pt_aggregate :: aggregate
  pt_aggregateId :: ulid
  pt_type :: event_type
  pt_payload :: js

definition part :: "aggregate \<Rightarrow> ulid \<Rightarrow> event_type \<Rightarrow> js \<Rightarrow> event_part" where
  "part a i ty p = \<lparr>pt_aggregate = a, pt_aggregateId = i, pt_type = ty, pt_payload = p\<rparr>"

definition event_of_part :: "env \<Rightarrow> string \<Rightarrow> string option \<Rightarrow> ulid \<Rightarrow> event_part \<Rightarrow> command_event" where
  "event_of_part env now token i p = \<lparr>
     e_id = i,
     e_type = pt_type p,
     e_aggregate = pt_aggregate p,
     e_aggregateId = pt_aggregateId p,
     e_at = now,
     e_by = en_actor env,
     e_payload = pt_payload p,
     e_prov = en_prov env,
     e_clientToken = token\<rparr>"

definition appendC :: "env \<Rightarrow> ulid option \<Rightarrow> command_event list \<Rightarrow> track_event list cmd" where
  "appendC env cmdId events s =
     (case appendCommand (en_host env) (en_disk env) \<lparr>dedupe = se_dedupe s, recheck = se_recheck s\<rparr>
             cmdId events (se_store s) of
        (r, st') \<Rightarrow> (r, s\<lparr>se_store := st'\<rparr>))"

definition tokenC :: "string option cmd" where
  "tokenC s = (Inr (se_clientToken s), s)"

definition emitBatch :: "env \<Rightarrow> event_part list \<Rightarrow> track_event list cmd" where
  "emitBatch env parts =
     bindC (nowC env) (\<lambda>now.
     bindC tokenC (\<lambda>token.
     bindC (newIdsC env (length parts)) (\<lambda>ids.
     let events = map2 (event_of_part env now token) ids parts in
     if length events > 1
     then bindC (newIdC env) (\<lambda>cmdId. appendC env (Some cmdId) events)
     else appendC env None events)))"

definition emit :: "env \<Rightarrow> aggregate \<Rightarrow> ulid \<Rightarrow> event_type \<Rightarrow> js \<Rightarrow> track_event list cmd" where
  "emit env a i ty payload = emitBatch env [part a i ty payload]"

text \<open>\<open>persisted[0]?.aggregateId ?? id\<close>.\<close>

definition result_id :: "ulid \<Rightarrow> track_event list \<Rightarrow> ulid" where
  "result_id i es = (case es of [] \<Rightarrow> i | e # _ \<Rightarrow> e_aggregateId e)"

section \<open>Scoped settings\<close>

text \<open>The settings are restored in both outcomes (\<open>try\<close> and \<open>finally\<close>).\<close>

definition withClientToken ::
  "string option \<Rightarrow> (command_event list \<Rightarrow> track_event list \<Rightarrow> error + track_event list option) option \<Rightarrow>
     'a cmd \<Rightarrow> 'a cmd" where
  "withClientToken token hook m s =
     (case m (s\<lparr>se_clientToken := token, se_dedupe := hook\<rparr>) of
        (r, s') \<Rightarrow> (r, s'\<lparr>se_clientToken := se_clientToken s, se_dedupe := se_dedupe s\<rparr>))"

definition withDemandRecheck ::
  "(command_event list \<Rightarrow> track_event list \<Rightarrow> error + unit) \<Rightarrow> 'a cmd \<Rightarrow> 'a cmd" where
  "withDemandRecheck hook m s =
     (case m (s\<lparr>se_recheck := Some hook\<rparr>) of (r, s') \<Rightarrow> (r, s'\<lparr>se_recheck := se_recheck s\<rparr>))"

text \<open>\<open>if (clientToken !== undefined) this.withClientToken(clientToken, emit) else emit()\<close>.\<close>

definition tokened :: "string option \<Rightarrow> 'a cmd \<Rightarrow> 'a cmd" where
  "tokened clientToken m =
     (case clientToken of None \<Rightarrow> m | Some t \<Rightarrow> withClientToken (Some t) None m)"

definition doneC :: "'a cmd \<Rightarrow> unit cmd" where
  "doneC m = bindC m (\<lambda>_. returnC ())"

section \<open>The handler\<close>

definition liveLeaseHolder :: "env \<Rightarrow> lease_subject \<Rightarrow> actor_id option cmd" where
  "liveLeaseHolder env subject =
     (case en_leases env of
        None \<Rightarrow> returnC None
      | Some f \<Rightarrow>
          (case forSubject subject f of
             None \<Rightarrow> returnC None
           | Some lease \<Rightarrow>
               bindC (nowC env) (\<lambda>now.
                 returnC (if isLeaseAbandoned lease (en_parse env now) then None else Some (le_holder lease)))))"

definition resolveHandler :: "env \<Rightarrow> actor_id option \<Rightarrow> lease_subject option \<Rightarrow> actor_id cmd" where
  "resolveHandler env handler subject =
     bindC (case subject of None \<Rightarrow> returnC None | Some s \<Rightarrow> liveLeaseHolder env s) (\<lambda>leaseHolder.
     returnC (case handler of Some h \<Rightarrow> h | None \<Rightarrow>
       (case leaseHolder of Some l \<Rightarrow> l | None \<Rightarrow>
         (case Option.bind (en_prov env) prov_principal of Some p \<Rightarrow> p | None \<Rightarrow> en_actor env))))"

definition requireItem :: "ulid \<Rightarrow> item_state cmd" where
  "requireItem i = bindC stateC (\<lambda>st. liftC (get_or ''unknown item'' (jget (st_items st) i)))"

definition evidenceOwner :: "string \<Rightarrow> ulid cmd" where
  "evidenceOwner v =
     bindC stateC (\<lambda>st.
     bindC (liftC (get_or ''unknown evidence'' (jget (st_evidence st) v))) (\<lambda>ev.
     bindC (liftC (get_or ''evidence references an unknown criterion'' (jget (st_criteria st) (ev_criterionId ev))))
       (\<lambda>criterion. returnC (cr_itemId criterion))))"

end
