(* ===== verification/Item_Commands.thy ===== *)
theory Item_Commands
  imports Session
begin

text \<open>
  The item commands of class \<open>Track\<close> (\<open>packages/track/src/track.ts\<close>): creation, parents, roles,
  codes, scopes, links, specification, realization and consolidation. A command folds the log,
  checks its guards on the state and emits its events; guards that only inspect the state are
  functions of it, so that they can also be read against a state that has gone stale.
\<close>

section \<open>Actors\<close>

definition normalizeActor :: "string \<Rightarrow> string option \<Rightarrow> error + string" where
  "normalizeActor input onBlank =
     (let normalized = js_trim input in
      case onBlank of
        Some msg \<Rightarrow> if normalized = [] then Inl (DomainError msg) else Inr normalized
      | None \<Rightarrow> Inr normalized)"

definition normalizeActors :: "string list option \<Rightarrow> string option \<Rightarrow> error + string list option" where
  "normalizeActors input onBlank =
     (case input of
        None \<Rightarrow> Inr None
      | Some actors \<Rightarrow>
          bindR (mapR (\<lambda>a. normalizeActor a onBlank) actors) (\<lambda>normalized.
          case onBlank of
            Some msg \<Rightarrow>
              if normalized = [] \<or> list_ex (\<lambda>a. length a = 0) normalized then Inl (DomainError msg)
              else Inr (Some normalized)
          | None \<Rightarrow> Inr (Some normalized)))"

section \<open>Creation\<close>

definition createItem :: "env \<Rightarrow> item_created_payload \<Rightarrow> ulid cmd" where
  "createItem env input =
     thenC (requireC (icp_kind input \<noteq> KDecision) ''use createDecision for kind decision'') (
     thenC (case (icp_role input, icp_parentId input) of
              (Some role, Some parentId) \<Rightarrow>
                bindC stateC (\<lambda>st.
                  case jget (st_items st) parentId of
                    None \<Rightarrow> returnC ()
                  | Some parent \<Rightarrow> liftC (assertRoleNesting (Some role) (item_role parent)))
            | _ \<Rightarrow> returnC ()) (
     bindC (newIdC env) (\<lambda>itemId.
     bindC (liftC (case icp_accountable input of
              None \<Rightarrow> Inr None
            | Some a \<Rightarrow> bindR (normalizeActor a None) (\<lambda>x. Inr (Some x)))) (\<lambda>accountable.
     bindC (liftC (normalizeActors (icp_responsible input) None)) (\<lambda>responsible.
     bindC (emit env AItem itemId ItemCreated
              (ItemCreatedPayload_js (input\<lparr>icp_accountable := accountable, icp_responsible := responsible\<rparr>)))
       (\<lambda>persisted. returnC (result_id itemId persisted)))))))"

section \<open>Parents\<close>

definition parent_in :: "state \<Rightarrow> ulid \<Rightarrow> ulid option" where
  "parent_in st i = Option.bind (jget (st_items st) i) item_parentId"

text \<open>
  The walk over the ancestors of the prospective parent, with the answer whether it meets the item.
  It has no bound in the source: on a cyclic ancestry it does not return.
\<close>

partial_function (option) meets_ancestor :: "state \<Rightarrow> ulid \<Rightarrow> ulid option \<Rightarrow> bool option" where
  "meets_ancestor st itemId cursor =
     (case cursor of
        None \<Rightarrow> Some False
      | Some c \<Rightarrow> if c = itemId then Some True else meets_ancestor st itemId (parent_in st c))"

definition assert_no_cycle :: "state \<Rightarrow> ulid \<Rightarrow> ulid \<Rightarrow> error + unit" where
  "assert_no_cycle st itemId parentId =
     (case meets_ancestor st itemId (Some parentId) of
        None \<Rightarrow> Inl NonTermination
      | Some True \<Rightarrow> Inl (DomainError ''cannot reparent item under its own descendant (cycle)'')
      | Some False \<Rightarrow> Inr ())"

definition reparent_guard :: "state \<Rightarrow> ulid \<Rightarrow> ulid option \<Rightarrow> error + unit" where
  "reparent_guard st itemId parentId =
     bindR (get_or ''unknown item'' (jget (st_items st) itemId)) (\<lambda>item.
     case parentId of
       None \<Rightarrow> Inr ()
     | Some p \<Rightarrow>
         bindR (require (p \<noteq> itemId) ''cannot reparent item under itself'') (\<lambda>_.
         bindR (get_or ''unknown parent item'' (jget (st_items st) p)) (\<lambda>parent.
         bindR (require (item_workspace parent = item_workspace item) ''cannot reparent across workspaces'') (\<lambda>_.
         bindR (assertRoleNesting (item_role item) (item_role parent)) (\<lambda>_.
         assert_no_cycle st itemId p)))))"

definition reparentItem :: "env \<Rightarrow> ulid \<Rightarrow> ulid option \<Rightarrow> unit cmd" where
  "reparentItem env itemId parentId =
     bindC stateC (\<lambda>st.
     thenC (liftC (reparent_guard st itemId parentId))
     (doneC (emit env AItem itemId ItemReparented (obj [(''parentId'', map_option Str parentId)]))))"

definition restructure_guard :: "state \<Rightarrow> ulid \<Rightarrow> ulid \<Rightarrow> error + unit" where
  "restructure_guard st itemId p =
     bindR (get_or ''unknown item'' (jget (st_items st) itemId)) (\<lambda>item.
     bindR (require (p \<noteq> itemId) ''cannot reparent item under itself'') (\<lambda>_.
     bindR (get_or ''unknown parent item'' (jget (st_items st) p)) (\<lambda>parent.
     bindR (assertRoleNesting (item_role item) (item_role parent)) (\<lambda>_.
     assert_no_cycle st itemId p))))"

definition restructureReparent :: "env \<Rightarrow> ulid \<Rightarrow> ulid \<Rightarrow> string \<Rightarrow> string option \<Rightarrow> unit cmd" where
  "restructureReparent env itemId parentId planHash restructureRef =
     bindC stateC (\<lambda>st.
     thenC (liftC (restructure_guard st itemId parentId))
     (doneC (emit env AItem itemId ItemReparented (obj [
        (''parentId'', Some (Str parentId)),
        (''planHash'', Some (Str planHash)),
        (''restructureRef'', map_option Str restructureRef)]))))"

section \<open>Responsibility, report, links, scope\<close>

definition known_item :: "ulid \<Rightarrow> unit cmd" where
  "known_item i = bindC stateC (\<lambda>st. requireC (jhas (st_items st) i) ''unknown item'')"

definition setRaci :: "env \<Rightarrow> ulid \<Rightarrow> item_raci_update \<Rightarrow> string option \<Rightarrow> unit cmd" where
  "setRaci env itemId update clientToken =
     thenC (known_item itemId) (
     let msg = Some ''setRaci requires accountable and/or responsible'' in
     bindC (liftC (case raci_accountable update of
              None \<Rightarrow> Inr None
            | Some a \<Rightarrow> bindR (normalizeActor a msg) (\<lambda>x. Inr (Some x)))) (\<lambda>accountable.
     bindC (liftC (normalizeActors (raci_responsible update) msg)) (\<lambda>responsible.
     thenC (requireC (accountable \<noteq> None \<or> responsible \<noteq> None) ''setRaci requires accountable and/or responsible'')
     (tokened clientToken (doneC (emit env AItem itemId ItemRaciAssigned
        (ItemRaciUpdate_js \<lparr>raci_accountable = accountable, raci_responsible = responsible\<rparr>)))))))"

definition setReportStatus :: "env \<Rightarrow> ulid \<Rightarrow> js \<Rightarrow> unit cmd" where
  "setReportStatus env itemId report =
     thenC (known_item itemId) (
     thenC (liftC (assertItemReportStatus Write report))
     (doneC (emit env AItem itemId ItemReportUpdated (spread report))))"

definition addItemLink :: "env \<Rightarrow> ulid \<Rightarrow> js \<Rightarrow> string option \<Rightarrow> unit cmd" where
  "addItemLink env itemId link clientToken =
     thenC (known_item itemId) (
     bindC (liftC (assertItemLink link)) (\<lambda>validated.
     tokened clientToken (doneC (emit env AItem itemId ItemLinkAdded
        (obj [(''link'', Some (link_js validated))])))))"

definition declareScope :: "env \<Rightarrow> ulid \<Rightarrow> js \<Rightarrow> string option \<Rightarrow> unit cmd" where
  "declareScope env itemId scope clientToken =
     bindC (requireItem itemId) (\<lambda>item.
     thenC (requireC (item_role item = Some Workpackage \<or> item_role item = Some SpecPhase)
              ''scope is only declarable on a workpackage or spec-phase'') (
     bindC (liftC (assertScopeDecl scope)) (\<lambda>validated.
     tokened clientToken (doneC (emit env AItem itemId ScopeDeclared
        (obj [(''scope'', Some (scope_js validated))]))))))"

section \<open>Codes and roles\<close>

definition assertCodeUnique :: "ulid \<Rightarrow> string \<Rightarrow> state \<Rightarrow> error + unit" where
  "assertCodeUnique selfId code st =
     (case find (\<lambda>other. item_id other \<noteq> selfId \<and> item_code other = Some code \<and> isRoleContainer (item_role other))
             (jvals (st_items st)) of
        None \<Rightarrow> Inr ()
      | Some _ \<Rightarrow> Inl (DomainError ''code is already assigned to a container - codes are roster-global unique''))"

definition code_recheck :: "ulid \<Rightarrow> string \<Rightarrow> command_event list \<Rightarrow> track_event list \<Rightarrow> error + unit" where
  "code_recheck itemId code inputs existing = assertCodeUnique itemId code (foldEvents existing)"

definition assignCode :: "env \<Rightarrow> ulid \<Rightarrow> string \<Rightarrow> string option \<Rightarrow> unit cmd" where
  "assignCode env itemId code clientToken =
     bindC stateC (\<lambda>st.
     bindC (liftC (get_or ''unknown item'' (jget (st_items st) itemId))) (\<lambda>item.
     thenC (requireC (isRoleContainer (item_role item)) ''a code is only assignable to a role-container'') (
     thenC (requireC (length code > 0) ''assignCode: code must be a non-empty string'') (
     thenC (liftC (assertCodeUnique itemId code st))
     (withDemandRecheck (code_recheck itemId code)
        (tokened clientToken (doneC (emit env AItem itemId ItemCodeAssigned (obj [(''code'', Some (Str code))])))))))))"

text \<open>The role change is legal for the item under its parent and for every child under the item.\<close>

definition role_guard :: "state \<Rightarrow> ulid \<Rightarrow> item_role \<Rightarrow> error + unit" where
  "role_guard st itemId to =
     bindR (get_or ''unknown item'' (jget (st_items st) itemId)) (\<lambda>item.
     bindR (require (to = Workpackage \<or> to = Stream) ''a role-change is bounded to a container target'') (\<lambda>_.
     bindR (require (item_role item = Some Workpackage \<or> item_role item = Some Stream)
              ''only a workpackage or stream may change role'') (\<lambda>_.
     bindR (case Option.bind (item_parentId item) (jget (st_items st)) of
              None \<Rightarrow> Inr ()
            | Some parent \<Rightarrow> assertRoleNesting (Some to) (item_role parent)) (\<lambda>_.
     bindR (mapR (\<lambda>child. assertRoleNesting (item_role child) (Some to))
              (filter (\<lambda>child. item_parentId child = Some itemId) (jvals (st_items st)))) (\<lambda>_.
     Inr ())))))"

definition setRole :: "env \<Rightarrow> ulid \<Rightarrow> item_role \<Rightarrow> string option \<Rightarrow> unit cmd" where
  "setRole env itemId to clientToken =
     bindC stateC (\<lambda>st.
     thenC (liftC (role_guard st itemId to))
     (tokened clientToken (doneC (emit env AItem itemId ItemRoleChanged
        (obj [(''to'', Some (item_role_js to))])))))"

section \<open>Specification and realization\<close>

definition amendSpec :: "env \<Rightarrow> ulid \<Rightarrow> js \<Rightarrow> string option \<Rightarrow> unit cmd" where
  "amendSpec env itemId amend clientToken =
     thenC (known_item itemId) (
     bindC (liftC (assertSpecAmend (js_with ''itemId'' (Str itemId) amend))) (\<lambda>validated.
     tokened clientToken (doneC (emit env AItem itemId SpecAmended (SpecAmendPayload_js validated)))))"

definition setSpec :: "env \<Rightarrow> ulid \<Rightarrow> spec_status \<Rightarrow> unit cmd" where
  "setSpec env itemId to =
     bindC (requireItem itemId) (\<lambda>item.
     thenC (liftC (assertSpecTransition item to))
     (doneC (emit env AItem itemId SpecTransition (obj [(''to'', Some (spec_status_js to))]))))"

definition setRealization :: "env \<Rightarrow> ulid \<Rightarrow> realization \<Rightarrow> unit cmd" where
  "setRealization env itemId to =
     bindC stateC (\<lambda>st.
     let payload = obj [(''to'', Some (realization_js to))] in
     case jget (st_items st) itemId of
       Some item \<Rightarrow>
         thenC (liftC (assertRealizationTransition (item_realization item) to False))
         (doneC (emit env AItem itemId RealizationTransition payload))
     | None \<Rightarrow>
         (case jget (st_decisions st) itemId of
            Some decision \<Rightarrow>
              thenC (liftC (assertRealizationTransition (dec_realization decision) to False))
              (doneC (emit env ADecision itemId RealizationTransition payload))
          | None \<Rightarrow> liftC (Inl (DomainError ''unknown item''))))"

definition reopen_guard :: "state \<Rightarrow> ulid \<Rightarrow> js \<Rightarrow> error + reopen_payload" where
  "reopen_guard st itemId reopening =
     (case jget (st_items st) itemId of
        None \<Rightarrow>
          if jhas (st_decisions st) itemId
          then Inl (DomainError ''a decision has no delivered capability to reopen'')
          else Inl (DomainError ''unknown item'')
      | Some item \<Rightarrow>
          bindR (assertReopenPayload reopening) (\<lambda>(motive, reason).
          bindR (assertReopenTransition (item_realization item)) (\<lambda>_.
          Inr \<lparr>rp_itemId = itemId, rp_motive = motive, rp_reason = reason\<rparr>)))"

definition reopenItem :: "env \<Rightarrow> ulid \<Rightarrow> js \<Rightarrow> string option \<Rightarrow> unit cmd" where
  "reopenItem env itemId reopening clientToken =
     bindC stateC (\<lambda>st.
     bindC (liftC (reopen_guard st itemId reopening)) (\<lambda>p.
     tokened clientToken (doneC (emit env AItem itemId RealizationReopened (ReopenPayload_js p)))))"

definition anchor_payload :: "ulid \<Rightarrow> string \<Rightarrow> string option \<Rightarrow> js" where
  "anchor_payload itemId commit reason = obj [(''itemId'', Some (Str itemId)), (''commit'', Some (Str commit)),
     (''reason'', map_option Str reason)]"

definition anchorRealization :: "env \<Rightarrow> ulid \<Rightarrow> string \<Rightarrow> string option \<Rightarrow> string option \<Rightarrow> unit cmd" where
  "anchorRealization env itemId commit reason clientToken =
     thenC (known_item itemId)
     (tokened clientToken (doneC (emit env AItem itemId RealizationAnchored (anchor_payload itemId commit reason))))"

section \<open>Consolidation\<close>

definition restamp :: "ulid \<Rightarrow> string \<Rightarrow> evidence_state \<Rightarrow> event_part option" where
  "restamp itemId mergeCommit evidence =
     (case ev_latestRun evidence of
        None \<Rightarrow> None
      | Some latest \<Rightarrow>
          if run_result latest \<noteq> Pass then None
          else if run_commit latest = mergeCommit then None
          else Some (part AItem itemId AcceptanceRun (RunPayload_js
                 \<lparr>rnp_evidenceId = ev_id evidence, rnp_commit = mergeCommit, rnp_env = run_env latest,
                  rnp_runner = run_runner latest, rnp_result = Pass\<rparr>)))"

definition consolidate_parts :: "state \<Rightarrow> string \<Rightarrow> ulid \<Rightarrow> event_part list" where
  "consolidate_parts st mergeCommit itemId =
     (if \<not> isConsolidationEligible st itemId then []
      else part AItem itemId RealizationAnchored (anchor_payload itemId mergeCommit (Some ''consolidate'')) #
        concat (map (\<lambda>criterion.
            List.map_filter (restamp itemId mergeCommit) (evidenceForCriterion st (cr_id criterion)))
          (criteria_of st itemId)))"

definition consolidate :: "env \<Rightarrow> ulid list \<Rightarrow> string \<Rightarrow> string option \<Rightarrow> unit cmd" where
  "consolidate env itemIds mergeCommit clientToken =
     bindC stateC (\<lambda>st.
     thenC (requireC (list_all (jhas (st_items st)) itemIds) ''unknown item'') (
     let parts = concat (map (consolidate_parts st mergeCommit) itemIds) in
     if length parts = 0 then returnC ()
     else tokened clientToken (doneC (emitBatch env parts))))"

end
