(* ===== verification/Work_Commands.thy ===== *)
theory Work_Commands
  imports Item_Commands
begin

text \<open>
  The decision, blocker, acceptance and demand commands of class \<open>Track\<close>
  (\<open>packages/track/src/track.ts\<close>). The demand commands install a recheck that the store runs under
  its lock against the log as it is then.
\<close>

section \<open>Decisions\<close>

definition open_decision_blocker :: "state \<Rightarrow> ulid \<Rightarrow> ulid \<Rightarrow> blocker_state option" where
  "open_decision_blocker st decisionId targetId =
     find (\<lambda>b. blk_kind b = BDecision \<and> blk_ref b = Some decisionId \<and> blk_targetId b = targetId \<and> blk_open b)
       (jvals (st_blockers st))"

definition target_parts :: "state \<Rightarrow> decision_state \<Rightarrow> outcome \<Rightarrow> ulid \<Rightarrow> event_part list" where
  "target_parts st decision to targetId =
     (case open_decision_blocker st (dec_id decision) targetId of
        None \<Rightarrow> []
      | Some blocker \<Rightarrow> [part ABlocker (blk_id blocker) BlockerResolved
          (obj [(''blockerId'', Some (Str (blk_id blocker))), (''decisionId'', Some (Str (dec_id decision)))])]) @
     (if to = NoGo then
        (case jget (st_items st) targetId of
           None \<Rightarrow> []
         | Some target \<Rightarrow>
             if item_realization target = ToDo \<or> item_realization target = InProgress
             then [part AItem targetId RealizationTransition (obj [(''to'', Some (realization_js Rejected)),
                    (''cause'', Some (obj [(''decisionId'', Some (Str (dec_id decision)))]))])]
             else [])
      else [])"

definition outcomeParts :: "state \<Rightarrow> decision_state \<Rightarrow> outcome \<Rightarrow> event_part list" where
  "outcomeParts st decision to =
     part ADecision (dec_id decision) DecisionOutcome (obj [(''to'', Some (outcome_js to))]) #
     (if to = Go \<or> to = NoGo then concat (map (target_parts st decision to) (dec_targets decision)) else [])"

definition decision_guard :: "state \<Rightarrow> decision_created_payload \<Rightarrow> error + unit" where
  "decision_guard st input =
     bindR (mapR (\<lambda>targetId.
        if jhas (st_decisions st) targetId
        then Inl (DomainError ''a decision cannot target another decision'')
        else require (jhas (st_items st) targetId) ''unknown target item'') (dcp_targets input))
     (\<lambda>_. Inr ())"

definition awaiting_part :: "gate \<Rightarrow> ulid \<Rightarrow> ulid \<Rightarrow> ulid \<Rightarrow> event_part" where
  "awaiting_part kind decisionId targetId blockerId =
     part ABlocker blockerId BlockerOpened (obj [
       (''blockerId'', Some (Str blockerId)),
       (''targetId'', Some (Str targetId)),
       (''kind'', Some (blocker_kind_js BDecision)),
       (''ref'', Some (Str decisionId)),
       (''reason'', Some (Str (''awaiting '' @ js_str (gate_js kind) @ '' decision'')))])"

definition createDecision :: "env \<Rightarrow> decision_created_payload \<Rightarrow> ulid cmd" where
  "createDecision env input =
     thenC (liftC (assertStructuredDossier False (dcp_dossier input))) (
     thenC (requireC (length (dcp_targets input) > 0) ''a decision needs at least one target'') (
     thenC (requireC (distinct (dcp_targets input)) ''a decision cannot list the same target twice'') (
     bindC stateC (\<lambda>st.
     thenC (liftC (decision_guard st input)) (
     bindC (newIdC env) (\<lambda>decisionId.
     bindC (newIdsC env (length (dcp_targets input))) (\<lambda>blockerIds.
     bindC (emitBatch env
        (part ADecision decisionId DecisionCreated (DecisionCreatedPayload_js input) #
         map2 (awaiting_part (dcp_decisionKind input) decisionId) (dcp_targets input) blockerIds))
       (\<lambda>persisted. returnC (result_id decisionId persisted)))))))))"

definition setOutcome :: "env \<Rightarrow> ulid \<Rightarrow> outcome \<Rightarrow> unit cmd" where
  "setOutcome env decisionId to =
     bindC stateC (\<lambda>st.
     bindC (liftC (get_or ''unknown decision'' (jget (st_decisions st) decisionId))) (\<lambda>decision.
     if to \<noteq> Deferred then
       (if \<not> isStructuredDossier (dec_dossier decision)
        then liftC (Inl (DomainError ''an unstructured legacy decision must be revised before it can be settled''))
        else liftC (Inl (DomainError ''a structured decision must use decision.select'')))
     else
       thenC (liftC (assertOutcomeTransition (dec_outcome decision) to))
       (doneC (emitBatch env (outcomeParts st decision to)))))"

definition sameStringList :: "js \<Rightarrow> js \<Rightarrow> bool" where
  "sameStringList left right =
     (if left = Undef \<or> right = Undef then left = right
      else length (js_elems left) = length (js_elems right) \<and> js_elems left = js_elems right)"

definition sameOption :: "js \<Rightarrow> js \<Rightarrow> bool" where
  "sameOption left right \<longleftrightarrow>
     js_prop left ''id'' = js_prop right ''id'' \<and>
     js_prop left ''title'' = js_prop right ''title'' \<and>
     js_prop left ''summary'' = js_prop right ''summary'' \<and>
     sameStringList (js_prop left ''pros'') (js_prop right ''pros'') \<and>
     sameStringList (js_prop left ''cons'') (js_prop right ''cons'')"

definition option_named :: "js \<Rightarrow> js \<Rightarrow> js option" where
  "option_named d i = find (\<lambda>o'. js_prop o' ''id'' = i) (js_elems (js_prop d ''options''))"

definition revise_guard :: "dossier \<Rightarrow> dossier \<Rightarrow> error + unit" where
  "revise_guard old new =
     bindR (assertStructuredDossier True new) (\<lambda>_.
     bindR (require (js_prop new ''selectedOptionId'' = js_prop old ''selectedOptionId'')
              ''decision dossier selectedOptionId is set only by decision.option-selected'') (\<lambda>_.
     if js_prop old ''selectedOptionId'' = Undef then Inr ()
     else
       bindR (require
          (case (option_named old (js_prop old ''selectedOptionId''), option_named new (js_prop new ''selectedOptionId'')) of
             (Some a, Some b) \<Rightarrow> sameOption a b | _ \<Rightarrow> False)
          ''a settled decision cannot change its selected option'') (\<lambda>_.
       let r = js_prop old ''recommendation''; r' = js_prop new ''recommendation'' in
       require (r \<noteq> Undef \<and> r' \<noteq> Undef \<and> js_prop r ''optionId'' = js_prop r' ''optionId'' \<and>
          js_prop r ''rationale'' = js_prop r' ''rationale'')
         ''a settled decision cannot change its recorded recommendation'')))"

definition reviseDossier :: "env \<Rightarrow> ulid \<Rightarrow> dossier \<Rightarrow> unit cmd" where
  "reviseDossier env decisionId dossier =
     bindC stateC (\<lambda>st.
     bindC (liftC (get_or ''unknown decision'' (jget (st_decisions st) decisionId))) (\<lambda>decision.
     thenC (liftC (revise_guard (dec_dossier decision) dossier))
     (doneC (emit env ADecision decisionId DossierRevised (obj [(''dossier'', Some dossier)])))))"

definition select_guard :: "decision_state \<Rightarrow> string \<Rightarrow> outcome \<Rightarrow> error + unit" where
  "select_guard decision optionId to =
     bindR (assertStructuredDossier True (dec_dossier decision)) (\<lambda>_.
     bindR (assertOutcomeTransition (dec_outcome decision) to) (\<lambda>_.
     bindR (require (js_prop (dec_dossier decision) ''selectedOptionId'' = Undef)
              ''decision already has a selected option'') (\<lambda>_.
     require (list_ex (\<lambda>o'. js_prop o' ''id'' = Str optionId) (js_elems (js_prop (dec_dossier decision) ''options'')))
       ''decision option is not declared'')))"

text \<open>The outcome is \<open>go\<close> or \<open>no-go\<close> by its type.\<close>

definition selectDecisionOption :: "env \<Rightarrow> ulid \<Rightarrow> string \<Rightarrow> outcome \<Rightarrow> unit cmd" where
  "selectDecisionOption env decisionId optionId to =
     bindC stateC (\<lambda>st.
     bindC (liftC (get_or ''unknown decision'' (jget (st_decisions st) decisionId))) (\<lambda>decision.
     thenC (liftC (select_guard decision optionId to))
     (doneC (emitBatch env
        (part ADecision decisionId DecisionOptionSelected (obj [(''optionId'', Some (Str optionId))]) #
         outcomeParts st decision to)))))"

definition addDecisionArtifact :: "env \<Rightarrow> ulid \<Rightarrow> js \<Rightarrow> string option \<Rightarrow> unit cmd" where
  "addDecisionArtifact env decisionId artifact clientToken =
     bindC stateC (\<lambda>st.
     thenC (requireC (jhas (st_decisions st) decisionId) ''unknown decision'') (
     bindC (liftC (assertDossierArtifact artifact)) (\<lambda>validated.
     tokened clientToken (doneC (emit env ADecision decisionId DecisionArtifactAdded
        (obj [(''artifact'', Some (artifact_js validated))]))))))"

definition setDisposition :: "env \<Rightarrow> ulid \<Rightarrow> gate \<Rightarrow> disposition \<Rightarrow> string option \<Rightarrow> unit cmd" where
  "setDisposition env itemId gate disposition reason =
     thenC (requireC (disposition \<noteq> DCompleted) ''disposition completed is set automatically when a decision settles'') (
     thenC (known_item itemId)
     (doneC (emit env AItem itemId DecisionDisposition (obj [
        (''itemId'', Some (Str itemId)),
        (''gate'', Some (gate_js gate)),
        (''disposition'', Some (disposition_js disposition)),
        (''reason'', map_option Str reason)]))))"

section \<open>Blockers\<close>

record open_blocker_input =
  obi_targetId :: ulid
  obi_kind :: blocker_kind
  obi_ref :: "ulid option"
  obi_reason :: string
  obi_resolutionRule :: "resolution_rule option"
  obi_owner :: "actor_id option"
  obi_scope :: "blocker_scope option"
  obi_engagementRef :: "string option"

definition input_scope :: "open_blocker_input \<Rightarrow> blocker_scope" where
  "input_scope input =
     (if obi_kind input = BDependency
      then (case obi_scope input of None \<Rightarrow> Intra | Some s \<Rightarrow> s) else Intra)"

definition blocker_guard :: "state \<Rightarrow> open_blocker_input \<Rightarrow> error + resolution_rule option" where
  "blocker_guard st input =
     bindR (require (jhas (st_items st) (obi_targetId input)) ''unknown target item'') (\<lambda>_.
     if obi_kind input = BDecision then
       bindR (require (case obi_ref input of None \<Rightarrow> False | Some r \<Rightarrow> jhas (st_decisions st) r)
                ''a decision blocker's ref must be an existing decision'') (\<lambda>_. Inr None)
     else if input_scope input = Extra then
       bindR (require (case obi_engagementRef input of None \<Rightarrow> False | Some r \<Rightarrow> length r \<noteq> 0)
                ''an extra-scope dependency blocker requires an engagementRef'') (\<lambda>_.
       bindR (require (obi_ref input = None) ''an extra-scope dependency blocker must NOT carry a local ref'') (\<lambda>_.
       bindR (require (obi_resolutionRule input = None \<or> obi_resolutionRule input = Some ManualRule)
                ''an extra-scope dependency resolves manual only'') (\<lambda>_.
       Inr (Some ManualRule))))
     else
       bindR (require (case obi_ref input of None \<Rightarrow> False | Some r \<Rightarrow> jhas (st_items st) r) ''unknown ref item'') (\<lambda>_.
       Inr (Some (case obi_resolutionRule input of None \<Rightarrow> LinkedDone | Some r \<Rightarrow> r))))"

definition openBlocker :: "env \<Rightarrow> open_blocker_input \<Rightarrow> ulid cmd" where
  "openBlocker env input =
     bindC stateC (\<lambda>st.
     bindC (liftC (blocker_guard st input)) (\<lambda>resolutionRule.
     bindC (newIdC env) (\<lambda>blockerId.
     bindC (emit env ABlocker blockerId BlockerOpened (BlockerOpenedPayload_js
        \<lparr>bop_blockerId = blockerId, bop_targetId = obi_targetId input, bop_kind = obi_kind input,
         bop_ref = obi_ref input, bop_reason = obi_reason input, bop_resolutionRule = resolutionRule,
         bop_owner = obi_owner input,
         bop_scope = (if input_scope input = Extra then Some Extra else None),
         bop_engagementRef = obi_engagementRef input\<rparr>))
       (\<lambda>persisted. returnC (result_id blockerId persisted)))))"

definition resolve_payload :: "ulid \<Rightarrow> string option \<Rightarrow> js" where
  "resolve_payload blockerId engagementRef =
     obj [(''blockerId'', Some (Str blockerId)), (''engagementRef'', map_option Str engagementRef)]"

definition resolveBlocker :: "env \<Rightarrow> ulid \<Rightarrow> unit cmd" where
  "resolveBlocker env blockerId =
     bindC stateC (\<lambda>st.
     bindC (liftC (get_or ''unknown blocker'' (jget (st_blockers st) blockerId))) (\<lambda>blocker.
     thenC (liftC (assertManualResolve blocker)) (
     thenC (requireC (blk_open blocker) ''blocker is already resolved'')
     (doneC (emit env ABlocker blockerId BlockerResolved (resolve_payload blockerId (blk_engagementRef blocker)))))))"

datatype resolve_scope = InWorkspace string | AllWorkspaces

definition external_blocker :: "state \<Rightarrow> string \<Rightarrow> resolve_scope \<Rightarrow> blocker_state \<Rightarrow> bool" where
  "external_blocker st engagementRef scope b \<longleftrightarrow>
     blk_open b \<and> blk_kind b = BDependency \<and> blk_scope b = Some Extra \<and> blk_engagementRef b = Some engagementRef \<and>
     (case scope of
        AllWorkspaces \<Rightarrow> True
      | InWorkspace w \<Rightarrow> map_option item_workspace (jget (st_items st) (blk_targetId b)) = Some w)"

definition resolveExternalDependency :: "env \<Rightarrow> string \<Rightarrow> resolve_scope \<Rightarrow> ulid list cmd" where
  "resolveExternalDependency env engagementRef scope =
     thenC (requireC (case scope of AllWorkspaces \<Rightarrow> True | InWorkspace w \<Rightarrow> length w \<noteq> 0)
              ''resolveExternalDependency: scope must be a non-empty workspace or all-workspaces'') (
     bindC stateC (\<lambda>st.
     let parts = map (\<lambda>b. part ABlocker (blk_id b) BlockerResolved (resolve_payload (blk_id b) (Some engagementRef)))
           (filter (external_blocker st engagementRef scope) (jvals (st_blockers st))) in
     if length parts = 0 then returnC []
     else bindC (emitBatch env parts) (\<lambda>es. returnC (map e_aggregateId es))))"

section \<open>Acceptance\<close>

definition payload_text :: "string \<Rightarrow> string \<Rightarrow> track_event list \<Rightarrow> string" where
  "payload_text key fallback es =
     (case es of [] \<Rightarrow> fallback | e # _ \<Rightarrow> (case js_prop (e_payload e) key of Undef \<Rightarrow> fallback | v \<Rightarrow> js_str v))"

definition addCriterion :: "env \<Rightarrow> ulid \<Rightarrow> string \<Rightarrow> string cmd" where
  "addCriterion env itemId statement =
     bindC stateC (\<lambda>st.
     thenC (requireC (\<not> jhas (st_decisions st) itemId) ''cannot add an acceptance criterion to a decision'') (
     thenC (requireC (jhas (st_items st) itemId) ''unknown item'') (
     bindC (newIdC env) (\<lambda>criterionId.
     bindC (emit env AItem itemId AcceptanceCriterionAdded
        (obj [(''criterionId'', Some (Str criterionId)), (''statement'', Some (Str statement))]))
       (\<lambda>persisted. returnC (payload_text ''criterionId'' criterionId persisted))))))"

definition linkEvidence :: "env \<Rightarrow> string \<Rightarrow> evidence_kind \<Rightarrow> string \<Rightarrow> string option \<Rightarrow> string cmd" where
  "linkEvidence env criterionId kind locator evidenceIdInput =
     bindC stateC (\<lambda>st.
     bindC (liftC (get_or ''unknown criterion'' (jget (st_criteria st) criterionId))) (\<lambda>criterion.
     thenC (requireC (evidenceIdInput \<noteq> Some []) ''linkEvidence: evidenceId must be a non-empty string when supplied'') (
     bindC tokenC (\<lambda>activeClientToken.
     let existing = Option.bind evidenceIdInput (jget (st_evidence st));
         isOwnRetry = activeClientToken \<noteq> None \<and>
           Option.bind existing ev_originClientToken = activeClientToken in
     thenC (requireC (evidenceIdInput = None \<or> existing = None \<or> isOwnRetry)
              ''acceptance.link: evidence already exists (caller-supplied evidenceId must be unique)'') (
     bindC (case evidenceIdInput of Some v \<Rightarrow> returnC v | None \<Rightarrow> newIdC env) (\<lambda>evidenceId.
     bindC (emit env AItem (cr_itemId criterion) AcceptanceEvidenceLinked (EvidenceLinkedPayload_js
        \<lparr>elp_evidenceId = evidenceId, elp_criterionId = criterionId, elp_kind = kind, elp_locator = locator\<rparr>))
       (\<lambda>persisted. returnC (payload_text ''evidenceId'' evidenceId persisted))))))))"

definition recordRun :: "env \<Rightarrow> run_payload \<Rightarrow> unit cmd" where
  "recordRun env run =
     bindC (evidenceOwner (rnp_evidenceId run)) (\<lambda>owner.
     doneC (emit env AItem owner AcceptanceRun (RunPayload_js run)))"

definition recordVerification :: "env \<Rightarrow> js \<Rightarrow> string \<Rightarrow> string option \<Rightarrow> unit cmd" where
  "recordVerification env input workspace clientToken =
     bindC (liftC (assertVerificationRun input)) (\<lambda>validated.
     thenC (case vrp_wpRef validated of
              None \<Rightarrow> returnC ()
            | Some w \<Rightarrow> bindC stateC (\<lambda>st. requireC (jhas (st_items st) w) ''unknown wpRef item'')) (
     let aggregate = (if vrp_wpRef validated \<noteq> None then AItem else AVerification);
         aggregateId = (case vrp_wpRef validated of Some w \<Rightarrow> w | None \<Rightarrow> ''verification:'' @ workspace) in
     tokened clientToken (doneC (emit env aggregate aggregateId ScopeVerificationRecorded
        (VerificationPayload_js validated)))))"

definition waive :: "env \<Rightarrow> string \<Rightarrow> string \<Rightarrow> unit cmd" where
  "waive env criterionId reason =
     bindC stateC (\<lambda>st.
     bindC (liftC (get_or ''unknown criterion'' (jget (st_criteria st) criterionId))) (\<lambda>criterion.
     doneC (emit env AItem (cr_itemId criterion) AcceptanceWaived (WaivedPayload_js
        \<lparr>wvp_criterionId = criterionId, wvp_reason = reason, wvp_by = en_actor env\<rparr>))))"

text \<open>
  Ingestion of a test report, after its parsing: the entries are the pairs of locator and result. A
  run is keyed by evidence, commit, environment and runner.
\<close>

type_synonym run_key = "string \<times> string \<times> string \<times> string"

definition run_key :: "run_payload \<Rightarrow> run_key" where
  "run_key p = (rnp_evidenceId p, rnp_commit p, rnp_env p, rnp_runner p)"

definition logLatest :: "track_event list \<Rightarrow> (run_key, run_result) jmap" where
  "logLatest es =
     fold (\<lambda>e m.
       if e_type e \<noteq> AcceptanceRun then m
       else case RunPayload_of (e_payload e) of None \<Rightarrow> m | Some p \<Rightarrow> jset (run_key p) (rnp_result p) m) es []"

text \<open>The runs a report asserts, in the order of the loops, with the item of each.\<close>

definition asserted_runs ::
  "state \<Rightarrow> string \<Rightarrow> string \<Rightarrow> string \<Rightarrow> (string \<times> run_result) list \<Rightarrow> (ulid \<times> run_payload) list" where
  "asserted_runs st commit ev runner entries =
     concat (map (\<lambda>(locator, result).
       List.map_filter (\<lambda>e.
         if ev_locator e \<noteq> locator then None
         else map_option (\<lambda>c. (cr_itemId c, \<lparr>rnp_evidenceId = ev_id e, rnp_commit = commit, rnp_env = ev,
                rnp_runner = runner, rnp_result = result\<rparr>)) (jget (st_criteria st) (ev_criterionId e)))
         (jvals (st_evidence st))) entries)"

text \<open>The last result per key, in first-seen order (\<open>reportResult\<close> and \<open>order\<close>).\<close>

definition collapse_report :: "(ulid \<times> run_payload) list \<Rightarrow> (run_key, ulid \<times> run_payload) jmap" where
  "collapse_report rs = fold (\<lambda>(i, p) m.
     jset (run_key p) (case jget m (run_key p) of Some (i', _) \<Rightarrow> (i', p) | None \<Rightarrow> (i, p)) m) rs []"

definition ingest_parts :: "track_event list \<Rightarrow> (run_key, ulid \<times> run_payload) jmap \<Rightarrow> event_part list" where
  "ingest_parts es report =
     List.map_filter (\<lambda>(key, i, p).
       if jget (logLatest es) key = Some (rnp_result p) then None
       else Some (part AItem i AcceptanceRun (RunPayload_js p))) report"

definition ingestRuns ::
  "env \<Rightarrow> (string \<times> run_result) list \<Rightarrow> string \<Rightarrow> string \<Rightarrow> string \<Rightarrow> nat cmd" where
  "ingestRuns env entries commit ev runner =
     bindC stateC (\<lambda>st.
     bindC eventsC (\<lambda>es.
     let parts = ingest_parts es (collapse_report (asserted_runs st commit ev runner entries)) in
     if length parts = 0 then returnC 0
     else thenC (emitBatch env parts) (returnC (length parts))))"

section \<open>Demands\<close>

record raise_input =
  ri_type :: js
  ri_raw :: js
  ri_source :: js
  ri_workspace :: string
  ri_handler :: "actor_id option"
  ri_sourceKey :: "js option"
  ri_concerns :: "js option"
  ri_links :: "js option"

definition raiseDemand :: "env \<Rightarrow> raise_input \<Rightarrow> ulid cmd" where
  "raiseDemand env input =
     bindC (resolveHandler env (ri_handler input) None) (\<lambda>handler.
     bindC (liftC (assertDemandRaised (obj [
        (''type'', Some (ri_type input)), (''raw'', Some (ri_raw input)), (''source'', Some (ri_source input)),
        (''workspace'', Some (Str (ri_workspace input))), (''handler'', Some (Str handler)),
        (''sourceKey'', ri_sourceKey input), (''concerns'', ri_concerns input), (''links'', ri_links input)])))
       (\<lambda>validated.
     bindC (newIdC env) (\<lambda>demandId.
     bindC (emit env ADemand demandId DemandRaised (DemandRaisedPayload_js (ri_workspace input) validated))
       (\<lambda>persisted. returnC (result_id demandId persisted)))))"

text \<open>The transition check, against the state at hand and again under the lock.\<close>

definition demand_guard :: "ulid \<Rightarrow> demand_status \<Rightarrow> state \<Rightarrow> error + demand_state" where
  "demand_guard demandId to st =
     bindR (get_or ''unknown demand'' (jget (st_demands st) demandId)) (\<lambda>demand.
     bindR (assertDemandTransition (dem_status demand) to) (\<lambda>_. Inr demand))"

definition demand_recheck ::
  "ulid \<Rightarrow> demand_status \<Rightarrow> command_event list \<Rightarrow> track_event list \<Rightarrow> error + unit" where
  "demand_recheck demandId to inputs existing = bindR (demand_guard demandId to (foldEvents existing)) (\<lambda>_. Inr ())"

definition transitionDemand ::
  "env \<Rightarrow> ulid \<Rightarrow> demand_status \<Rightarrow> event_type \<Rightarrow> actor_id option \<Rightarrow> (string \<times> js option) list \<Rightarrow> unit cmd" where
  "transitionDemand env demandId to ty handlerInput decorate =
     bindC stateC (\<lambda>st.
     bindC (liftC (demand_guard demandId to st)) (\<lambda>demand.
     bindC (resolveHandler env handlerInput (Some \<lparr>ls_kind = LDemand, ls_id = demandId\<rparr>)) (\<lambda>handler.
     withDemandRecheck (demand_recheck demandId to)
       (doneC (emit env ADemand demandId ty (obj ((''handler'', Some (Str handler)) # decorate)))))))"

definition claimDemand :: "env \<Rightarrow> ulid \<Rightarrow> actor_id option \<Rightarrow> string option \<Rightarrow> unit cmd" where
  "claimDemand env demandId handler leaseId =
     transitionDemand env demandId Qualifying DemandQualifyingStarted handler [(''leaseId'', map_option Str leaseId)]"

record promoted =
  pm_title :: string
  pm_body :: "string option"
  pm_sourceKey :: "string option"
  pm_links :: "link list option"

definition promotion_part :: "ulid \<Rightarrow> demand_state \<Rightarrow> ulid \<Rightarrow> promoted \<Rightarrow> event_part" where
  "promotion_part demandId demand itemId it =
     part AItem itemId ItemCreated (obj [
       (''kind'', Some (demand_type_js (dem_type demand))),
       (''title'', Some (Str (pm_title it))),
       (''workspace'', Some (Str (dem_workspace demand))),
       (''demandId'', Some (Str demandId)),
       (''body'', map_option Str (pm_body it)),
       (''sourceKey'', map_option Str (pm_sourceKey it)),
       (''links'', map_option links_js (pm_links it))])"

definition agreeDemand ::
  "env \<Rightarrow> ulid \<Rightarrow> actor_id option \<Rightarrow> promoted list \<Rightarrow> string option \<Rightarrow> string option \<Rightarrow> ulid list cmd" where
  "agreeDemand env demandId handlerInput items qualification leaseId =
     bindC stateC (\<lambda>st.
     bindC (liftC (get_or ''unknown demand'' (jget (st_demands st) demandId))) (\<lambda>demand.
     thenC (requireC (items \<noteq> []) ''agreeDemand: a promotion must yield at least one item'') (
     thenC (liftC (assertDemandTransition (dem_status demand) Agreed)) (
     bindC (resolveHandler env handlerInput (Some \<lparr>ls_kind = LDemand, ls_id = demandId\<rparr>)) (\<lambda>handler.
     bindC (newIdsC env (length items)) (\<lambda>itemIds.
     bindC (withDemandRecheck (demand_recheck demandId Agreed)
        (emitBatch env
          (part ADemand demandId DemandAgreed (obj [
             (''handler'', Some (Str handler)),
             (''itemIds'', Some (strs itemIds)),
             (''qualification'', map_option Str qualification),
             (''leaseId'', map_option Str leaseId)]) #
           map2 (promotion_part demandId demand) itemIds items)))
       (\<lambda>persisted. returnC (map e_aggregateId (filter (\<lambda>e. e_type e = ItemCreated) persisted)))))))))"

definition assertDuplicateContainment :: "state \<Rightarrow> demand_state \<Rightarrow> demand_ref option \<Rightarrow> error + unit" where
  "assertDuplicateContainment st demand duplicateOf =
     (case duplicateOf of
        None \<Rightarrow> Inl (DomainError ''demand.disposition: a duplicate requires a duplicateOf survivor'')
      | Some (DemandRef i) \<Rightarrow>
          bindR (require (i \<noteq> dem_id demand) ''demand.disposition: a demand cannot be a duplicate of itself'') (\<lambda>_.
          bindR (get_or ''demand.disposition: unknown duplicateOf demand'' (jget (st_demands st) i)) (\<lambda>survivor.
          bindR (require (dem_workspace survivor = dem_workspace demand)
                   ''demand.disposition: a duplicateOf survivor must be in the same workspace'') (\<lambda>_.
          require (dem_status survivor \<noteq> Duplicate \<and> dem_status survivor \<noteq> DemandRejected)
            ''demand.disposition: duplicateOf demand is a non-survivor'')))
      | Some (ItemRef i) \<Rightarrow>
          bindR (require (i \<noteq> dem_id demand) ''demand.disposition: a demand cannot be a duplicate of itself'') (\<lambda>_.
          bindR (get_or ''demand.disposition: unknown duplicateOf item'' (jget (st_items st) i)) (\<lambda>survivor.
          require (item_workspace survivor = dem_workspace demand)
            ''demand.disposition: a duplicateOf survivor must be in the same workspace'')))"

definition dispose_guard ::
  "ulid \<Rightarrow> disposition_outcome \<Rightarrow> demand_ref option \<Rightarrow> state \<Rightarrow> error + demand_state" where
  "dispose_guard demandId z duplicateOf st =
     bindR (demand_guard demandId (outcome_status z) st) (\<lambda>demand.
     bindR (if z = ODuplicate then assertDuplicateContainment st demand duplicateOf else Inr ()) (\<lambda>_.
     Inr demand))"

definition dispose_recheck ::
  "ulid \<Rightarrow> disposition_outcome \<Rightarrow> demand_ref option \<Rightarrow> command_event list \<Rightarrow> track_event list \<Rightarrow> error + unit" where
  "dispose_recheck demandId z duplicateOf inputs existing =
     bindR (dispose_guard demandId z duplicateOf (foldEvents existing)) (\<lambda>_. Inr ())"

record dispose_input =
  di_outcome :: js
  di_handler :: "actor_id option"
  di_reason :: string
  di_duplicateOf :: "demand_ref option"
  di_parkedUntil :: "string option"
  di_leaseId :: "string option"

definition disposeDemand :: "env \<Rightarrow> ulid \<Rightarrow> dispose_input \<Rightarrow> unit cmd" where
  "disposeDemand env demandId input =
     bindC (liftC (assertDispositionOutcome (di_outcome input))) (\<lambda>z.
     bindC stateC (\<lambda>st.
     thenC (liftC (dispose_guard demandId z (di_duplicateOf input) st)) (
     bindC (resolveHandler env (di_handler input) (Some \<lparr>ls_kind = LDemand, ls_id = demandId\<rparr>)) (\<lambda>handler.
     withDemandRecheck (dispose_recheck demandId z (di_duplicateOf input))
       (doneC (emit env ADemand demandId DemandDisposition (obj [
          (''outcome'', Some (disposition_outcome_js z)),
          (''handler'', Some (Str handler)),
          (''reason'', Some (Str (di_reason input))),
          (''duplicateOf'', map_option demand_ref_js (di_duplicateOf input)),
          (''parkedUntil'', map_option Str (di_parkedUntil input)),
          (''leaseId'', map_option Str (di_leaseId input))])))))))"

definition startSpec :: "env \<Rightarrow> ulid \<Rightarrow> actor_id option \<Rightarrow> string option \<Rightarrow> string option \<Rightarrow> unit cmd" where
  "startSpec env itemId handlerInput leaseId attemptId =
     thenC (known_item itemId) (
     bindC (resolveHandler env handlerInput (Some \<lparr>ls_kind = LItem, ls_id = itemId\<rparr>)) (\<lambda>handler.
     doneC (emit env AItem itemId SpecStarted (obj [
        (''itemId'', Some (Str itemId)), (''handler'', Some (Str handler)),
        (''leaseId'', map_option Str leaseId), (''attemptId'', map_option Str attemptId)]))))"

definition abandonSpec :: "env \<Rightarrow> ulid \<Rightarrow> actor_id option \<Rightarrow> string \<Rightarrow> string option \<Rightarrow> unit cmd" where
  "abandonSpec env itemId handlerInput reason leaseId =
     thenC (known_item itemId) (
     bindC (resolveHandler env handlerInput (Some \<lparr>ls_kind = LItem, ls_id = itemId\<rparr>)) (\<lambda>handler.
     doneC (emit env AItem itemId SpecAbandoned (obj [
        (''itemId'', Some (Str itemId)), (''handler'', Some (Str handler)),
        (''reason'', Some (Str reason)), (''leaseId'', map_option Str leaseId)]))))"

end
