(* ===== verification/Command_Laws.thy ===== *)
theory Command_Laws
  imports Work_Commands
begin

text \<open>
  Laws of the command facade: what a command may do to the store and to the settings of its session.
  A command reads, then emits at most once, so on an honest disk it is all or nothing.
\<close>

named_theorems wf_payloads \<open>well-formed payloads\<close>
named_theorems command_defs \<open>the definitions of the commands\<close>

section \<open>Well-formed payloads\<close>

lemma wf_js_obj:
  "distinct (map fst fs) \<Longrightarrow> list_all (\<lambda>(k, x). pred_option wf_js x) fs \<Longrightarrow> wf_js (obj fs)"
  by (fastforce simp: obj_def list_all_iff map_filter_obj_fields distinct_obj_fields)

lemma wf_js_leaf [wf_payloads]:
  "pred_option wf_js (map_option Str x)" "wf_js (Str s)"
  by (cases x) simp_all

lemma wf_js_map_option [wf_payloads]: "(\<And>y. wf_js (f y)) \<Longrightarrow> pred_option wf_js (map_option f x)"
  by (cases x) simp_all

lemma wf_js_enum [wf_payloads]:
  "wf_js (item_kind_js k)" "wf_js (item_role_js r)" "wf_js (spec_status_js ss)" "wf_js (realization_js z)"
  "wf_js (gate_js g)" "wf_js (disposition_js d)" "wf_js (reopen_motive_js m)" "wf_js (outcome_js out)"
  "wf_js (demand_type_js dt)" "wf_js (source_kind_js sk)" "wf_js (raw_format_js rf)"
  "wf_js (disposition_outcome_js dz)" "wf_js (evidence_kind_js ek)" "wf_js (run_result_js rr)"
  "wf_js (blocker_kind_js bk)" "wf_js (resolution_rule_js ru)" "wf_js (blocker_scope_js bs)" "wf_js (verdict_js ve)"
  subgoal by (cases k) simp_all
  subgoal by (cases r) simp_all
  subgoal by (cases ss) simp_all
  subgoal by (simp add: realization_js_def)
  subgoal by (cases g) simp_all
  subgoal by (cases d) simp_all
  subgoal by (cases m) simp_all
  subgoal by (cases out) simp_all
  subgoal by (cases dt) simp_all
  subgoal by (cases sk) simp_all
  subgoal by (cases rf) simp_all
  subgoal by (cases dz) simp_all
  subgoal by (cases ek) simp_all
  subgoal by (cases rr) simp_all
  subgoal by (cases bk) simp_all
  subgoal by (cases ru) simp_all
  subgoal by (cases bs) simp_all
  subgoal by (cases ve) simp_all
  done

lemma wf_js_strs [wf_payloads]: "wf_js (strs xs)"
  by (simp add: strs_def list_all_iff)

lemma wf_js_pieces [wf_payloads]:
  "wf_js (link_js l)" "wf_js (links_js ls)" "wf_js (scope_js sc)" "wf_js (raw_js r)" "wf_js (source_js so)"
  "wf_js (concerns_js c)" "wf_js (demand_ref_js d)"
proof -
  show link: "wf_js (link_js l)" for l
    unfolding link_js_def by (rule wf_js_obj) (simp_all add: wf_payloads)
  show "wf_js (links_js ls)" by (simp add: links_js_def list_all_iff link)
  show "wf_js (scope_js sc)" unfolding scope_js_def by (rule wf_js_obj) (simp_all add: wf_payloads)
  show "wf_js (raw_js r)" unfolding raw_js_def by (rule wf_js_obj) (simp_all add: wf_payloads)
  show "wf_js (source_js so)" unfolding source_js_def by (rule wf_js_obj) (simp_all add: wf_payloads)
  show "wf_js (concerns_js c)" unfolding concerns_js_def by (rule wf_js_obj) (simp_all add: wf_payloads)
  show "wf_js (demand_ref_js d)"
    unfolding demand_ref_js_def by (cases d; simp only: demand_ref.simps; rule wf_js_obj) (simp_all add: wf_payloads)
qed

lemma wf_js_payloads [wf_payloads]:
  "wf_js (ItemCreatedPayload_js icp)" "wf_js (ItemRaciUpdate_js raci)" "wf_js (ReopenPayload_js rp)"
  "wf_js (EvidenceLinkedPayload_js elp)" "wf_js (RunPayload_js rnp)" "wf_js (WaivedPayload_js wvp)"
  "wf_js (BlockerOpenedPayload_js bop)" "wf_js (VerificationPayload_js vrp)"
  unfolding ItemCreatedPayload_js_def ItemRaciUpdate_js_def ReopenPayload_js_def EvidenceLinkedPayload_js_def
    RunPayload_js_def WaivedPayload_js_def BlockerOpenedPayload_js_def VerificationPayload_js_def
  by (rule wf_js_obj; simp add: wf_payloads)+

lemma wf_js_DecisionCreated [wf_payloads]: "wf_js (dcp_dossier p) \<Longrightarrow> wf_js (DecisionCreatedPayload_js p)"
  unfolding DecisionCreatedPayload_js_def by (rule wf_js_obj) (simp_all add: wf_payloads)

lemma wf_js_SpecAmend [wf_payloads]: "list_all wf_js (sap_patch p) \<Longrightarrow> wf_js (SpecAmendPayload_js p)"
  unfolding SpecAmendPayload_js_def by (rule wf_js_obj) (simp_all add: wf_payloads)

lemma wf_js_DemandRaised [wf_payloads]:
  "pred_option (list_all wf_js) (drp_links p) \<Longrightarrow> wf_js (DemandRaisedPayload_js w p)"
  unfolding DemandRaisedPayload_js_def by (rule wf_js_obj) (cases "drp_links p"; simp add: wf_payloads)+

lemma wf_js_artifact [wf_payloads]:
  assumes "case a of H2ADecisionDossier n d c l \<Rightarrow> pred_option (list_all wf_js) c \<and> pred_option wf_js l
    | RenderedView v s l \<Rightarrow> pred_option wf_js s \<and> pred_option wf_js l | Mockup v l \<Rightarrow> pred_option wf_js l"
  shows "wf_js (artifact_js a)"
proof (cases a)
  case (H2ADecisionDossier n d c l)
  then show ?thesis
    using assms by (cases c) (auto intro!: wf_js_obj)
qed (use assms in \<open>auto intro!: wf_js_obj\<close>)

lemma wf_js_prop: "wf_js v \<Longrightarrow> wf_js (js_prop v k)"
  by (cases v) (auto simp: js_prop_def list_all_iff dest!: map_of_SomeD split: option.split)

lemma wf_js_elems: "wf_js v \<Longrightarrow> list_all wf_js (js_elems v)"
  by (cases v) simp_all

section \<open>Commands that only read\<close>

definition settings :: "session \<Rightarrow> _" where
  "settings s = (se_clientToken s, se_dedupe s, se_recheck s)"

definition reads :: "'a cmd \<Rightarrow> bool" where
  "reads m \<longleftrightarrow> (\<forall>s. se_store (snd (m s)) = se_store s \<and> settings (snd (m s)) = settings s)"

named_theorems read_rules \<open>commands that leave the store alone\<close>
named_theorems atomic_rules \<open>commands that are all or nothing\<close>

lemma reads_basic [read_rules]:
  "reads (returnC x)" "reads (liftC r)" "reads (requireC ok msg)" "reads eventsC" "reads (nowC env)"
  "reads (newIdC env)" "reads tokenC"
  by (simp_all add: reads_def returnC_def liftC_def requireC_def eventsC_def nowC_def newIdC_def tokenC_def settings_def)

lemma reads_run: "reads m \<Longrightarrow> m s = (r, s') \<Longrightarrow> se_store s' = se_store s \<and> settings s' = settings s"
  unfolding reads_def by (metis snd_conv)

lemma reads_bind [read_rules]:
  assumes "reads m" "\<And>x. reads (f x)"
  shows "reads (bindC m f)"
  unfolding reads_def
proof
  fix s
  obtain r s1 where run: "m s = (r, s1)" by fastforce
  show "se_store (snd (bindC m f s)) = se_store s \<and> settings (snd (bindC m f s)) = settings s"
  proof (cases r)
    case (Inr x)
    obtain r2 s2 where run2: "f x s1 = (r2, s2)" by fastforce
    then show ?thesis
      using reads_run[OF assms(1) run] reads_run[OF assms(2) run2] run Inr by (simp add: bindC_def)
  qed (use reads_run[OF assms(1) run] run in \<open>simp add: bindC_def\<close>)
qed

lemma reads_then [read_rules]: "reads m \<Longrightarrow> reads k \<Longrightarrow> reads (thenC m k)"
  by (simp add: thenC_def reads_bind)

lemma reads_cases [read_rules]:
  "(\<And>y. x = Some y \<Longrightarrow> reads (f y)) \<Longrightarrow> (x = None \<Longrightarrow> reads n) \<Longrightarrow> reads (case x of None \<Rightarrow> n | Some y \<Rightarrow> f y)"
  "reads a \<Longrightarrow> reads b \<Longrightarrow> reads (if c then a else b)"
  by (cases x) simp_all

lemma reads_newIds [read_rules]: "reads (newIdsC env n)"
  by (induction n) (auto intro!: read_rules)

lemma reads_state [read_rules]: "reads stateC"
  by (simp add: stateC_def read_rules)

lemma reads_lookups [read_rules]:
  "reads (requireItem i)" "reads (evidenceOwner v)" "reads (known_item i)" "reads (liveLeaseHolder env subject)"
  by (auto simp: requireItem_def evidenceOwner_def known_item_def liveLeaseHolder_def intro!: read_rules)

lemma reads_handler [read_rules]: "reads (resolveHandler env h subject)"
  by (auto simp: resolveHandler_def intro!: read_rules)

section \<open>Commands that are all or nothing\<close>

definition untouched :: "session \<Rightarrow> session \<Rightarrow> bool" where
  "untouched s s' \<longleftrightarrow> se_store s' = se_store s \<and> settings s' = settings s"

text \<open>The store is sound, and its log extends the log it was by events of the types \<open>T\<close>.\<close>

definition extends :: "env \<Rightarrow> event_type set \<Rightarrow> session \<Rightarrow> session \<Rightarrow> bool" where
  "extends env T s s' \<longleftrightarrow> sound (en_host env) (se_store s') \<and> settings s' = settings s \<and>
     (\<exists>new. events_of (se_store s') = events_of (se_store s) @ new \<and> (\<forall>e \<in> set new. e_type e \<in> T))"

definition outcome_ok :: "env \<Rightarrow> event_type set \<Rightarrow> session \<Rightarrow> error + 'a \<Rightarrow> session \<Rightarrow> bool" where
  "outcome_ok env T s r s' = (case r of Inl e \<Rightarrow> untouched s s' | Inr x \<Rightarrow> extends env T s s')"

definition atomic :: "env \<Rightarrow> event_type set \<Rightarrow> 'a cmd \<Rightarrow> bool" where
  "atomic env T m \<longleftrightarrow> (\<forall>s r s'. sound (en_host env) (se_store s) \<longrightarrow> m s = (r, s') \<longrightarrow> outcome_ok env T s r s')"

lemma atomicD: "atomic env T m \<Longrightarrow> sound (en_host env) (se_store s) \<Longrightarrow> m s = (r, s') \<Longrightarrow> outcome_ok env T s r s'"
  by (simp add: atomic_def)

lemma outcome_ok_after: "untouched s s1 \<Longrightarrow> outcome_ok env T s1 r s' = outcome_ok env T s r s'"
  by (simp add: outcome_ok_def untouched_def extends_def split: sum.split)

lemma outcome_ok_untouched: "sound (en_host env) (se_store s) \<Longrightarrow> untouched s s' \<Longrightarrow> outcome_ok env T s r s'"
  by (simp add: outcome_ok_def untouched_def extends_def split: sum.split)

lemma reads_untouched: "reads m \<Longrightarrow> m s = (r, s') \<Longrightarrow> untouched s s'"
  by (drule (1) reads_run) (simp add: untouched_def)

lemma atomic_reads: "reads m \<Longrightarrow> atomic env T m"
  unfolding atomic_def by (blast intro: outcome_ok_untouched dest: reads_untouched)

lemma bindC_cases:
  assumes "bindC m f s = (r, s')"
  obtains (error) e where "m s = (Inl e, s')" "r = Inl e"
    | (ok) x s1 where "m s = (Inr x, s1)" "f x s1 = (r, s')"
  using assms by (auto simp: bindC_def split: prod.splits sum.splits)

lemma atomic_bind:
  assumes m: "reads m" and f: "\<And>x. atomic env T (f x)"
  shows "atomic env T (bindC m f)"
  unfolding atomic_def
proof (intro allI impI)
  fix s r s'
  assume snd: "sound (en_host env) (se_store s)" and run: "bindC m f s = (r, s')"
  from run show "outcome_ok env T s r s'"
  proof (cases rule: bindC_cases)
    case error
    with snd m show ?thesis by (blast intro: outcome_ok_untouched dest: reads_untouched)
  next
    case (ok x s1)
    from reads_untouched[OF m ok(1)] have u: "untouched s s1" .
    with snd have "sound (en_host env) (se_store s1)" by (simp add: untouched_def)
    from atomicD[OF f this ok(2)] show ?thesis by (simp add: outcome_ok_after[OF u])
  qed
qed

lemma atomic_then [atomic_rules]: "reads m \<Longrightarrow> atomic env T k \<Longrightarrow> atomic env T (thenC m k)"
  by (simp add: thenC_def atomic_bind)

lemma atomic_lift [atomic_rules]: "(\<And>x. r = Inr x \<Longrightarrow> atomic env T (f x)) \<Longrightarrow> atomic env T (bindC (liftC r) f)"
  by (cases r) (auto simp: atomic_def bindC_def liftC_def untouched_def outcome_ok_def)

lemma atomic_result:
  assumes "atomic env T m" and "\<And>x. reads (f x)" and "\<And>x s. \<exists>y. fst (f x s) = Inr y"
  shows "atomic env T (bindC m f)"
  unfolding atomic_def
proof (intro allI impI)
  fix s r s'
  assume snd: "sound (en_host env) (se_store s)" and run: "bindC m f s = (r, s')"
  from run show "outcome_ok env T s r s'"
  proof (cases rule: bindC_cases)
    case (error e)
    from atomicD[OF assms(1) snd error(1)] show ?thesis by (simp add: outcome_ok_def error(2))
  next
    case (ok x s1)
    obtain y where "r = Inr y"
      using assms(3)[of x s1] ok(2) by auto
    with atomicD[OF assms(1) snd ok(1)] reads_untouched[OF assms(2) ok(2)] show ?thesis
      by (simp add: outcome_ok_def untouched_def extends_def)
  qed
qed

lemma atomic_return [atomic_rules]: "atomic env T m \<Longrightarrow> atomic env T (bindC m (\<lambda>x. returnC (g x)))"
  by (rule atomic_result) (simp_all add: read_rules, simp add: returnC_def)

lemma atomic_done [atomic_rules]: "atomic env T m \<Longrightarrow> atomic env T (doneC m)"
  unfolding doneC_def by (rule atomic_return)

lemma atomic_cases [atomic_rules]:
  "(\<And>y. x = Some y \<Longrightarrow> atomic env T (f y)) \<Longrightarrow> (x = None \<Longrightarrow> atomic env T n) \<Longrightarrow>
     atomic env T (case x of None \<Rightarrow> n | Some y \<Rightarrow> f y)"
  "(c \<Longrightarrow> atomic env T a) \<Longrightarrow> (\<not> c \<Longrightarrow> atomic env T b) \<Longrightarrow> atomic env T (if c then a else b)"
  by (cases x) simp_all

section \<open>Emission is all or nothing\<close>

lemma appendC_outcome:
  assumes disk: "en_disk env = honest" and wf: "\<forall>i \<in> set events. wf_input i \<and> e_type i \<in> T"
    and snd: "sound (en_host env) (se_store s)" and run: "appendC env c events s = (r, s')"
  shows "outcome_ok env T s r s'"
proof -
  obtain st' where call: "appendCommand (en_host env) honest \<lparr>dedupe = se_dedupe s, recheck = se_recheck s\<rparr>
      c events (se_store s) = (r, st')" and s': "s' = s\<lparr>se_store := st'\<rparr>"
    using run by (auto simp: appendC_def disk split: prod.splits)
  have same: "settings s' = settings s" "se_store s' = st'"
    by (simp_all add: s' settings_def)
  have types: "list_all2 frames events evs \<Longrightarrow> \<forall>e \<in> set (map persisted evs). e_type e \<in> T" for evs
    using wf by (auto simp: frames_def dest!: list_all2_setD2)
  from wf have "\<forall>i \<in> set events. wf_input i" by blast
  from appendCommand_honest[OF this soundD(2)[OF snd] call] snd show ?thesis
    by (cases r) (auto simp: outcome_ok_def untouched_def extends_def same dest!: types)
qed

definition part_ok :: "event_type set \<Rightarrow> event_part \<Rightarrow> bool" where
  "part_ok T p \<longleftrightarrow> wf_js (pt_payload p) \<and> pt_type p \<in> T"

lemma part_ok_part [simp]: "part_ok T (part a i ty p) \<longleftrightarrow> wf_js p \<and> ty \<in> T"
  by (simp add: part_ok_def part_def)

lemma wf_inputs:
  "list_all (part_ok T) parts \<Longrightarrow>
     \<forall>i \<in> set (map2 (event_of_part env now token) ids parts). wf_input i \<and> e_type i \<in> T"
  by (auto simp: list_all_iff wf_input_def part_ok_def event_of_part_def dest: set_zip_rightD)

lemma atomic_emitBatch [atomic_rules]:
  assumes "en_disk env = honest" and "list_all (part_ok T) parts"
  shows "atomic env T (emitBatch env parts)"
proof -
  have app: "atomic env T (appendC env c (map2 (event_of_part env now token) ids parts))" for c now token ids
    using appendC_outcome[OF assms(1) wf_inputs[OF assms(2)]] by (simp add: atomic_def)
  show ?thesis
    unfolding emitBatch_def Let_def
    by (intro atomic_bind read_rules atomic_cases app)
qed

lemma atomic_emit [atomic_rules]: "en_disk env = honest \<Longrightarrow> wf_js payload \<Longrightarrow> ty \<in> T \<Longrightarrow> atomic env T (emit env a i ty payload)"
  unfolding emit_def by (rule atomic_emitBatch) simp_all

lemma atomic_withClientToken [atomic_rules]: "atomic env T m \<Longrightarrow> atomic env T (withClientToken token hook m)"
proof (unfold atomic_def, intro allI impI)
  fix s r s'
  assume m: "\<forall>s r s'. sound (en_host env) (se_store s) \<longrightarrow> m s = (r, s') \<longrightarrow> outcome_ok env T s r s'"
    and snd: "sound (en_host env) (se_store s)" and run: "withClientToken token hook m s = (r, s')"
  obtain s1 where s1: "m (s\<lparr>se_clientToken := token, se_dedupe := hook\<rparr>) = (r, s1)"
    and s': "s' = s1\<lparr>se_clientToken := se_clientToken s, se_dedupe := se_dedupe s\<rparr>"
    using run by (auto simp: withClientToken_def split: prod.splits)
  from m snd s1 have "outcome_ok env T (s\<lparr>se_clientToken := token, se_dedupe := hook\<rparr>) r s1"
    by simp
  then show "outcome_ok env T s r s'"
    by (simp add: s' outcome_ok_def untouched_def extends_def settings_def split: sum.splits)
qed

lemma atomic_withDemandRecheck [atomic_rules]: "atomic env T m \<Longrightarrow> atomic env T (withDemandRecheck hook m)"
proof (unfold atomic_def, intro allI impI)
  fix s r s'
  assume m: "\<forall>s r s'. sound (en_host env) (se_store s) \<longrightarrow> m s = (r, s') \<longrightarrow> outcome_ok env T s r s'"
    and snd: "sound (en_host env) (se_store s)" and run: "withDemandRecheck hook m s = (r, s')"
  obtain s1 where s1: "m (s\<lparr>se_recheck := Some hook\<rparr>) = (r, s1)" and s': "s' = s1\<lparr>se_recheck := se_recheck s\<rparr>"
    using run by (auto simp: withDemandRecheck_def split: prod.splits)
  from m snd s1 have "outcome_ok env T (s\<lparr>se_recheck := Some hook\<rparr>) r s1"
    by simp
  then show "outcome_ok env T s r s'"
    by (simp add: s' outcome_ok_def untouched_def extends_def settings_def split: sum.splits)
qed

lemma atomic_tokened [atomic_rules]: "atomic env T m \<Longrightarrow> atomic env T (tokened token m)"
  unfolding tokened_def by (auto intro: atomic_rules)

section \<open>Every command is all or nothing\<close>

lemmas atomic_after_reading [atomic_rules] =
  atomic_bind[OF reads_state] atomic_bind[OF reads_basic(4)] atomic_bind[OF reads_basic(6)]
  atomic_bind[OF reads_basic(7)] atomic_bind[OF reads_newIds] atomic_bind[OF reads_lookups(1)]
  atomic_bind[OF reads_lookups(2)] atomic_bind[OF reads_handler]

lemma atomic_fail [atomic_rules]: "atomic env T (liftC r)" "atomic env T (returnC x)"
  by (rule atomic_reads, rule read_rules)+

lemma reads_nesting [read_rules]:
  "(\<And>x y. reads (f x y)) \<Longrightarrow> reads (case q of (Some x, Some y) \<Rightarrow> f x y | _ \<Rightarrow> returnC ())"
  by (cases q rule: prod.exhaust) (auto intro: read_rules split: option.split)

lemma wf_part_restamp: "restamp i c e = Some p \<Longrightarrow> AcceptanceRun \<in> T \<Longrightarrow> part_ok T p"
  by (auto simp: restamp_def wf_payloads split: option.splits if_splits)

lemma wf_consolidate: "{RealizationAnchored, AcceptanceRun} \<subseteq> T \<Longrightarrow> list_all (part_ok T) (consolidate_parts st c i)"
  by (auto simp: consolidate_parts_def list_all_iff anchor_payload_def wf_payloads map_filter_def
      intro!: wf_js_obj dest: wf_part_restamp)

lemma wf_concat: "(\<And>x. list_all (part_ok T) (f x)) \<Longrightarrow> list_all (part_ok T) (concat (map f xs))"
  by (induction xs) simp_all

lemma wf_consolidates [wf_payloads]:
  "{RealizationAnchored, AcceptanceRun} \<subseteq> T \<Longrightarrow> list_all (part_ok T) (concat (map (consolidate_parts st c) is))"
  by (rule wf_concat) (rule wf_consolidate)

lemma atomic_items:
  assumes "en_disk env = honest"
  shows "atomic env {ItemCreated} (createItem env p)"
    and "atomic env {ItemReparented} (reparentItem env i q)"
    and "atomic env {ItemReparented} (restructureReparent env i r h rr)"
    and "atomic env {ItemRaciAssigned} (setRaci env i u tk)"
    and "atomic env {ItemLinkAdded} (addItemLink env i v tk)"
    and "atomic env {ScopeDeclared} (declareScope env i v tk)"
    and "atomic env {ItemCodeAssigned} (assignCode env i c tk)"
    and "atomic env {ItemRoleChanged} (setRole env i ro tk)"
    and "atomic env {SpecTransition} (setSpec env i sp)"
    and "atomic env {RealizationTransition} (setRealization env i z)"
    and "atomic env {RealizationReopened} (reopenItem env i v tk)"
    and "atomic env {RealizationAnchored} (anchorRealization env i c re tk)"
    and "atomic env {RealizationAnchored, AcceptanceRun} (consolidate env is c tk)"
  unfolding createItem_def reparentItem_def restructureReparent_def setRaci_def addItemLink_def declareScope_def
    assignCode_def setRole_def setSpec_def setRealization_def reopenItem_def anchorRealization_def consolidate_def Let_def
    anchor_payload_def
  by (intro atomic_rules read_rules assms wf_js_obj; simp add: wf_payloads)+

lemma wf_js_spread: "wf_js v \<Longrightarrow> wf_js (spread v)"
  by (cases v) simp_all

lemma list_all_update:
  "list_all (\<lambda>(k, v). P v) fs \<Longrightarrow> P x \<Longrightarrow> list_all (\<lambda>(k, v). P v) (AList.update k x fs)"
  by (induction fs) auto

lemma wf_js_with: "wf_js v \<Longrightarrow> wf_js x \<Longrightarrow> wf_js (js_with k x v)"
  by (cases v) (simp_all add: js_with_def wf_js_obj distinct_update list_all_update)

lemma assert_patch_same: "assert_patch ops = Inr ops' \<Longrightarrow> ops' = ops"
  by (induction ops arbitrary: ops') (auto simp: bindR_eq_Inr split: if_splits)

lemma wf_assertSpecAmend:
  assumes "assertSpecAmend a = Inr p" and "wf_js a"
  shows "wf_js (SpecAmendPayload_js p)"
proof (rule wf_js_SpecAmend)
  obtain ops where "js_prop a ''patch'' = Arr ops" "sap_patch p = ops"
    using assms(1) by (auto simp: assertSpecAmend_def bindR_eq_Inr dest!: assert_patch_same split: if_splits js.splits option.splits)
  moreover have "wf_js (js_prop a ''patch'')"
    by (rule wf_js_prop[OF assms(2)])
  ultimately show "list_all wf_js (sap_patch p)" by simp
qed

lemma wf_assertDossierArtifact:
  assumes "assertDossierArtifact a = Inr x" and "wf_js a"
  shows "wf_js (artifact_js x)"
proof (rule wf_js_artifact)
  have "wf_js (js_prop a k)" for k by (rule wf_js_prop[OF assms(2)])
  moreover have "list_all wf_js (js_elems (js_prop a ''comprehension''))"
    by (rule wf_js_elems[OF wf_js_prop[OF assms(2)]])
  ultimately show "case x of H2ADecisionDossier n d c l \<Rightarrow> pred_option (list_all wf_js) c \<and> pred_option wf_js l
    | RenderedView v s l \<Rightarrow> pred_option wf_js s \<and> pred_option wf_js l | Mockup v l \<Rightarrow> pred_option wf_js l"
    using assms(1) by (auto simp: assertDossierArtifact_def bindR_eq_Inr optional_def split: if_splits)
qed

lemma wf_assertDemandRaised:
  assumes "assertDemandRaised a = Inr p" and "wf_js a"
  shows "wf_js (DemandRaisedPayload_js w p)"
proof (rule wf_js_DemandRaised)
  have "wf_js (js_prop a ''links'')" by (rule wf_js_prop[OF assms(2)])
  then show "pred_option (list_all wf_js) (drp_links p)"
    using assms(1)
    by (cases "js_prop a ''links''") (auto simp: assertDemandRaised_def bindR_eq_Inr split: if_splits option.splits)
qed

lemma atomic_validated_items:
  assumes "en_disk env = honest" and "wf_js v"
  shows "atomic env {ItemReportUpdated} (setReportStatus env i v)"
    and "atomic env {SpecAmended} (amendSpec env i v tk)"
  unfolding setReportStatus_def amendSpec_def
  by (intro atomic_rules read_rules assms; simp add: wf_payloads wf_js_spread wf_js_with wf_assertSpecAmend assms)+

lemma wf_target_parts: "{BlockerResolved, RealizationTransition} \<subseteq> T \<Longrightarrow> list_all (part_ok T) (target_parts st d to i)"
  unfolding target_parts_def
  by (auto simp: list_all_append wf_payloads intro!: wf_js_obj split: option.split)

lemma wf_outcomeParts [wf_payloads]:
  "{DecisionOutcome, BlockerResolved, RealizationTransition} \<subseteq> T \<Longrightarrow> list_all (part_ok T) (outcomeParts st d to)"
  by (auto simp: outcomeParts_def wf_payloads intro!: wf_js_obj wf_concat wf_target_parts)

lemma wf_map2: "(\<And>x y. part_ok T (f x y)) \<Longrightarrow> list_all (part_ok T) (map2 f xs ys)"
  by (simp add: list_all_iff split_beta)

lemma wf_map_filter: "(\<And>x p. f x = Some p \<Longrightarrow> part_ok T p) \<Longrightarrow> list_all (part_ok T) (List.map_filter f xs)"
  by (induction xs) (auto simp: map_filter_simps split: option.split)

lemma wf_made_parts [wf_payloads]:
  "BlockerOpened \<in> T \<Longrightarrow> part_ok T (awaiting_part k d t b)" "ItemCreated \<in> T \<Longrightarrow> part_ok T (promotion_part di dd i it)"
  "wf_js (resolve_payload b r)" "AcceptanceRun \<in> T \<Longrightarrow> list_all (part_ok T) (ingest_parts es report)"
proof -
  show "BlockerOpened \<in> T \<Longrightarrow> part_ok T (awaiting_part k d t b)"
    "ItemCreated \<in> T \<Longrightarrow> part_ok T (promotion_part di dd i it)" "wf_js (resolve_payload b r)"
    unfolding awaiting_part_def promotion_part_def resolve_payload_def part_ok_part
    by (intro conjI wf_js_obj; simp add: wf_payloads)+
  show "AcceptanceRun \<in> T \<Longrightarrow> list_all (part_ok T) (ingest_parts es report)"
    unfolding ingest_parts_def by (rule wf_map_filter) (auto simp: wf_payloads split: if_splits)
qed

lemma wf_resolutions: "BlockerResolved \<in> T \<Longrightarrow> list_all (part_ok T) (map (\<lambda>b. part ABlocker (blk_id b) BlockerResolved (resolve_payload (blk_id b) r)) bs)"
  by (simp add: list_all_iff wf_payloads)

lemma atomic_then_return [atomic_rules]: "atomic env T m \<Longrightarrow> atomic env T (thenC m (returnC x))"
  by (simp add: thenC_def atomic_return)

lemma atomic_supplied_or_new [atomic_rules]:
  "(\<And>x. atomic env T (f x)) \<Longrightarrow> atomic env T (bindC (case v of None \<Rightarrow> newIdC env | Some y \<Rightarrow> returnC y) f)"
  by (rule atomic_bind) (auto intro: read_rules)

lemma atomic_evidence_work:
  assumes "en_disk env = honest"
  shows "atomic env {DecisionOutcome, BlockerResolved, RealizationTransition} (setOutcome env i to)"
    and "atomic env {DecisionOptionSelected, DecisionOutcome, BlockerResolved, RealizationTransition} (selectDecisionOption env i op to)"
    and "atomic env {DecisionDisposition} (setDisposition env i g d ro)"
    and "atomic env {BlockerOpened} (openBlocker env inp)"
    and "atomic env {BlockerResolved} (resolveBlocker env i)"
    and "atomic env {BlockerResolved} (resolveExternalDependency env r sc)"
    and "atomic env {AcceptanceCriterionAdded} (addCriterion env i x)"
    and "atomic env {AcceptanceEvidenceLinked} (linkEvidence env c k l v)"
    and "atomic env {AcceptanceRun} (recordRun env rn)"
    and "atomic env {ScopeVerificationRecorded} (recordVerification env vr w tk)"
    and "atomic env {AcceptanceWaived} (waive env c r)"
    and "atomic env {AcceptanceRun} (ingestRuns env en c e' ru)"
  unfolding setOutcome_def selectDecisionOption_def setDisposition_def openBlocker_def resolveBlocker_def
    resolveExternalDependency_def addCriterion_def linkEvidence_def recordRun_def recordVerification_def waive_def
    ingestRuns_def Let_def
  by (intro atomic_rules read_rules assms wf_js_obj wf_resolutions; simp add: wf_payloads wf_js_obj)+

lemma atomic_demands:
  assumes "en_disk env = honest"
  shows "atomic env {DemandQualifyingStarted} (claimDemand env i h l)"
    and "atomic env {DemandAgreed, ItemCreated} (agreeDemand env i h its q l)"
    and "atomic env {DemandDisposition} (disposeDemand env i inp)"
    and "atomic env {SpecStarted} (startSpec env i h l at')"
    and "atomic env {SpecAbandoned} (abandonSpec env i h r l)"
  unfolding claimDemand_def transitionDemand_def agreeDemand_def disposeDemand_def startSpec_def abandonSpec_def
  by (intro atomic_rules read_rules assms wf_js_obj; simp add: wf_payloads wf_js_obj wf_map2)+

lemma atomic_dossiers:
  assumes "en_disk env = honest" and "wf_js v"
  shows "atomic env {DossierRevised} (reviseDossier env i v)"
    and "atomic env {DecisionArtifactAdded} (addDecisionArtifact env i v tk)"
  unfolding reviseDossier_def addDecisionArtifact_def
  by (intro atomic_rules read_rules assms wf_js_obj; simp add: assms wf_assertDossierArtifact)+

lemma atomic_createDecision:
  assumes "en_disk env = honest" and "wf_js (dcp_dossier p)"
  shows "atomic env {DecisionCreated, BlockerOpened} (createDecision env p)"
  unfolding createDecision_def
  by (intro atomic_rules read_rules assms; simp add: wf_payloads assms wf_map2)+

definition wf_raise :: "raise_input \<Rightarrow> bool" where
  "wf_raise input \<longleftrightarrow> wf_js (ri_type input) \<and> wf_js (ri_raw input) \<and> wf_js (ri_source input) \<and>
     pred_option wf_js (ri_sourceKey input) \<and> pred_option wf_js (ri_concerns input) \<and> pred_option wf_js (ri_links input)"

lemma atomic_raiseDemand:
  assumes "en_disk env = honest" and "wf_raise input"
  shows "atomic env {DemandRaised} (raiseDemand env input)"
  unfolding raiseDemand_def
  by (intro atomic_rules read_rules assms wf_assertDemandRaised wf_js_obj; (assumption | use assms in \<open>simp add: wf_raise_def\<close>))+

end
