(* ===== verification/Priority.thy ===== *)
theory Priority
  imports Work_Commands Double
begin

text \<open>
  \<open>packages/track/src/model/priority.ts\<close> and \<open>Track.assessPriority\<close>: the weighted score of an item, a
  quotient of binary64 numbers, and the command that records it.
\<close>

record wsjf_inputs =
  userBusinessValue :: jsnum
  timeCriticality :: jsnum
  riskReductionOpportunityEnablement :: jsnum
  jobSize :: jsnum

definition WSJF_SCHEME_VERSION :: int where
  "WSJF_SCHEME_VERSION = 1"

definition wsjfScore :: "wsjf_inputs \<Rightarrow> error + jsnum" where
  "wsjfScore inputs =
     (if \<not> js_positive (jobSize inputs) then Inl (DomainError ''WSJF jobSize must be > 0'')
      else Inr (js_div
        (js_add (js_add (userBusinessValue inputs) (timeCriticality inputs)) (riskReductionOpportunityEnablement inputs))
        (jobSize inputs)))"

definition wsjf_js :: "wsjf_inputs \<Rightarrow> js" where
  "wsjf_js inputs = obj [
     (''userBusinessValue'', Some (Num (userBusinessValue inputs))),
     (''timeCriticality'', Some (Num (timeCriticality inputs))),
     (''riskReductionOpportunityEnablement'', Some (Num (riskReductionOpportunityEnablement inputs))),
     (''jobSize'', Some (Num (jobSize inputs)))]"

definition assessment_js :: "ulid \<Rightarrow> wsjf_inputs \<Rightarrow> jsnum \<Rightarrow> string \<Rightarrow> js" where
  "assessment_js itemId inputs score now = obj [
     (''itemId'', Some (Str itemId)),
     (''schemeId'', Some (Str ''wsjf'')),
     (''schemeVersion'', Some (Num (Fin (of_int WSJF_SCHEME_VERSION)))),
     (''inputs'', Some (wsjf_js inputs)),
     (''score'', Some (Num score)),
     (''at'', Some (Str now))]"

definition assessPriority :: "env \<Rightarrow> ulid \<Rightarrow> wsjf_inputs \<Rightarrow> js cmd" where
  "assessPriority env itemId inputs =
     thenC (known_item itemId) (
     bindC (liftC (wsjfScore inputs)) (\<lambda>score.
     bindC (nowC env) (\<lambda>now.
     bindC (emit env AItem itemId PriorityAssessed (assessment_js itemId inputs score now))
       (\<lambda>_. returnC (assessment_js itemId inputs score now)))))"

section \<open>The score\<close>

lemma wsjfScore_Inr: "wsjfScore inputs = Inr score \<Longrightarrow> js_positive (jobSize inputs)"
  by (auto simp: wsjfScore_def split: if_splits)

text \<open>A score of counts is never refused by the log, and it is the exact quotient up to one rounding.\<close>

lemma js_add_nat: "a + b < 2 ^ 53 \<Longrightarrow> js_add (Fin (of_nat a)) (Fin (of_nat b)) = Fin (of_nat (a + b))"
  using to_double_between[of "of_nat (a + b)" "a + b"] rounded_nat[of "a + b"] by simp

lemma wsjfScore_counts:
  assumes "u + t + r < 2 ^ 53" and "0 < j"
  shows "\<exists>q. wsjfScore \<lparr>userBusinessValue = Fin (of_nat u), timeCriticality = Fin (of_nat t),
      riskReductionOpportunityEnablement = Fin (of_nat r), jobSize = Fin (of_nat j)\<rparr> = Inr (Fin q) \<and>
     0 \<le> q \<and> q \<le> of_nat (u + t + r) \<and> q = rounded (of_nat (u + t + r) / of_nat j)"
proof -
  let ?n = "u + t + r"
  have sum: "js_add (js_add (Fin (of_nat u)) (Fin (of_nat t))) (Fin (of_nat r)) = Fin (of_nat ?n)"
    using js_add_nat[of u t] js_add_nat[of "u + t" r] assms(1) by simp
  have b: "0 \<le> (of_nat ?n / of_nat j :: rat)" "(of_nat ?n / of_nat j :: rat) \<le> of_nat ?n"
    using assms(2) by (simp_all add: divide_le_eq mult_le_cancel_left1)
  have "js_div (Fin (of_nat ?n)) (Fin (of_nat j)) = Fin (rounded (of_nat ?n / of_nat j))"
    using to_double_between[OF b assms(1)] assms(2) by simp
  with sum rounded_between[OF b assms(1)] assms(2) show ?thesis
    by (simp add: wsjfScore_def del: js_add.simps js_div.simps)
qed

section \<open>Properties\<close>

text \<open>The score of an assessment over counts: with a positive job size it is finite, not negative, at
  most the sum of the three values, and the binary64 number nearest to the exact quotient, within half
  the distance of neighbouring numbers; a job size that is not positive is refused.\<close>

theorem wsjf_score_bounds:
  assumes "u + t + r < 2 ^ 53"
  shows "wsjfScore \<lparr>userBusinessValue = Fin (of_nat u), timeCriticality = Fin (of_nat t),
      riskReductionOpportunityEnablement = Fin (of_nat r), jobSize = Fin (of_nat j)\<rparr> =
     (if j = 0 then Inl (DomainError ''WSJF jobSize must be > 0'')
      else Inr (Fin (rounded (of_nat (u + t + r) / of_nat j)))) \<and>
     (j = 0 \<or> 0 \<le> rounded (of_nat (u + t + r) / of_nat j) \<and>
        rounded (of_nat (u + t + r) / of_nat j) \<le> of_nat (u + t + r)) \<and>
     \<bar>rounded (of_nat (u + t + r) / of_nat j) - of_nat (u + t + r) / of_nat j\<bar> \<le>
       ulp (of_nat (u + t + r) / of_nat j) / 2"
  using wsjfScore_counts[OF assms, of j] rounded_close[of "of_nat (u + t + r) / of_nat j"]
  by (cases "j = 0") (auto simp: wsjfScore_def)

theorem wsjf_score_bounds_witness:
  "wsjfScore \<lparr>userBusinessValue = Fin (of_nat 8), timeCriticality = Fin (of_nat 5),
      riskReductionOpportunityEnablement = Fin (of_nat 3), jobSize = Fin (of_nat 0)\<rparr> =
     Inl (DomainError ''WSJF jobSize must be > 0'')"
  using wsjf_score_bounds[of 8 5 3 0] by simp

end
