(* ===== verification/Facade.thy ===== *)
theory Facade
  imports Command_Laws Priority
begin

text \<open>
  The command facade as one operation: a call of a method of class \<open>Track\<close>
  (\<open>packages/track/src/track.ts\<close>), what a call may do to the store, and what a session of calls
  leaves behind. A call reads the log and appends to it without another writer in between; what happens
  when there is one is in \<open>Forest\<close> and \<open>Uniqueness\<close>. The calls are the methods that make at most one append;
  \<open>importBranch\<close>, which is a sequence of them, is in \<open>Branch_Import\<close>.
\<close>

section \<open>Calls\<close>

datatype command_call =
    CreateItem item_created_payload
  | ReparentItem ulid "ulid option"
  | RestructureReparent ulid ulid string "string option"
  | SetRaci ulid item_raci_update "string option"
  | SetReportStatus ulid js
  | AddItemLink ulid js "string option"
  | DeclareScope ulid js "string option"
  | AssignCode ulid string "string option"
  | SetRole ulid item_role "string option"
  | AmendSpec ulid js "string option"
  | SetSpec ulid spec_status
  | SetRealization ulid realization
  | ReopenItem ulid js "string option"
  | AnchorRealization ulid string "string option" "string option"
  | Consolidate "ulid list" string "string option"
  | RaiseDemand raise_input
  | ClaimDemand ulid "actor_id option" "string option"
  | AgreeDemand ulid "actor_id option" "promoted list" "string option" "string option"
  | DisposeDemand ulid dispose_input
  | StartSpec ulid "actor_id option" "string option" "string option"
  | AbandonSpec ulid "actor_id option" string "string option"
  | CreateDecision decision_created_payload
  | SetOutcome ulid outcome
  | ReviseDossier ulid dossier
  | SelectDecisionOption ulid string outcome
  | AddDecisionArtifact ulid js "string option"
  | SetDisposition ulid gate disposition "string option"
  | OpenBlocker open_blocker_input
  | ResolveBlocker ulid
  | ResolveExternalDependency string resolve_scope
  | AddCriterion ulid string
  | LinkEvidence string evidence_kind string "string option"
  | RecordRun run_payload
  | RecordVerification js string "string option"
  | Waive string string
  | AssessPriority ulid wsjf_inputs
  | IngestRuns "(string \<times> run_result) list" string string string

fun perform :: "env \<Rightarrow> command_call \<Rightarrow> unit cmd" where
  "perform env (CreateItem p) = doneC (createItem env p)"
| "perform env (ReparentItem i p) = reparentItem env i p"
| "perform env (RestructureReparent i p h r) = restructureReparent env i p h r"
| "perform env (SetRaci i u t) = setRaci env i u t"
| "perform env (SetReportStatus i r) = setReportStatus env i r"
| "perform env (AddItemLink i l t) = addItemLink env i l t"
| "perform env (DeclareScope i sc t) = declareScope env i sc t"
| "perform env (AssignCode i c t) = assignCode env i c t"
| "perform env (SetRole i r t) = setRole env i r t"
| "perform env (AmendSpec i a t) = amendSpec env i a t"
| "perform env (SetSpec i sp) = setSpec env i sp"
| "perform env (SetRealization i z) = setRealization env i z"
| "perform env (ReopenItem i v t) = reopenItem env i v t"
| "perform env (AnchorRealization i c r t) = anchorRealization env i c r t"
| "perform env (Consolidate is c t) = consolidate env is c t"
| "perform env (RaiseDemand input) = doneC (raiseDemand env input)"
| "perform env (ClaimDemand i h l) = claimDemand env i h l"
| "perform env (AgreeDemand i h its q l) = doneC (agreeDemand env i h its q l)"
| "perform env (DisposeDemand i input) = disposeDemand env i input"
| "perform env (StartSpec i h l a) = startSpec env i h l a"
| "perform env (AbandonSpec i h r l) = abandonSpec env i h r l"
| "perform env (CreateDecision p) = doneC (createDecision env p)"
| "perform env (SetOutcome i to) = setOutcome env i to"
| "perform env (ReviseDossier i d) = reviseDossier env i d"
| "perform env (SelectDecisionOption i op to) = selectDecisionOption env i op to"
| "perform env (AddDecisionArtifact i a t) = addDecisionArtifact env i a t"
| "perform env (SetDisposition i g d r) = setDisposition env i g d r"
| "perform env (OpenBlocker input) = doneC (openBlocker env input)"
| "perform env (ResolveBlocker i) = resolveBlocker env i"
| "perform env (ResolveExternalDependency r sc) = doneC (resolveExternalDependency env r sc)"
| "perform env (AddCriterion i x) = doneC (addCriterion env i x)"
| "perform env (LinkEvidence c k l v) = doneC (linkEvidence env c k l v)"
| "perform env (RecordRun r) = recordRun env r"
| "perform env (RecordVerification v w t) = recordVerification env v w t"
| "perform env (Waive c r) = waive env c r"
| "perform env (AssessPriority i inputs) = doneC (assessPriority env i inputs)"
| "perform env (IngestRuns en c ev r) = doneC (ingestRuns env en c ev r)"

text \<open>The arguments that are caller-built objects have no duplicate member.\<close>

fun wf_call :: "command_call \<Rightarrow> bool" where
  "wf_call (SetReportStatus i r) = wf_js r"
| "wf_call (AmendSpec i a t) = wf_js a"
| "wf_call (RaiseDemand input) = wf_raise input"
| "wf_call (CreateDecision p) = wf_js (dcp_dossier p)"
| "wf_call (ReviseDossier i d) = wf_js d"
| "wf_call (AddDecisionArtifact i a t) = wf_js a"
| "wf_call _ = True"

text \<open>The event types each method may emit.\<close>

fun emitted_types :: "command_call \<Rightarrow> event_type set" where
  "emitted_types (CreateItem _) = {ItemCreated}"
| "emitted_types (ReparentItem _ _) = {ItemReparented}"
| "emitted_types (RestructureReparent _ _ _ _) = {ItemReparented}"
| "emitted_types (SetRaci _ _ _) = {ItemRaciAssigned}"
| "emitted_types (SetReportStatus _ _) = {ItemReportUpdated}"
| "emitted_types (AddItemLink _ _ _) = {ItemLinkAdded}"
| "emitted_types (DeclareScope _ _ _) = {ScopeDeclared}"
| "emitted_types (AssignCode _ _ _) = {ItemCodeAssigned}"
| "emitted_types (SetRole _ _ _) = {ItemRoleChanged}"
| "emitted_types (AmendSpec _ _ _) = {SpecAmended}"
| "emitted_types (SetSpec _ _) = {SpecTransition}"
| "emitted_types (SetRealization _ _) = {RealizationTransition}"
| "emitted_types (ReopenItem _ _ _) = {RealizationReopened}"
| "emitted_types (AnchorRealization _ _ _ _) = {RealizationAnchored}"
| "emitted_types (Consolidate _ _ _) = {RealizationAnchored, AcceptanceRun}"
| "emitted_types (RaiseDemand _) = {DemandRaised}"
| "emitted_types (ClaimDemand _ _ _) = {DemandQualifyingStarted}"
| "emitted_types (AgreeDemand _ _ _ _ _) = {DemandAgreed, ItemCreated}"
| "emitted_types (DisposeDemand _ _) = {DemandDisposition}"
| "emitted_types (StartSpec _ _ _ _) = {SpecStarted}"
| "emitted_types (AbandonSpec _ _ _ _) = {SpecAbandoned}"
| "emitted_types (CreateDecision _) = {DecisionCreated, BlockerOpened}"
| "emitted_types (SetOutcome _ _) = {DecisionOutcome, BlockerResolved, RealizationTransition}"
| "emitted_types (ReviseDossier _ _) = {DossierRevised}"
| "emitted_types (SelectDecisionOption _ _ _) = {DecisionOptionSelected, DecisionOutcome, BlockerResolved, RealizationTransition}"
| "emitted_types (AddDecisionArtifact _ _ _) = {DecisionArtifactAdded}"
| "emitted_types (SetDisposition _ _ _ _) = {DecisionDisposition}"
| "emitted_types (OpenBlocker _) = {BlockerOpened}"
| "emitted_types (ResolveBlocker _) = {BlockerResolved}"
| "emitted_types (ResolveExternalDependency _ _) = {BlockerResolved}"
| "emitted_types (AddCriterion _ _) = {AcceptanceCriterionAdded}"
| "emitted_types (LinkEvidence _ _ _ _) = {AcceptanceEvidenceLinked}"
| "emitted_types (RecordRun _) = {AcceptanceRun}"
| "emitted_types (RecordVerification _ _ _) = {ScopeVerificationRecorded}"
| "emitted_types (Waive _ _) = {AcceptanceWaived}"
| "emitted_types (AssessPriority _ _) = {PriorityAssessed}"
| "emitted_types (IngestRuns _ _ _ _) = {AcceptanceRun}"

lemma atomic_assessPriority:
  assumes "en_disk env = honest"
  shows "atomic env {PriorityAssessed} (assessPriority env i inputs)"
  unfolding assessPriority_def assessment_js_def wsjf_js_def
  by (intro atomic_rules read_rules atomic_bind[OF reads_basic(5)] assms wf_js_obj) (simp_all add: wf_payloads wf_js_obj)

lemma atomic_perform:
  assumes "en_disk env = honest" and "wf_call c"
  shows "atomic env (emitted_types c) (perform env c)"
  using assms
  by (cases c) (auto intro: atomic_done atomic_items atomic_validated_items atomic_evidence_work atomic_demands
      atomic_dossiers atomic_createDecision atomic_raiseDemand atomic_assessPriority)

section \<open>Sessions\<close>

definition perform_all :: "env \<Rightarrow> command_call list \<Rightarrow> session \<Rightarrow> session" where
  "perform_all env cs s = fold (\<lambda>c s. snd (perform env c s)) cs s"

lemma perform_step:
  assumes "en_disk env = honest" and "wf_call c" and "sound (en_host env) (se_store s)"
  shows "extends env (emitted_types c) s (snd (perform env c s))"
proof -
  obtain r s' where run: "perform env c s = (r, s')" by fastforce
  from atomicD[OF atomic_perform[OF assms(1,2)] assms(3) run] assms(3) run show ?thesis
    by (auto simp: outcome_ok_def untouched_def extends_def split: sum.splits)
qed

lemma extends_trans:
  "extends env T s s1 \<Longrightarrow> extends env T' s1 s2 \<Longrightarrow> T \<subseteq> U \<Longrightarrow> T' \<subseteq> U \<Longrightarrow> extends env U s s2"
  by (fastforce simp: extends_def)

lemma perform_all_extends:
  "en_disk env = honest \<Longrightarrow> sound (en_host env) (se_store s) \<Longrightarrow> list_all wf_call cs \<Longrightarrow>
     extends env (\<Union>c \<in> set cs. emitted_types c) s (perform_all env cs s)"
proof (induction cs arbitrary: s)
  case (Cons c cs)
  from Cons.prems have step: "extends env (emitted_types c) s (snd (perform env c s))"
    by (intro perform_step) simp_all
  then have "extends env (\<Union>c \<in> set cs. emitted_types c) (snd (perform env c s))
      (perform_all env cs (snd (perform env c s)))"
    using Cons.prems by (intro Cons.IH) (simp_all add: extends_def)
  with step have "extends env (\<Union>c \<in> set (c # cs). emitted_types c) s (perform_all env cs (snd (perform env c s)))"
    by (rule extends_trans) auto
  then show ?case by (simp add: perform_all_def)
qed (simp add: perform_all_def extends_def)

section \<open>A sample session\<close>

definition sample_env :: env where
  "sample_env = \<lparr>en_host = unary_host, en_disk = honest, en_now = \<lambda>n. ''2026-01-01'',
     en_parse = \<lambda>s. Fin 0, en_newId = \<lambda>n. CHR ''i'' # replicate n CHR ''1'', en_actor = ''owner'', en_prov = None, en_leases = None\<rparr>"

definition sample_session :: session where
  "sample_session = \<lparr>se_store = empty_store, se_ticks = 0, se_ids = 0, se_clientToken = None, se_dedupe = None,
     se_recheck = None\<rparr>"

lemma sample_facade [simp]:
  "en_disk sample_env = honest" "en_host sample_env = unary_host" "sound unary_host (se_store sample_session)"
  by (simp_all add: sample_env_def sample_session_def empty_sound)

section \<open>Properties\<close>

text \<open>C26. Every command method of the facade but \<open>importBranch\<close>, which is a sequence of them, is all or nothing
  and emits only its own event types: on a sound
  store and an honest disk, and with no other writer between its reading and its append, a call that raises leaves the store as it was, a call that returns leaves a
  sound store whose log is the log it found followed by events of the types of the method, and in both
  outcomes the client token and the hooks set for the call are restored.\<close>

theorem facade_commands_atomic:
  assumes "en_disk env = honest" and "wf_call c" and "sound (en_host env) (se_store s)"
    and "perform env c s = (r, s')"
  shows "settings s' = settings s \<and>
     (case r of
        Inl e \<Rightarrow> se_store s' = se_store s
      | Inr x \<Rightarrow> sound (en_host env) (se_store s') \<and>
          (\<exists>new. events_of (se_store s') = events_of (se_store s) @ new \<and>
             list_all (\<lambda>e. e_type e \<in> emitted_types c) new))"
  using atomicD[OF atomic_perform[OF assms(1,2)] assms(3,4)]
  by (cases r) (auto simp: outcome_ok_def untouched_def extends_def list_all_iff)

theorem facade_commands_atomic_witness:
  "\<exists>r s'. perform sample_env (AssignCode ''x'' ''WP1'' None) sample_session = (r, s') \<and>
     settings s' = settings sample_session \<and>
     (case r of
        Inl e \<Rightarrow> se_store s' = se_store sample_session
      | Inr x \<Rightarrow> sound unary_host (se_store s') \<and>
          (\<exists>new. events_of (se_store s') = events_of (se_store sample_session) @ new \<and>
             list_all (\<lambda>e. e_type e \<in> {ItemCodeAssigned}) new))"
proof -
  obtain r s' where run: "perform sample_env (AssignCode ''x'' ''WP1'' None) sample_session = (r, s')"
    by fastforce
  have wf: "wf_call (AssignCode ''x'' ''WP1'' None)" and snd: "sound (en_host sample_env) (se_store sample_session)"
    by simp_all
  from run facade_commands_atomic[OF sample_facade(1) wf snd run, unfolded sample_facade emitted_types.simps]
  show ?thesis by blast
qed

text \<open>A session of the facade is a history: after any sequence of calls on a sound store the store
  is sound, and the log after the first calls is a prefix of the log after all of them, whatever
  raised in between.\<close>

theorem facade_session_history:
  assumes "en_disk env = honest" and "list_all wf_call (cs @ ds)" and "sound (en_host env) (se_store s)"
  shows "sound (en_host env) (se_store (perform_all env (cs @ ds) s)) \<and>
     prefix (events_of (se_store (perform_all env cs s))) (events_of (se_store (perform_all env (cs @ ds) s)))"
proof -
  have first: "extends env (\<Union>c \<in> set cs. emitted_types c) s (perform_all env cs s)"
    using assms by (intro perform_all_extends) simp_all
  then have "extends env (\<Union>c \<in> set ds. emitted_types c) (perform_all env cs s)
      (perform_all env ds (perform_all env cs s))"
    using assms by (intro perform_all_extends) (simp_all add: extends_def)
  then show ?thesis
    by (auto simp: perform_all_def extends_def)
qed

theorem facade_session_history_witness:
  "sound unary_host (se_store (perform_all sample_env ([ResolveBlocker ''b''] @ [ClaimDemand ''d'' None None]) sample_session)) \<and>
   prefix (events_of (se_store (perform_all sample_env [ResolveBlocker ''b''] sample_session)))
     (events_of (se_store (perform_all sample_env ([ResolveBlocker ''b''] @ [ClaimDemand ''d'' None None]) sample_session)))"
  using facade_session_history[of sample_env "[ResolveBlocker ''b'']" "[ClaimDemand ''d'' None None]" sample_session]
  by simp

end
