(* ===== verification/Critical.thy ===== *)
theory Critical
  imports Facade Crash
begin

text \<open>
  What a command knows of the event it has appended: the recheck ran under the lock on the very log
  the event extends, and the members of its payload read back as they were written.
\<close>

section \<open>Reading a payload back\<close>

lemma map_of_stable_sort: "map_of (sort_key fst fs) k = map_of fs k"
proof -
  have look: "map_of xs k = map_option snd (case filter (\<lambda>f. fst f = k) xs of [] \<Rightarrow> None | f # _ \<Rightarrow> Some f)" for xs
    by (induction xs) auto
  show ?thesis
    unfolding look by (simp add: sort_key_stable)
qed

lemma js_prop_of_norm [simp]: "js_prop (norm_js v) k = norm_js (js_prop v k)"
proof (cases v)
  case (Obj p fs)
  have "map_of (map (\<lambda>(k, v). (k, norm_js v)) fs) k = map_option norm_js (map_of fs k)"
    by (induction fs) auto
  then show ?thesis
    by (simp add: Obj js_prop_def map_of_stable_sort split: option.split)
qed (simp_all add: js_prop_def)

lemma copied_field:
  assumes "list_all2 copies_field fs out" and "distinct (map fst fs)"
  defines "w \<equiv> Obj NullProto (filter (\<lambda>(k, v). v \<noteq> Undef) out)"
  shows "case map_of fs k of None \<Rightarrow> js_prop w k = Undef
    | Some v \<Rightarrow> if v = Undef then js_prop w k = Undef else materialize v = Inr (js_prop w k)"
  using assms(1,2) unfolding w_def
proof (induction rule: list_all2_induct)
  case (Cons f fs g out)
  define k1 v1 w1 where "k1 = fst f" and "v1 = snd f" and "w1 = snd g"
  then have f: "f = (k1, v1)" and g: "g = (k1, w1)"
    and w1: "if v1 = Undef then w1 = Undef else materialize v1 = Inr w1"
    using Cons.hyps(1) by (simp_all add: copies_field_def prod_eq_iff)
  let ?w = "\<lambda>out. Obj NullProto (filter (\<lambda>(k, v). v \<noteq> Undef) out)"
  have absent: "k1 \<notin> fst ` set out"
    using Cons.prems copies_field_keys[OF Cons.hyps(2)] by (simp add: f flip: set_map)
  then have "map_of (filter (\<lambda>(k, v). v \<noteq> Undef) out) k1 = None"
    by (auto simp: map_of_eq_None_iff)
  then have gone: "js_prop (?w out) k1 = Undef" by (simp add: js_prop_def)
  have step: "js_prop (?w (g # out)) k = (if k = k1 \<and> w1 \<noteq> Undef then w1 else js_prop (?w out) k)"
    by (simp add: g js_prop_def)
  have data: "v1 \<noteq> Undef \<Longrightarrow> w1 \<noteq> Undef"
    using w1 materialize_data by auto
  have rest: "case map_of fs k of None \<Rightarrow> js_prop (?w out) k = Undef
      | Some v \<Rightarrow> if v = Undef then js_prop (?w out) k = Undef else materialize v = Inr (js_prop (?w out) k)"
    using Cons.IH Cons.prems by simp
  show ?case
    unfolding step using rest w1 data gone by (cases "k = k1") (simp_all add: f)
qed (simp add: js_prop_def)

text \<open>A member of the copy is the copy of the member.\<close>

lemma materialized_prop:
  assumes "materialize v = Inr w" and "wf_js v" and "is_object v"
  shows "if js_prop v k = Undef then js_prop w k = Undef else materialize (js_prop v k) = Inr (js_prop w k)"
proof -
  obtain p fs where v: "v = Obj p fs"
    using assms(3) by (cases v) (auto simp: is_object_def)
  obtain out where "list_all2 copies_field fs out" and "w = Obj NullProto (filter (\<lambda>(k, v). v \<noteq> Undef) out)"
    using assms(1) unfolding v by (simp only: materialize_Obj_iff) blast
  then have "case map_of fs k of None \<Rightarrow> js_prop w k = Undef
      | Some v \<Rightarrow> if v = Undef then js_prop w k = Undef else materialize v = Inr (js_prop w k)"
    using copied_field[of fs out k] assms(2) by (simp only: v wf_js.simps)
  moreover have "js_prop v k = (case map_of fs k of Some x \<Rightarrow> x | None \<Rightarrow> Undef)"
    by (simp add: v js_prop_def)
  ultimately show ?thesis
    by (cases "map_of fs k") simp_all
qed

section \<open>The critical section\<close>

lemma planAppend_recheck:
  "planAppend h hs c inputs st = Inr (ToAppend es evs) \<Longrightarrow> recheckHook hs inputs es = Inr ()"
  by (auto simp: planAppend_def bindR_eq_Inr if_Inl_Inr split: option.splits)

text \<open>An append leaves the store alone, extends its log, or, when the last line was not ended, makes it unreadable.\<close>

lemma appendCommand_critical:
  assumes wf: "\<forall>i \<in> set inputs. wf_input i" and run: "appendCommand h honest hs c inputs st = (r, st')"
  shows "st' = st \<or> events_of st' = [] \<or> (\<exists>evs. events_of st' = events_of st @ map persisted evs \<and>
     list_all2 frames inputs evs \<and> recheckHook hs inputs (events_of st) = Inr ())"
proof (cases "\<exists>es evs. inputs \<noteq> [] \<and> planAppend h hs c inputs st = Inr (ToAppend es evs)")
  case True
  then obtain es evs where ne: "inputs \<noteq> []" and plan: "planAppend h hs c inputs st = Inr (ToAppend es evs)"
    by blast
  note p = planAppend_ToAppend[OF plan]
  have es: "events_of st = es" by (simp add: events_of_def p(1))
  let ?st = "writeHead honest \<lparr>streamLength = int (length es + length evs),
      lastContentHash = Some (e_contentHash (last evs))\<rparr> (appendAtomic honest evs st)"
  have st': "st' = st \<or> st' = ?st"
    using run by (auto simp: appendCommand_def appendUnderLock_def plan Let_def split: if_splits sum.splits)
  show ?thesis
  proof (cases "ends_line st")
    case True
    have "events_of ?st = es @ map persisted evs"
      unfolding events_of_def honest_write(1)[OF plan ne wf True] by simp
    with st' show ?thesis
      unfolding es using p(4) planAppend_recheck[OF plan] by blast
  next
    case False
    have "evs \<noteq> []" using p(4) ne by auto
    from append_unended[OF p(1) False this] have "events_of ?st = []" by (auto simp: events_of_def)
    with st' show ?thesis by blast
  qed
next
  case False
  then show ?thesis
    using run by (auto simp: appendCommand_def appendUnderLock_def split: if_splits sum.splits plan.splits)
qed

text \<open>The event as appended, for its part.\<close>

definition records :: "event_part \<Rightarrow> track_event \<Rightarrow> bool" where
  "records p e \<longleftrightarrow> e_type e = pt_type p \<and> e_aggregateId e = pt_aggregateId p \<and>
     (\<exists>w. materialize (pt_payload p) = Inr w \<and> e_payload e = norm_js w)"

lemma records_prop:
  assumes "records p e" and "wf_js (pt_payload p)" and "is_object (pt_payload p)"
  shows "js_prop (pt_payload p) k = Str x \<Longrightarrow> js_prop (e_payload e) k = Str x"
    and "js_prop (pt_payload p) k = Undef \<Longrightarrow> js_prop (e_payload e) k = Undef"
proof -
  obtain w where w: "materialize (pt_payload p) = Inr w" and e: "e_payload e = norm_js w"
    using assms(1) by (auto simp: records_def)
  note member = materialized_prop[OF w assms(2,3), of k]
  show "js_prop (e_payload e) k = Str x" if "js_prop (pt_payload p) k = Str x"
  proof -
    have "js_prop w k = Str x" using member that by auto
    then show ?thesis by (simp add: e)
  qed
  show "js_prop (pt_payload p) k = Undef \<Longrightarrow> js_prop (e_payload e) k = Undef"
    using member by (simp add: e)
qed

lemma newIds_run: "\<exists>ids s'. newIdsC env n s = (Inr ids, s') \<and> length ids = n \<and> se_store s' = se_store s \<and> settings s' = settings s"
proof (induction n arbitrary: s)
  case (Suc n)
  from Suc[of "s\<lparr>se_ids := Suc (se_ids s)\<rparr>"] show ?case
    by (auto simp: bindC_def newIdC_def returnC_def settings_def)
qed (simp add: returnC_def)

lemma records_frames:
  assumes "list_all2 frames (map2 (event_of_part env now token) ids parts) evs" and "length ids = length parts"
  shows "list_all2 records parts (map persisted evs)"
  using assms(2,1)
  by (induction ids parts arbitrary: evs rule: list_induct2)
    (auto simp: list_all2_Cons1 frames_def records_def event_of_part_def)

lemma emitBatch_critical:
  assumes disk: "en_disk env = honest" and wf: "list_all (part_ok T) parts" and run: "emitBatch env parts s = (r, s')"
  shows "se_store s' = se_store s \<or> events_of (se_store s') = [] \<or> (\<exists>evs inputs. events_of (se_store s') = events_of (se_store s) @ evs \<and>
     list_all2 records parts evs \<and>
     (case se_recheck s of None \<Rightarrow> True | Some hook \<Rightarrow> hook inputs (events_of (se_store s)) = Inr ()))"
proof -
  let ?now = "en_now env (se_ticks s)" and ?token = "se_clientToken s"
  obtain ids s1 where ids: "newIdsC env (length parts) (s\<lparr>se_ticks := Suc (se_ticks s)\<rparr>) = (Inr ids, s1)"
    and len: "length ids = length parts" and s1: "se_store s1 = se_store s" "settings s1 = settings s"
    using newIds_run[of env "length parts" "s\<lparr>se_ticks := Suc (se_ticks s)\<rparr>"] by (auto simp: settings_def)
  let ?inputs = "map2 (event_of_part env ?now ?token) ids parts"
  obtain c s2 where app: "appendC env c ?inputs s2 = (r, s')" and s2: "se_store s2 = se_store s" "settings s2 = settings s"
    using run s1 ids len
    by (auto simp: emitBatch_def bindC_def nowC_def tokenC_def newIdC_def Let_def settings_def split: if_splits)
  obtain st' where call: "appendCommand (en_host env) honest \<lparr>dedupe = se_dedupe s, recheck = se_recheck s\<rparr> c ?inputs
      (se_store s) = (r, st')" and s': "se_store s' = st'"
    using app s2 by (auto simp: appendC_def disk settings_def split: prod.splits)
  have "\<forall>i \<in> set ?inputs. wf_input i"
    using wf_inputs[OF wf] by blast
  from appendCommand_critical[OF this call] records_frames[OF _ len] show ?thesis
    unfolding s' by (fastforce simp: recheckHook_def split: option.splits)
qed

lemma emit_critical:
  assumes disk: "en_disk env = honest" and wf: "wf_js payload" and run: "emit env a i ty payload s = (r, s')"
  shows "se_store s' = se_store s \<or> events_of (se_store s') = [] \<or> (\<exists>e inputs. events_of (se_store s') = events_of (se_store s) @ [e] \<and>
     records (part a i ty payload) e \<and>
     (case se_recheck s of None \<Rightarrow> True | Some hook \<Rightarrow> hook inputs (events_of (se_store s)) = Inr ()))"
proof -
  have "list_all (part_ok {ty}) [part a i ty payload]" using wf by simp
  from emitBatch_critical[OF disk this run[unfolded emit_def]] show ?thesis
    by (auto simp: list_all2_Cons1)
qed

lemma fold_nothing [simp]: "st_items (foldEvents []) = []" "st_demands (foldEvents []) = []"
  by (simp_all add: foldEvents_def replayEvents_def computeOpen_def emptyState_def)

text \<open>A command whose only effect is the emission of its last step: what it was before, its settings aside.\<close>

definition state_of :: "session \<Rightarrow> state" where
  "state_of s = foldEvents (events_of (se_store s))"

lemma stateC_run: "sound h (se_store s) \<Longrightarrow> stateC s = (Inr (state_of s), s)"
  by (drule sound_log) (simp add: stateC_def bindC_def eventsC_def returnC_def state_of_def)

lemma doneC_run: "doneC m s = (r, s') \<Longrightarrow> \<exists>r'. m s = (r', s')"
  by (auto simp: doneC_def bindC_def returnC_def split: prod.splits sum.splits)

lemma tokened_run:
  assumes "tokened token m s = (r, s')"
  shows "\<exists>s1 s2. m s1 = (r, s2) \<and> se_store s1 = se_store s \<and> se_recheck s1 = se_recheck s \<and> se_store s' = se_store s2"
  using assms by (cases token) (fastforce simp: tokened_def withClientToken_def split: prod.splits)+

lemma rechecked_run:
  assumes "withDemandRecheck hook m s = (r, s')"
  shows "\<exists>s2. m (s\<lparr>se_recheck := Some hook\<rparr>) = (r, s2) \<and> se_store s' = se_store s2"
  using assms by (auto simp: withDemandRecheck_def split: prod.splits)

lemma liftC_run: "bindC (liftC x) f s = (r, s') \<Longrightarrow> (\<exists>e. x = Inl e \<and> s' = s) \<or> (\<exists>y. x = Inr y \<and> f y s = (r, s'))"
  by (cases x) (simp_all add: bindC_def liftC_def)

lemma stateC_bind: "sound h (se_store s) \<Longrightarrow> bindC stateC f s = f (state_of s) s"
  by (simp add: bindC_def stateC_run)

text \<open>A step that leaves the whole session alone.\<close>

definition inspects :: "'a cmd \<Rightarrow> bool" where
  "inspects m \<longleftrightarrow> (\<forall>s. snd (m s) = s)"

lemma inspects_basic [simp]: "inspects (liftC x)" "inspects (returnC y)" "inspects (requireC ok msg)" "inspects stateC"
  by (simp_all add: inspects_def liftC_def returnC_def requireC_def stateC_def bindC_def eventsC_def split: sum.split)

lemma inspects_bindE:
  assumes "bindC m f s = (r, s')" and "inspects m"
  obtains (stop) "s' = s" | (go) x where "m s = (Inr x, s)" "f x s = (r, s')"
  using assms(1)
proof (cases rule: bindC_cases)
  case (error e)
  then have "s' = s" using assms(2) by (auto simp: inspects_def dest: spec[of _ s])
  then show thesis by (rule stop)
next
  case (ok x s1)
  moreover have "s1 = s" using assms(2) ok(1) by (auto simp: inspects_def dest: spec[of _ s])
  ultimately show thesis by (auto intro: go)
qed

lemma newId_bindE:
  assumes "bindC (newIdC env) f s = (r, s')"
  obtains "f (en_newId env (se_ids s)) (s\<lparr>se_ids := Suc (se_ids s)\<rparr>) = (r, s')"
  using assms by (simp add: bindC_def newIdC_def)

lemmas inspectE = inspects_bindE[OF _ inspects_basic(1)] inspects_bindE[OF _ inspects_basic(3)]

lemma inspects_bind: "inspects m \<Longrightarrow> (\<And>x. inspects (f x)) \<Longrightarrow> inspects (bindC m f)"
  unfolding inspects_def by (metis bindC_cases prod.collapse snd_conv)

section \<open>Commands that keep an invariant of the store\<close>

definition keeps :: "(store \<Rightarrow> bool) \<Rightarrow> 'a cmd \<Rightarrow> bool" where
  "keeps P m \<longleftrightarrow> (\<forall>s r s'. P (se_store s) \<longrightarrow> m s = (r, s') \<longrightarrow> P (se_store s'))"

named_theorems keeps_rules \<open>commands that keep an invariant\<close>

lemma keepsD: "keeps P m \<Longrightarrow> P (se_store s) \<Longrightarrow> m s = (r, s') \<Longrightarrow> P (se_store s')"
  by (auto simp: keeps_def)

lemma keeps_reads: "reads m \<Longrightarrow> keeps P m"
  unfolding keeps_def by (metis reads_run)

lemma keeps_bind [keeps_rules]: "keeps P m \<Longrightarrow> (\<And>x. keeps P (f x)) \<Longrightarrow> keeps P (bindC m f)"
  unfolding keeps_def by (metis bindC_cases)

lemma keeps_then [keeps_rules]: "keeps P m \<Longrightarrow> keeps P k \<Longrightarrow> keeps P (thenC m k)"
  by (simp add: thenC_def keeps_bind)

lemma keeps_done [keeps_rules]: "keeps P m \<Longrightarrow> keeps P (doneC m)"
  unfolding doneC_def by (intro keeps_rules) (auto intro: keeps_reads read_rules)

lemma keeps_scoped:
  assumes m: "keeps P m" and k: "\<And>s r s'. k s = (r, s') \<Longrightarrow>
    \<exists>s1 s2 r2. m s1 = (r2, s2) \<and> se_store s1 = se_store s \<and> se_store s' = se_store s2"
  shows "keeps P k"
  unfolding keeps_def
proof (intro allI impI)
  fix s r s'
  assume P: "P (se_store s)" and run: "k s = (r, s')"
  from k[OF run] obtain s1 s2 r2 where run1: "m s1 = (r2, s2)" and s1: "se_store s1 = se_store s"
    and s2: "se_store s' = se_store s2" by blast
  from keepsD[OF m _ run1] P show "P (se_store s')" by (simp add: s1 s2)
qed

lemma keeps_withDemandRecheck [keeps_rules]: "keeps P m \<Longrightarrow> keeps P (withDemandRecheck hook m)"
  by (erule keeps_scoped) (use rechecked_run in fastforce)

lemma keeps_tokened [keeps_rules]: "keeps P m \<Longrightarrow> keeps P (tokened token m)"
  by (erule keeps_scoped) (use tokened_run in blast)

lemmas keeps_reading [keeps_rules] = read_rules(1-7)[THEN keeps_reads] reads_newIds[THEN keeps_reads]
  reads_state[THEN keeps_reads] reads_lookups[THEN keeps_reads] reads_handler[THEN keeps_reads]

end
