(* ===== verification/Forest.thy ===== *)
theory Forest
  imports Critical
begin

text \<open>
  The parent relation of the items. \<open>Track.reparentItem\<close> and \<open>Track.restructureReparent\<close> walk it
  without a bound, so that it is acyclic is an invariant their termination rests on: here it is
  shown to be kept by every call of the facade, and what happens to it when two moves race.
\<close>

section \<open>Views of the items\<close>

definition view :: "(item_state \<Rightarrow> 'v) \<Rightarrow> state \<Rightarrow> ulid \<Rightarrow> 'v option" where
  "view f st i = map_option f (jget (st_items st) i)"

lemma view_cast: "(\<And>y. view f (g y st) = view f st) \<Longrightarrow> view f (cast x g st) = view f st"
  by (cases x) simp_all

lemma view_on_item: "(\<And>x. f (g x) = f x) \<Longrightarrow> view f (on_item a g st) = view f st"
proof
  fix i
  assume "\<And>x. f (g x) = f x"
  then show "view f (on_item a g st) i = view f st i"
    by (cases "i = a"; cases "jget (st_items st) i") (simp_all add: view_def on_item_def)
qed

lemma view_other [simp]:
  "view f (on_decision a g st) = view f st" "view f (on_demand a k st) = view f st"
  "view f (st\<lparr>st_decisions := d\<rparr>) = view f st" "view f (st\<lparr>st_blockers := b\<rparr>) = view f st"
  "view f (st\<lparr>st_demands := m\<rparr>) = view f st" "view f (computeOpen st) = view f st"
  by (simp_all add: view_def on_decision_def on_demand_def computeOpen_def fun_eq_iff)

lemma view_fold: "(\<And>x. f (g x) = f x) \<Longrightarrow> view f (fold (\<lambda>t. on_item t g) ts st) = view f st"
  by (induction ts arbitrary: st) (simp_all add: view_on_item)

lemma view_work: "work st = work st' \<Longrightarrow> view f st = view f st'"
  by (simp add: view_def work_def fun_eq_iff)

lemma view_evidence: "e_type e \<in> evidence_types \<Longrightarrow> view f (applyEvent e st) = view f st"
  by (rule view_work, rule evidence_inert)

lemma hierarchy_kept [simp]:
  "item_parentId (add_link l x) = item_parentId x" "item_parentId (applyItemRaci u x) = item_parentId x"
  "item_parentId (set_disposition g d x) = item_parentId x" "item_parentId (reopen_item p e x) = item_parentId x"
  "item_role (add_link l x) = item_role x" "item_role (applyItemRaci u x) = item_role x"
  "item_role (set_disposition g d x) = item_role x" "item_role (reopen_item p e x) = item_role x"
  "item_code (add_link l x) = item_code x" "item_code (applyItemRaci u x) = item_code x"
  "item_code (set_disposition g d x) = item_code x" "item_code (reopen_item p e x) = item_code x"
  by (simp_all add: add_link_def applyItemRaci_def set_disposition_def reopen_item_def Let_def)

lemma view_outcome: "(\<And>g d x. f (set_disposition g d x) = f x) \<Longrightarrow> view f (apply_decision_outcome e st) = view f st"
  by (auto simp: apply_decision_outcome_def Let_def view_fold intro!: view_cast split: option.split)

lemma parent_view_kept:
  assumes "e_type e \<notin> {ItemCreated, ItemReparented}"
  shows "view item_parentId (applyEvent e st) = view item_parentId st"
proof (cases "e_type e \<in> evidence_types")
  case True
  then show ?thesis by (rule view_evidence)
next
  case False
  with assms show ?thesis
    by (cases "e_type e")
      (auto simp: evidence_types_def apply_defs view_outcome[unfolded apply_decision_outcome_def] case_prod_unfold
        intro!: view_cast view_on_item split: option.split)
qed

section \<open>The parent relation\<close>

definition parents :: "state \<Rightarrow> (ulid \<times> ulid) set" where
  "parents st = {(c, p). parent_in st c = Some p}"

lemma parents_view: "parents st = {(c, p). view item_parentId st c = Some (Some p)}"
  by (auto simp: parents_def parent_in_def view_def bind_eq_Some_conv)

lemma parents_fold: "parents (foldEvents es) = parents (replayEvents es)"
  by (simp add: parents_view foldEvents_def)

lemma finite_parents: "finite (parents st)"
proof (rule finite_subset)
  show "parents st \<subseteq> (\<lambda>(k, v). (k, the (item_parentId v))) ` set (st_items st)"
    by (auto simp: parents_def parent_in_def jget_def bind_eq_Some_conv dest!: map_of_SomeD
        intro!: rev_image_eqI)
qed simp

text \<open>The walk over the parents: it meets the item, it ends, or it runs into a cycle and does not return.\<close>

lemma walk_step:
  "meets_ancestor st i (Some c) = (if c = i then Some True else meets_ancestor st i (parent_in st c))"
  "meets_ancestor st i None = Some False"
  by (simp_all only: meets_ancestor.simps[of st i "Some c"] meets_ancestor.simps[of st i None] option.case)

lemma walk_meets: "(c, i) \<in> (parents st)\<^sup>* \<Longrightarrow> meets_ancestor st i (Some c) = Some True"
proof (induction rule: converse_rtrancl_induct)
  case (step c p)
  then have "parent_in st c = Some p" by (simp add: parents_def)
  then show ?case using step.IH by (simp add: walk_step(1)[of st i c])
qed (rule walk_step(1)[THEN trans], simp)

lemma walk_ends:
  assumes "(c, i) \<notin> (parents st)\<^sup>*" and "\<And>d. (c, d) \<in> (parents st)\<^sup>* \<Longrightarrow> (d, d) \<notin> (parents st)\<^sup>+"
  shows "meets_ancestor st i (Some c) = Some False"
proof -
  define R where "R = {(x, y) \<in> parents st. (x, x) \<notin> (parents st)\<^sup>+}"
  have "finite R"
    by (rule finite_subset[OF _ finite_parents[of st]]) (auto simp: R_def)
  moreover have "acyclic R"
    unfolding acyclic_def
  proof (intro allI notI)
    fix x assume "(x, x) \<in> R\<^sup>+"
    then have "x \<in> Domain R" by (meson DomainI tranclD)
    moreover have "R \<subseteq> parents st" by (auto simp: R_def)
    then have "(x, x) \<in> (parents st)\<^sup>+" using \<open>(x, x) \<in> R\<^sup>+\<close> by (rule trancl_mono[rotated])
    ultimately show False by (auto simp: R_def)
  qed
  ultimately have "wf (R\<inverse>)" by (rule finite_acyclic_wf_converse)
  then show ?thesis
    using assms
  proof (induction c rule: wf_induct_rule)
    case (less c)
    have "c \<noteq> i" using less.prems(1) by auto
    show ?case
    proof (cases "parent_in st c")
      case None
      with \<open>c \<noteq> i\<close> show ?thesis by (simp add: walk_step)
    next
      case (Some p)
      then have edge: "(c, p) \<in> parents st" by (simp add: parents_def)
      have "meets_ancestor st i (Some p) = Some False"
      proof (rule less.IH)
        show "(p, c) \<in> R\<inverse>" using edge less.prems(2)[of c] by (simp add: R_def)
        show "(p, i) \<notin> (parents st)\<^sup>*" using less.prems(1) edge by (meson converse_rtrancl_into_rtrancl)
        show "(d, d) \<notin> (parents st)\<^sup>+" if "(p, d) \<in> (parents st)\<^sup>*" for d
          using less.prems(2) edge that by (meson converse_rtrancl_into_rtrancl)
      qed
      with \<open>c \<noteq> i\<close> Some show ?thesis by (simp add: walk_step)
    qed
  qed
qed

lemma walk_induct [consumes 1, case_names ends meets goes_on]:
  assumes "meets_ancestor st i cur = Some b"
    and ends: "P None False" and meets: "P (Some i) True"
    and goes_on: "\<And>c b. c \<noteq> i \<Longrightarrow> P (parent_in st c) b \<Longrightarrow> P (Some c) b"
  shows "P cur b"
proof -
  have "st' = st \<longrightarrow> i' = i \<longrightarrow> P cur b" if "meets_ancestor st' i' cur = Some b" for st' i' cur b
    using that
  proof (rule meets_ancestor.raw_induct[rotated])
    fix walk st' i' cur b
    assume IH: "\<And>st' i' cur b. walk st' i' cur = Some b \<Longrightarrow> st' = st \<longrightarrow> i' = i \<longrightarrow> P cur b"
      and res: "(case cur of None \<Rightarrow> Some False
        | Some c \<Rightarrow> if c = i' then Some True else walk st' i' (parent_in st' c)) = Some b"
    show "st' = st \<longrightarrow> i' = i \<longrightarrow> P cur b"
      using res ends meets by (auto split: option.splits if_splits intro!: goes_on dest!: IH)
  qed
  with assms(1) show ?thesis by blast
qed

lemma walk_found: "meets_ancestor st i cur = Some b \<Longrightarrow> b \<Longrightarrow> \<exists>c. cur = Some c \<and> (c, i) \<in> (parents st)\<^sup>*"
  by (induction rule: walk_induct) (auto simp: parents_def intro: converse_rtrancl_into_rtrancl)

lemma cycle_ahead:
  assumes "(c, d) \<in> (parents st)\<^sup>*" and "(d, d) \<in> (parents st)\<^sup>+"
  shows "\<exists>p e. parent_in st c = Some p \<and> (p, e) \<in> (parents st)\<^sup>* \<and> (e, e) \<in> (parents st)\<^sup>+"
proof -
  from assms have "(c, d) \<in> (parents st)\<^sup>+" by (meson rtrancl_trancl_trancl)
  then obtain p where "(c, p) \<in> parents st" "(p, d) \<in> (parents st)\<^sup>*" by (meson tranclD)
  with assms(2) show ?thesis by (auto simp: parents_def)
qed

lemma walk_answer:
  "meets_ancestor st i cur = Some b \<Longrightarrow>
     b \<or> (\<forall>c d. cur = Some c \<longrightarrow> (c, d) \<in> (parents st)\<^sup>* \<longrightarrow> (d, d) \<notin> (parents st)\<^sup>+)"
  by (induction rule: walk_induct) (use cycle_ahead in blast)+

lemma walk_diverges:
  assumes "(c, i) \<notin> (parents st)\<^sup>*" and "(c, d) \<in> (parents st)\<^sup>*" and "(d, d) \<in> (parents st)\<^sup>+"
  shows "meets_ancestor st i (Some c) = None"
proof (rule ccontr)
  assume "meets_ancestor st i (Some c) \<noteq> None"
  then obtain b where b: "meets_ancestor st i (Some c) = Some b" by blast
  from walk_answer[OF this] assms(2,3) have "b" by blast
  with walk_found[OF b] assms(1) show False by blast
qed

lemma walk_returns:
  assumes "acyclic (parents st)"
  shows "meets_ancestor st i (Some c) = Some ((c, i) \<in> (parents st)\<^sup>*)"
  using walk_meets[of c i st] walk_ends[of c i st] assms by (cases "(c, i) \<in> (parents st)\<^sup>*") (auto simp: acyclic_def)

lemma no_cycle_answer:
  assumes "acyclic (parents st)"
  shows "assert_no_cycle st i p = (if (p, i) \<in> (parents st)\<^sup>*
    then Inl (DomainError ''cannot reparent item under its own descendant (cycle)'') else Inr ())"
  by (simp add: assert_no_cycle_def walk_returns[OF assms])

lemma guards_no_cycle:
  assumes "acyclic (parents st)"
  shows "reparent_guard st i (Some p) = Inr () \<Longrightarrow> (p, i) \<notin> (parents st)\<^sup>*"
    and "restructure_guard st i p = Inr () \<Longrightarrow> (p, i) \<notin> (parents st)\<^sup>*"
  by (auto simp: reparent_guard_def restructure_guard_def bindR_eq_Inr no_cycle_answer[OF assms] split: if_splits)

section \<open>What events do to it\<close>

definition quiet :: "track_event \<Rightarrow> bool" where
  "quiet e \<longleftrightarrow> e_type e \<notin> {ItemCreated, ItemReparented} \<or> js_prop (e_payload e) ''parentId'' = Undef"

lemma parent_created:
  "ItemCreatedPayload_of v = Some p \<Longrightarrow> icp_parentId p = str_of (js_prop v ''parentId'')"
proof -
  assume "ItemCreatedPayload_of v = Some p"
  then have "opt str_of (js_prop v ''parentId'') = Some (icp_parentId p)"
    by (clarsimp simp: ItemCreatedPayload_of_def bind_eq_Some_conv)
  then show ?thesis by (auto simp: opt_def split: if_splits)
qed

lemma parents_step:
  "parents (applyEvent e st) \<subseteq> parents st \<union> {(e_aggregateId e, p) | p. \<not> quiet e \<and> js_prop (e_payload e) ''parentId'' = Str p}"
proof (cases "e_type e \<in> {ItemCreated, ItemReparented}")
  case False
  then show ?thesis by (simp add: parents_view parent_view_kept del: applyEvent.simps)
next
  case True
  have str: "str_of v = Some p \<longleftrightarrow> v = Str p" for v p by (cases v) simp_all
  let ?i = "e_aggregateId e" and ?v = "js_prop (e_payload e) ''parentId''"
  have "view item_parentId (applyEvent e st) = view item_parentId st \<or>
      view item_parentId (applyEvent e st) = (view item_parentId st)(?i \<mapsto> str_of ?v)"
  proof (cases "e_type e = ItemCreated")
    case True
    then show ?thesis
      by (cases "ItemCreatedPayload_of (e_payload e)")
        (auto simp: view_def apply_item_created_def new_item_def parent_created fun_eq_iff)
  next
    case False
    with \<open>e_type e \<in> _\<close> have "e_type e = ItemReparented" by simp
    moreover have "opt str_of ?v = None \<or> opt str_of ?v = Some (str_of ?v)"
      by (cases ?v) (simp_all add: opt_def)
    ultimately show ?thesis
      by (cases "jget (st_items st) ?i") (auto simp: view_def apply_item_reparented_def on_item_def fun_eq_iff split: if_splits)
  qed
  then show ?thesis
    using True by (auto simp: parents_view quiet_def str fun_upd_apply simp del: applyEvent.simps split: if_splits)
qed

lemma quiet_parents: "list_all quiet evs \<Longrightarrow> parents (foldEvents (es @ evs)) \<subseteq> parents (foldEvents es)"
proof (induction evs rule: rev_induct)
  case (snoc e evs)
  then have "parents (applyEvent e (replayEvents (es @ evs))) \<subseteq> parents (replayEvents (es @ evs))"
    using parents_step[of e "replayEvents (es @ evs)"] by auto
  with snoc show ?case
    by (simp add: parents_fold replayEvents_snoc flip: append_assoc del: applyEvent.simps)
qed simp

lemma linked_parents:
  assumes "js_prop (e_payload e) ''parentId'' = Str p"
  shows "parents (foldEvents (es @ [e])) \<subseteq> insert (e_aggregateId e, p) (parents (foldEvents es))"
  using parents_step[of e "replayEvents es"] assms by (auto simp: parents_fold replayEvents_snoc simp del: applyEvent.simps)

lemma acyclic_linked:
  assumes "acyclic (parents (foldEvents es))" and "(p, e_aggregateId e) \<notin> (parents (foldEvents es))\<^sup>*"
    and "js_prop (e_payload e) ''parentId'' = Str p"
  shows "acyclic (parents (foldEvents (es @ [e])))"
  using acyclic_subset[OF _ linked_parents[OF assms(3)]] assms(1,2) by (simp add: acyclic_insert)

lemma acyclic_quiet: "acyclic (parents (foldEvents es)) \<Longrightarrow> list_all quiet evs \<Longrightarrow> acyclic (parents (foldEvents (es @ evs)))"
  by (rule acyclic_subset[OF _ quiet_parents])

section \<open>What calls do to it\<close>

lemma thenC_liftC_run: "thenC (liftC x) k s = (r, s') \<Longrightarrow> s' = s \<or> (x = Inr () \<and> k s = (r, s'))" for x :: "error + unit"
  by (cases x) (auto simp: thenC_def bindC_def liftC_def)

lemma no_parents [simp]: "parents (foldEvents []) = {}"
  by (simp add: parents_def parent_in_def)

lemma emit_link_acyclic:
  assumes disk: "en_disk env = honest" and wf: "wf_js payload" and o: "is_object payload"
    and ac: "acyclic (parents (state_of s))" and emit: "emit env a i ty payload s = (r, s')"
    and link: "js_prop payload ''parentId'' = given (map_option Str q) Undef"
    and free: "\<And>p. q = Some p \<Longrightarrow> (p, i) \<notin> (parents (state_of s))\<^sup>*"
  shows "acyclic (parents (state_of s'))"
proof -
  from emit_critical[OF disk wf emit] show ?thesis
  proof (elim disjE exE conjE)
    fix e inputs
    assume log: "events_of (se_store s') = events_of (se_store s) @ [e]" and rec: "records (part a i ty payload) e"
    have id: "e_aggregateId e = i" using rec by (simp add: records_def part_def)
    note member = records_prop[OF rec, of "''parentId''", unfolded part_def event_part.simps, OF wf o]
    show ?thesis
    proof (cases q)
      case None
      then have "quiet e" using member(2) link by (simp add: quiet_def)
      then show ?thesis using acyclic_quiet[of "events_of (se_store s)" "[e]"] ac by (simp add: state_of_def log)
    next
      case (Some p)
      then have "js_prop (e_payload e) ''parentId'' = Str p" using member(1) link by simp
      from acyclic_linked[OF _ _ this] ac free[OF Some] show ?thesis by (simp add: state_of_def log id)
    qed
  qed (use ac in \<open>simp_all add: state_of_def acyclic_def\<close>)
qed

lemma reparent_acyclic:
  assumes "en_disk env = honest" and "sound h (se_store s)" and "acyclic (parents (state_of s))"
    and "reparentItem env i q s = (r, s')"
  shows "acyclic (parents (state_of s'))"
proof -
  have "thenC (liftC (reparent_guard (state_of s) i q))
      (doneC (emit env AItem i ItemReparented (obj [(''parentId'', map_option Str q)]))) s = (r, s')"
    using assms(4) by (simp add: reparentItem_def stateC_bind[OF assms(2)])
  then show ?thesis
  proof (elim thenC_liftC_run[elim_format] disjE conjE)
    assume ok: "reparent_guard (state_of s) i q = Inr ()"
      and run: "doneC (emit env AItem i ItemReparented (obj [(''parentId'', map_option Str q)])) s = (r, s')"
    from doneC_run[OF run] obtain r' where emit: "emit env AItem i ItemReparented
        (obj [(''parentId'', map_option Str q)]) s = (r', s')" by blast
    show ?thesis
    proof (rule emit_link_acyclic[OF assms(1) _ _ assms(3) emit])
      show "wf_js (obj [(''parentId'', map_option Str q)])" by (rule wf_js_obj) (simp_all add: wf_payloads)
      show "(p, i) \<notin> (parents (state_of s))\<^sup>*" if "q = Some p" for p
        using guards_no_cycle(1)[OF assms(3)] ok that by blast
    qed simp_all
  qed (use assms(3) in simp)
qed

lemma restructure_acyclic:
  assumes "en_disk env = honest" and "sound h (se_store s)" and "acyclic (parents (state_of s))"
    and "restructureReparent env i p ph rr s = (r, s')"
  shows "acyclic (parents (state_of s'))"
proof -
  let ?payload = "obj [(''parentId'', Some (Str p)), (''planHash'', Some (Str ph)), (''restructureRef'', map_option Str rr)]"
  have "thenC (liftC (restructure_guard (state_of s) i p)) (doneC (emit env AItem i ItemReparented ?payload)) s = (r, s')"
    using assms(4) by (simp add: restructureReparent_def stateC_bind[OF assms(2)])
  then show ?thesis
  proof (elim thenC_liftC_run[elim_format] disjE conjE)
    assume ok: "restructure_guard (state_of s) i p = Inr ()"
      and run: "doneC (emit env AItem i ItemReparented ?payload) s = (r, s')"
    from doneC_run[OF run] obtain r' where emit: "emit env AItem i ItemReparented ?payload s = (r', s')" by blast
    show ?thesis
    proof (rule emit_link_acyclic[OF assms(1) _ _ assms(3) emit, of "Some p"])
      show "wf_js ?payload" by (rule wf_js_obj) (simp_all add: wf_payloads)
      show "(p', i) \<notin> (parents (state_of s))\<^sup>*" if "Some p = Some p'" for p'
        using guards_no_cycle(2)[OF assms(3)] ok that by blast
    qed simp_all
  qed (use assms(3) in simp)
qed

text \<open>Creation links an item the relation does not mention yet: the identifier source is asked for one
  that is no item's parent.\<close>

definition fresh_for :: "env \<Rightarrow> session \<Rightarrow> item_created_payload \<Rightarrow> bool" where
  "fresh_for env s p \<longleftrightarrow> en_newId env (se_ids s) \<notin> Range (parents (state_of s)) \<and>
     icp_parentId p \<noteq> Some (en_newId env (se_ids s))"

definition parent_check :: "item_created_payload \<Rightarrow> unit cmd" where
  "parent_check p = (case (icp_role p, icp_parentId p) of
     (Some role, Some parentId) \<Rightarrow>
       bindC stateC (\<lambda>st. case jget (st_items st) parentId of None \<Rightarrow> returnC ()
         | Some parent \<Rightarrow> liftC (assertRoleNesting (Some role) (item_role parent)))
   | _ \<Rightarrow> returnC ())"

lemma inspects_parent_check: "inspects (parent_check p)"
  by (auto simp: parent_check_def intro!: inspects_bind split: option.split)

lemma create_run:
  assumes "createItem env p s = (r, s')"
  shows "se_store s' = se_store s \<or> (\<exists>a1 rs s1 r1. se_store s1 = se_store s \<and>
     emit env AItem (en_newId env (se_ids s)) ItemCreated (ItemCreatedPayload_js (p\<lparr>icp_accountable := a1, icp_responsible := rs\<rparr>))
       s1 = (r1, s'))"
  using assms unfolding createItem_def thenC_def parent_check_def[symmetric]
  by (elim inspectE inspects_bindE[OF _ inspects_parent_check] newId_bindE bindC_cases) (simp, fastforce simp: returnC_def)+

lemma create_acyclic:
  assumes disk: "en_disk env = honest" and ac: "acyclic (parents (state_of s))"
    and fresh: "fresh_for env s p" and run: "doneC (createItem env p) s = (r, s')"
  shows "acyclic (parents (state_of s'))"
proof -
  let ?i = "en_newId env (se_ids s)"
  obtain r' where run': "createItem env p s = (r', s')" using doneC_run[OF run] by blast
  have same: "se_store s1 = se_store s2 \<Longrightarrow> state_of s1 = state_of s2" for s1 s2 by (simp add: state_of_def)
  from create_run[OF run'] show ?thesis
  proof (elim disjE exE conjE)
    fix r1 a1 rs s1
    let ?p = "p\<lparr>icp_accountable := a1, icp_responsible := rs\<rparr>"
    assume emit: "emit env AItem ?i ItemCreated (ItemCreatedPayload_js ?p) s1 = (r1, s')"
      and s1: "se_store s1 = se_store s"
    show ?thesis
    proof (rule emit_link_acyclic[OF disk _ _ _ emit, of "icp_parentId p"])
      show "(q, ?i) \<notin> (parents (state_of s1))\<^sup>*" if "icp_parentId p = Some q" for q
        using fresh that unfolding same[OF s1] by (auto simp: fresh_for_def elim: rtranclE)
    qed (simp_all add: wf_payloads same[OF s1] ac, simp_all add: ItemCreatedPayload_js_def)
  qed (use ac same[of s' s] in simp)
qed

lemma promotion_quiet:
  assumes "records (promotion_part di dd i it) e"
  shows "quiet e"
proof -
  have "js_prop (e_payload e) ''parentId'' = Undef"
    by (rule records_prop(2)[OF assms])
      (simp_all add: promotion_part_def part_def wf_payloads wf_js_obj)
  then show ?thesis by (simp add: quiet_def)
qed

definition forest :: "store \<Rightarrow> bool" where
  "forest st \<longleftrightarrow> acyclic (parents (foldEvents (events_of st)))"

lemma quiet_batch:
  assumes "en_disk env = honest" and "list_all (part_ok T) parts"
    and "\<And>p e. p \<in> set parts \<Longrightarrow> records p e \<Longrightarrow> quiet e"
  shows "keeps forest (emitBatch env parts)"
  unfolding keeps_def
proof (intro allI impI)
  fix s r s'
  assume "forest (se_store s)" and "emitBatch env parts s = (r, s')"
  moreover have "list_all2 records parts evs \<Longrightarrow> list_all quiet evs" for evs
    using assms(3) by (auto simp: list_all_iff dest!: list_all2_setD2)
  ultimately show "forest (se_store s')"
    using emitBatch_critical[OF assms(1,2), of s r s'] acyclic_quiet by (fastforce simp: forest_def acyclic_def)
qed

lemma agree_forest:
  assumes disk: "en_disk env = honest"
  shows "keeps forest (agreeDemand env i h' its q l)"
proof -
  have "keeps forest (emitBatch env (part ADemand i DemandAgreed pay # map2 (promotion_part i d) ids its))"
    if "wf_js pay" for pay d ids
  proof (rule quiet_batch[OF disk, of "{DemandAgreed, ItemCreated}"])
    show "list_all (part_ok {DemandAgreed, ItemCreated}) (part ADemand i DemandAgreed pay # map2 (promotion_part i d) ids its)"
      using that by (simp add: wf_map2 wf_payloads)
    show "quiet e" if mem: "p \<in> set (part ADemand i DemandAgreed pay # map2 (promotion_part i d) ids its)"
      and rec: "records p e" for p e
    proof -
      consider "p = part ADemand i DemandAgreed pay" | x y where "p = promotion_part i d x y"
        using mem by auto
      then show ?thesis
      proof cases
        case 1
        then show ?thesis using rec by (simp add: records_def part_def quiet_def)
      next
        case 2
        then show ?thesis using rec promotion_quiet by blast
      qed
    qed
  qed
  then show ?thesis
    unfolding agreeDemand_def by (intro keeps_rules) (simp_all add: wf_payloads wf_js_obj)
qed

definition may_link :: "env \<Rightarrow> session \<Rightarrow> command_call \<Rightarrow> bool" where
  "may_link env s c = (case c of CreateItem p \<Rightarrow> fresh_for env s p | _ \<Rightarrow> True)"

lemma other_calls_forest:
  assumes "en_disk env = honest" and "wf_call c" and "sound (en_host env) (se_store s)"
    and "ItemCreated \<notin> emitted_types c" and "ItemReparented \<notin> emitted_types c"
    and "acyclic (parents (state_of s))" and "perform env c s = (r, s')"
  shows "acyclic (parents (state_of s'))"
proof -
  obtain new where "events_of (se_store s') = events_of (se_store s) @ new" "\<forall>e \<in> set new. e_type e \<in> emitted_types c"
    using perform_step[OF assms(1-3)] assms(7) by (auto simp: extends_def)
  moreover from this assms(4,5) have "list_all quiet new" by (auto simp: list_all_iff quiet_def)
  ultimately show ?thesis using acyclic_quiet assms(6) by (simp add: state_of_def)
qed

lemma calls_forest:
  assumes disk: "en_disk env = honest" and wf: "wf_call c" and snd: "sound (en_host env) (se_store s)"
    and ac: "acyclic (parents (state_of s))" and fresh: "may_link env s c" and run: "perform env c s = (r, s')"
  shows "acyclic (parents (state_of s'))"
proof (cases "ItemCreated \<in> emitted_types c \<or> ItemReparented \<in> emitted_types c")
  case False
  with other_calls_forest[OF disk wf snd _ _ ac run] show ?thesis by blast
next
  case True
  then consider p where "c = CreateItem p" | i q where "c = ReparentItem i q"
    | i p ph rr where "c = RestructureReparent i p ph rr" | i h' its q l where "c = AgreeDemand i h' its q l"
    by (cases c) auto
  then show ?thesis
  proof cases
    case 1
    with create_acyclic[OF disk ac] fresh run show ?thesis by (auto simp: may_link_def)
  next
    case 2
    with reparent_acyclic[OF disk snd ac] run show ?thesis by auto
  next
    case 3
    with restructure_acyclic[OF disk snd ac] run show ?thesis by auto
  next
    case 4
    then obtain r' where "agreeDemand env i h' its q l s = (r', s')" using run doneC_run by fastforce
    from keepsD[OF agree_forest[OF disk] _ this] ac show ?thesis by (simp add: forest_def state_of_def)
  qed
qed

section \<open>Racing moves\<close>

lemma view_reparented:
  assumes "e_type e = ItemReparented" and "js_prop (e_payload e) ''parentId'' = Str p"
    and "jget (st_items st) (e_aggregateId e) \<noteq> None"
  shows "view item_parentId (applyEvent e st) = (view item_parentId st)(e_aggregateId e \<mapsto> Some p)"
  using assms by (auto simp: apply_item_reparented_def view_def on_item_def fun_eq_iff)

definition moves :: "ulid \<Rightarrow> ulid \<Rightarrow> track_event \<Rightarrow> bool" where
  "moves i p e \<longleftrightarrow> e_type e = ItemReparented \<and> e_aggregateId e = i \<and> js_prop (e_payload e) ''parentId'' = Str p"

lemma swapped_parents:
  assumes "jget (st_items (foldEvents es)) a \<noteq> None" and "jget (st_items (foldEvents es)) b \<noteq> None" and "a \<noteq> b"
    and "moves a b e" and "moves b a e'"
  shows "view item_parentId (foldEvents (es @ [e, e'])) = (view item_parentId (foldEvents es))(a \<mapsto> Some b, b \<mapsto> Some a)"
proof -
  let ?st = "replayEvents es" and ?st1 = "applyEvent e (replayEvents es)"
  have known: "view item_parentId ?st a \<noteq> None" "view item_parentId ?st b \<noteq> None"
    using assms(1,2) by (simp_all add: view_def foldEvents_def computeOpen_def)
  have first: "view item_parentId ?st1 = (view item_parentId ?st)(a \<mapsto> Some b)"
    using view_reparented[of e b ?st] assms(4) known(1) by (simp add: moves_def view_def del: applyEvent.simps)
  with known(2) have "jget (st_items ?st1) b \<noteq> None"
    using assms(3) by (metis (no_types, lifting) fun_upd_apply option.map(1) view_def)
  then have "view item_parentId (applyEvent e' ?st1) = (view item_parentId ?st1)(b \<mapsto> Some a)"
    using view_reparented[of e' a ?st1] assms(5) by (simp add: moves_def del: applyEvent.simps)
  with first show ?thesis
    by (simp add: foldEvents_def replayEvents_def del: applyEvent.simps)
qed

lemma swapped_diverges:
  assumes "jget (st_items (foldEvents es)) a \<noteq> None" and "jget (st_items (foldEvents es)) b \<noteq> None" and "a \<noteq> b"
    and "moves a b e" and "moves b a e'" and "x \<noteq> a" and "x \<noteq> b"
  shows "meets_ancestor (foldEvents (es @ [e, e'])) x (Some a) = None"
proof -
  let ?R = "parents (foldEvents (es @ [e, e']))"
  have edges: "(a, y) \<in> ?R \<longleftrightarrow> y = b" "(b, y) \<in> ?R \<longleftrightarrow> y = a" for y
    using assms(3) by (auto simp: parents_view swapped_parents[OF assms(1-5)])
  have "y \<in> {a, b}" if "(a, y) \<in> ?R\<^sup>*" for y
    using that by (induction rule: rtrancl_induct) (auto simp: edges)
  moreover have "(a, b) \<in> ?R" "(b, a) \<in> ?R" by (simp_all add: edges)
  then have "(a, a) \<in> ?R\<^sup>+" by (meson trancl.intros)
  ultimately show ?thesis
    using walk_diverges[of a x "foldEvents (es @ [e, e'])" a] assms(6,7) by blast
qed

lemma guard_known:
  "reparent_guard st i (Some p) = Inr () \<Longrightarrow> jget (st_items st) i \<noteq> None \<and> jget (st_items st) p \<noteq> None \<and> p \<noteq> i"
  by (auto simp: reparent_guard_def bindR_eq_Inr get_or_def require_def split: option.splits if_splits)

definition two_items :: "track_event list" where
  "two_items = [sealed 1 None (sample_event ''01'' ItemCreated
       [(''kind'', Str ''bug''), (''title'', Str ''t''), (''workspace'', Str ''w'')]),
     sealed 1 None (sample_event ''02'' ItemCreated
       [(''kind'', Str ''bug''), (''title'', Str ''t''), (''workspace'', Str ''w'')]\<lparr>e_aggregateId := ''i2''\<rparr>)]"

definition sample_move :: "ulid \<Rightarrow> ulid \<Rightarrow> track_event" where
  "sample_move i p = sealed 2 None (sample_event ''03'' ItemReparented [(''parentId'', Str p)]\<lparr>e_aggregateId := i\<rparr>)"

lemma sample_moves: "moves i p (sample_move i p)"
  by (simp add: moves_def sample_move_def js_prop_def)

lemma two_items_known:
  "\<exists>x y. jget (st_items (foldEvents two_items)) ''i1'' = Some x \<and> jget (st_items (foldEvents two_items)) ''i2'' = Some y \<and>
     item_workspace x = item_workspace y \<and> item_role x = None \<and> item_role y = None \<and>
     item_parentId x = None \<and> item_parentId y = None"
  by (simp add: two_items_def foldEvents_def computeOpen_def replayEvents_def apply_item_created_def
      ItemCreatedPayload_of_def enum_of_def item_kinds_def js_prop_def emptyState_def new_item_def opt_def)

lemma two_items_guards:
  "reparent_guard (foldEvents two_items) ''i1'' (Some ''i2'') = Inr ()"
  "reparent_guard (foldEvents two_items) ''i2'' (Some ''i1'') = Inr ()"
proof -
  obtain x y where k: "jget (st_items (foldEvents two_items)) ''i1'' = Some x"
      "jget (st_items (foldEvents two_items)) ''i2'' = Some y" "item_workspace x = item_workspace y"
      "item_role x = None" "item_role y = None" "item_parentId x = None" "item_parentId y = None"
    using two_items_known by (elim exE conjE) rule
  then have p: "parent_in (foldEvents two_items) ''i1'' = None" "parent_in (foldEvents two_items) ''i2'' = None"
    by (simp_all add: parent_in_def)
  show "reparent_guard (foldEvents two_items) ''i1'' (Some ''i2'') = Inr ()"
    "reparent_guard (foldEvents two_items) ''i2'' (Some ''i1'') = Inr ()"
    using k p by (simp_all add: reparent_guard_def get_or_def require_def assertRoleNesting_def assert_no_cycle_def walk_step)
qed

section \<open>Properties\<close>

text \<open>C28. The walk over the ancestors of a prospective parent has exactly three outcomes: it answers yes when
  the item is the parent or one of its ancestors, does not return when it does not meet the item but
  the ancestry runs into a cycle, and answers no otherwise.\<close>

theorem ancestor_walk_exactly:
  "meets_ancestor st i (Some c) =
     (if (c, i) \<in> (parents st)\<^sup>* then Some True
      else if \<exists>d. (c, d) \<in> (parents st)\<^sup>* \<and> (d, d) \<in> (parents st)\<^sup>+ then None
      else Some False)"
  using walk_meets[of c i st] walk_diverges[of c i st] walk_ends[of c i st] by auto

text \<open>C29. Every call of the facade keeps the parents of the items acyclic, so after it each walk over
  ancestors returns, with the answer whether the item is among them. The identifier source must not hand
  to a creation an identifier that items already name as their parent.\<close>

theorem calls_keep_parents_acyclic:
  assumes "en_disk env = honest" and "wf_call c" and "sound (en_host env) (se_store s)"
    and "acyclic (parents (state_of s))" and "may_link env s c" and "perform env c s = (r, s')"
  shows "acyclic (parents (state_of s')) \<and>
     meets_ancestor (state_of s') i (Some p) = Some ((p, i) \<in> (parents (state_of s'))\<^sup>*)"
  using calls_forest[OF assms] walk_returns by blast

theorem calls_keep_parents_acyclic_witness:
  "\<exists>r s'. perform sample_env (ReparentItem ''i1'' (Some ''i2'')) sample_session = (r, s') \<and>
     acyclic (parents (state_of s')) \<and>
     meets_ancestor (state_of s') ''i1'' (Some ''i2'') = Some ((''i2'', ''i1'') \<in> (parents (state_of s'))\<^sup>*)"
proof -
  obtain r s' where run: "perform sample_env (ReparentItem ''i1'' (Some ''i2'')) sample_session = (r, s')"
    by fastforce
  have "parents (state_of sample_session) = {}"
    by (simp add: state_of_def sample_session_def empty_events parents_def parent_in_def foldEvents_def computeOpen_def
        replayEvents_def emptyState_def)
  then have ac: "acyclic (parents (state_of sample_session))" by (simp add: acyclic_def)
  have wf: "wf_call (ReparentItem ''i1'' (Some ''i2''))" and snd: "sound (en_host sample_env) (se_store sample_session)"
    and link: "may_link sample_env sample_session (ReparentItem ''i1'' (Some ''i2''))"
    by (simp_all add: may_link_def)
  from run calls_keep_parents_acyclic[OF sample_facade(1) wf snd ac link run] show ?thesis by blast
qed

text \<open>C30. The guard of \<open>reparentItem\<close> is not repeated under the lock: when two processes read one log and
  move two items under each other, both guards pass, and after both events the walk that any later move
  under one of the two makes for another item does not return.\<close>

theorem racing_moves_diverge:
  assumes "reparent_guard (foldEvents es) a (Some b) = Inr ()" and "reparent_guard (foldEvents es) b (Some a) = Inr ()"
    and "moves a b e" and "moves b a e'" and "x \<noteq> a" and "x \<noteq> b"
  shows "meets_ancestor (foldEvents (es @ [e, e'])) x (Some a) = None"
proof -
  from guard_known[OF assms(1)] have "jget (st_items (foldEvents es)) a \<noteq> None" "jget (st_items (foldEvents es)) b \<noteq> None"
    "a \<noteq> b" by auto
  from swapped_diverges[OF this assms(3-6)] show ?thesis .
qed

theorem racing_moves_diverge_witness:
  "\<exists>es e e'. reparent_guard (foldEvents es) ''i1'' (Some ''i2'') = Inr () \<and>
     reparent_guard (foldEvents es) ''i2'' (Some ''i1'') = Inr () \<and>
     meets_ancestor (foldEvents (es @ [e, e'])) ''i3'' (Some ''i1'') = None"
proof -
  have "''i3'' \<noteq> ''i1''" "''i3'' \<noteq> ''i2''" by simp_all
  from two_items_guards racing_moves_diverge[OF two_items_guards sample_moves sample_moves this]
  show ?thesis by blast
qed

end
