(* ===== verification/Uniqueness.thy ===== *)
theory Uniqueness
  imports Forest
begin

text \<open>
  Invariants of the state that the store's recheck protects: the codes of containers are unique, and
  the duplicates of demands lead to survivors. The recheck of \<open>Track.assignCode\<close> and of the demand
  commands runs under the lock on the log being extended, so the invariants hold even when the guard
  a command ran first has read an older log.
\<close>

section \<open>Codes of containers\<close>

definition code_view :: "item_state \<Rightarrow> string option \<times> bool" where
  "code_view x = (item_code x, isRoleContainer (item_role x))"

definition coded :: "state \<Rightarrow> (ulid \<times> string) set" where
  "coded st = {(i, c). view code_view st i = Some (Some c, True)}"

definition codes_unique :: "state \<Rightarrow> bool" where
  "codes_unique st \<longleftrightarrow> single_valued ((coded st)\<inverse>)"

lemma no_codes [simp]: "codes_unique (foldEvents [])"
  by (simp add: codes_unique_def coded_def view_def)

lemma codes_unique_iff: "codes_unique st \<longleftrightarrow> (\<forall>i j c. (i, c) \<in> coded st \<longrightarrow> (j, c) \<in> coded st \<longrightarrow> i = j)"
  by (auto simp: codes_unique_def single_valued_def)

lemma codes_unique_subset: "codes_unique st \<Longrightarrow> coded st' \<subseteq> coded st \<Longrightarrow> codes_unique st'"
  unfolding codes_unique_iff by blast

lemma coded_fold: "coded (foldEvents es) = coded (replayEvents es)"
  by (simp add: coded_def foldEvents_def)

lemma code_view_kept:
  assumes "e_type e \<notin> {ItemCreated, ItemCodeAssigned, ItemRoleChanged}"
  shows "view code_view (applyEvent e st) = view code_view st"
proof (cases "e_type e \<in> evidence_types")
  case True
  then show ?thesis by (rule view_evidence)
next
  case False
  with assms show ?thesis
    by (cases "e_type e")
      (auto simp: evidence_types_def apply_defs view_outcome[unfolded apply_decision_outcome_def] case_prod_unfold code_view_def
        intro!: view_cast view_on_item split: option.split)
qed

lemma coded_created: "e_type e = ItemCreated \<Longrightarrow> coded (applyEvent e st) \<subseteq> coded st"
  by (cases "ItemCreatedPayload_of (e_payload e)")
    (auto simp: coded_def view_def apply_item_created_def code_view_def new_item_def split: if_splits)

lemma coded_assigned:
  assumes "e_type e = ItemCodeAssigned" and "js_prop (e_payload e) ''code'' = Str c"
  shows "coded (applyEvent e st) \<subseteq> insert (e_aggregateId e, c) (coded st)"
  using assms
  by (auto simp: coded_def view_def apply_code_assigned_def code_view_def on_item_def split: if_splits)

lemma coded_role:
  assumes "e_type e = ItemRoleChanged" and "\<exists>x. jget (st_items st) (e_aggregateId e) = Some x \<and> isRoleContainer (item_role x)"
  shows "coded (applyEvent e st) \<subseteq> coded st"
proof -
  have "view code_view (on_item (e_aggregateId e) (\<lambda>item. item\<lparr>item_role := Some to\<rparr>) st) i = view code_view st i
      \<or> \<not> isRoleContainer (Some to) \<and> i = e_aggregateId e" for to i
    using assms(2) by (cases "i = e_aggregateId e") (auto simp: view_def on_item_def code_view_def)
  then have "coded (on_item (e_aggregateId e) (\<lambda>item. item\<lparr>item_role := Some to\<rparr>) st) \<subseteq> coded st" for to
    using assms(2) by (fastforce simp: coded_def view_def on_item_def code_view_def split: if_splits)
  then show ?thesis
    using assms(1) by (cases "enum_of item_roles (js_prop (e_payload e) ''to'')") (simp_all add: apply_role_changed_def)
qed

lemma codes_unique_event:
  assumes "codes_unique (foldEvents es)" and "coded (applyEvent e (replayEvents es)) \<subseteq> coded (replayEvents es)"
  shows "codes_unique (foldEvents (es @ [e]))"
  using assms unfolding codes_unique_iff coded_fold replayEvents_snoc by blast

lemma codes_unique_events:
  "codes_unique (foldEvents es) \<Longrightarrow> \<forall>e \<in> set evs. e_type e \<notin> {ItemCodeAssigned, ItemRoleChanged} \<Longrightarrow>
     codes_unique (foldEvents (es @ evs))"
proof (induction evs rule: rev_induct)
  case (snoc e evs)
  have "coded (applyEvent e (replayEvents (es @ evs))) \<subseteq> coded (replayEvents (es @ evs))"
  proof (cases "e_type e = ItemCreated")
    case True
    then show ?thesis by (rule coded_created)
  next
    case False
    with snoc.prems have "view code_view (applyEvent e (replayEvents (es @ evs))) = view code_view (replayEvents (es @ evs))"
      by (intro code_view_kept) auto
    then show ?thesis by (simp add: coded_def del: applyEvent.simps)
  qed
  from codes_unique_event[OF _ this] snoc show ?case by simp
qed simp

lemma assertCodeUnique_spec:
  assumes "keyed_state st" and "assertCodeUnique i c st = Inr ()" and "(j, c) \<in> coded st"
  shows "j = i"
proof -
  from assms(3) obtain x where x: "jget (st_items st) j = Some x" "item_code x = Some c" "isRoleContainer (item_role x)"
    by (auto simp: coded_def view_def code_view_def)
  have "item_id x = j" and mem: "x \<in> set (jvals (st_items st))"
    using jget_mem[OF x(1)] keyed_stateD(1)[OF assms(1)] by (force simp: keyed_def list_all_iff jvals_def)+
  with assms(2) x show ?thesis
    by (auto simp: assertCodeUnique_def find_None_iff split: option.splits)
qed

lemma assign_keeps:
  assumes disk: "en_disk env = honest"
  shows "keeps (\<lambda>st. codes_unique (foldEvents (events_of st)))
     (withDemandRecheck (code_recheck i c)
        (tokened tk (doneC (emit env AItem i ItemCodeAssigned (obj [(''code'', Some (Str c))])))))"
  unfolding keeps_def
proof (intro allI impI)
  fix s r s'
  let ?payload = "obj [(''code'', Some (Str c))]"
  assume uniq: "codes_unique (foldEvents (events_of (se_store s)))"
    and run: "withDemandRecheck (code_recheck i c) (tokened tk (doneC (emit env AItem i ItemCodeAssigned ?payload))) s = (r, s')"
  from rechecked_run[OF run] obtain s2 where run2: "tokened tk (doneC (emit env AItem i ItemCodeAssigned ?payload))
      (s\<lparr>se_recheck := Some (code_recheck i c)\<rparr>) = (r, s2)" and s2: "se_store s' = se_store s2" by blast
  from tokened_run[OF run2] obtain s3 s4 where run3: "doneC (emit env AItem i ItemCodeAssigned ?payload) s3 = (r, s4)"
    and s3: "se_store s3 = se_store s" "se_recheck s3 = Some (code_recheck i c)" and s4: "se_store s2 = se_store s4"
    by auto
  from doneC_run[OF run3] obtain r' where run4: "emit env AItem i ItemCodeAssigned ?payload s3 = (r', s4)" by blast
  have wf: "wf_js ?payload" by (rule wf_js_obj) simp_all
  from emit_critical[OF disk wf run4] show "codes_unique (foldEvents (events_of (se_store s')))"
  proof (elim disjE exE conjE)
    fix e inputs
    assume log: "events_of (se_store s4) = events_of (se_store s3) @ [e]"
      and rec: "records (part AItem i ItemCodeAssigned ?payload) e"
      and hook: "case se_recheck s3 of None \<Rightarrow> True | Some hook \<Rightarrow> hook inputs (events_of (se_store s3)) = Inr ()"
    let ?es = "events_of (se_store s)"
    have e: "e_type e = ItemCodeAssigned" "e_aggregateId e = i" using rec by (simp_all add: records_def part_def)
    have code: "js_prop (e_payload e) ''code'' = Str c"
      by (rule records_prop(1)[OF rec]) (simp_all add: part_def wf)
    have "assertCodeUnique i c (foldEvents ?es) = Inr ()"
      using hook s3 by (simp add: code_recheck_def)
    from assertCodeUnique_spec[OF foldEvents_keyed this]
    have only: "(j, c) \<in> coded (replayEvents ?es) \<Longrightarrow> j = i" for j by (simp add: coded_fold)
    have "codes_unique (foldEvents (?es @ [e]))"
      using coded_assigned[OF e(1) code, of "replayEvents ?es"] uniq only
      unfolding codes_unique_iff coded_fold replayEvents_snoc e(2) by blast
    then show ?thesis by (simp add: s2 s4 log s3)
  qed (use uniq s2 s3 s4 in simp_all)
qed

lemma role_codes:
  assumes disk: "en_disk env = honest" and snd: "sound h (se_store s)" and uniq: "codes_unique (state_of s)"
    and run: "setRole env i to tk s = (r, s')"
  shows "codes_unique (state_of s')"
proof -
  let ?payload = "obj [(''to'', Some (item_role_js to))]"
  have "thenC (liftC (role_guard (state_of s) i to)) (tokened tk (doneC (emit env AItem i ItemRoleChanged ?payload))) s = (r, s')"
    using run by (simp add: setRole_def stateC_bind[OF snd])
  then show ?thesis
  proof (elim thenC_liftC_run[elim_format] disjE conjE)
    assume ok: "role_guard (state_of s) i to = Inr ()"
      and run2: "tokened tk (doneC (emit env AItem i ItemRoleChanged ?payload)) s = (r, s')"
    from ok have cont: "\<exists>x. jget (st_items (foldEvents (events_of (se_store s)))) i = Some x \<and> isRoleContainer (item_role x)"
      by (auto simp: role_guard_def bindR_eq_Inr get_or_def require_def isRoleContainer_def state_of_def
          split: option.splits if_splits)
    from tokened_run[OF run2] obtain s1 s2 where run3: "doneC (emit env AItem i ItemRoleChanged ?payload) s1 = (r, s2)"
      and s1: "se_store s1 = se_store s" and s2: "se_store s' = se_store s2" by blast
    from doneC_run[OF run3] obtain r' where run4: "emit env AItem i ItemRoleChanged ?payload s1 = (r', s2)" by blast
    have "wf_js ?payload" by (rule wf_js_obj) (simp_all add: wf_payloads)
    from emit_critical[OF disk this run4] show ?thesis
    proof (elim disjE exE conjE)
      fix e inputs
      assume log: "events_of (se_store s2) = events_of (se_store s1) @ [e]" and rec: "records (part AItem i ItemRoleChanged ?payload) e"
      let ?es = "events_of (se_store s)"
      have "e_type e = ItemRoleChanged" "e_aggregateId e = i" using rec by (simp_all add: records_def part_def)
      moreover have "\<exists>x. jget (st_items (replayEvents ?es)) i = Some x \<and> isRoleContainer (item_role x)"
        using cont by (simp add: foldEvents_def computeOpen_def)
      ultimately have "coded (applyEvent e (replayEvents ?es)) \<subseteq> coded (replayEvents ?es)"
        by (intro coded_role) simp_all
      from codes_unique_event[OF _ this] uniq show ?thesis by (simp add: state_of_def s2 log s1)
    qed (use uniq s1 s2 in \<open>simp_all add: state_of_def\<close>)
  qed (use uniq in simp)
qed

lemma assignCode_keeps:
  "en_disk env = honest \<Longrightarrow> keeps (\<lambda>st. codes_unique (foldEvents (events_of st))) (assignCode env i c tk)"
  unfolding assignCode_def by (intro keeps_rules assign_keeps)

lemma calls_codes:
  assumes disk: "en_disk env = honest" and wf: "wf_call c" and snd: "sound (en_host env) (se_store s)"
    and uniq: "codes_unique (state_of s)" and run: "perform env c s = (r, s')"
  shows "codes_unique (state_of s')"
proof (cases "ItemCodeAssigned \<in> emitted_types c \<or> ItemRoleChanged \<in> emitted_types c")
  case False
  obtain new where "events_of (se_store s') = events_of (se_store s) @ new" "\<forall>e \<in> set new. e_type e \<in> emitted_types c"
    using perform_step[OF disk wf snd] run by (auto simp: extends_def)
  moreover from this(2) False have "\<forall>e \<in> set new. e_type e \<notin> {ItemCodeAssigned, ItemRoleChanged}" by auto
  ultimately show ?thesis
    using codes_unique_events[of "events_of (se_store s)" new] uniq by (simp add: state_of_def)
next
  case True
  then consider i c' tk where "c = AssignCode i c' tk" | i to tk where "c = SetRole i to tk"
    by (cases c) auto
  then show ?thesis
  proof cases
    case 1
    with keepsD[OF assignCode_keeps[OF disk], of s] uniq run show ?thesis by (simp add: state_of_def)
  next
    case 2
    with role_codes[OF disk snd uniq] run show ?thesis by simp
  qed
qed

section \<open>Duplicates of demands\<close>

definition dup_view :: "state \<Rightarrow> ulid \<Rightarrow> (demand_status \<times> demand_ref option) option" where
  "dup_view st i = map_option (\<lambda>d. (dem_status d, dem_duplicateOf d)) (jget (st_demands st) i)"

definition duplicates :: "state \<Rightarrow> (ulid \<times> ulid) set" where
  "duplicates st = {(d, s). \<exists>z. dup_view st d = Some (z, Some (DemandRef s))}"

text \<open>Only a demand closed as a duplicate names a survivor, and the survivors are not in a circle.\<close>

definition survivors_ok :: "state \<Rightarrow> bool" where
  "survivors_ok st \<longleftrightarrow> acyclic (duplicates st) \<and> (\<forall>d z ref. dup_view st d = Some (z, Some ref) \<longrightarrow> z = Duplicate)"

lemma no_demands [simp]: "survivors_ok (foldEvents [])"
  by (simp add: survivors_ok_def duplicates_def dup_view_def acyclic_def)

lemma dup_view_fold [simp]: "dup_view (foldEvents es) = dup_view (replayEvents es)"
  by (simp add: dup_view_def foldEvents_def computeOpen_def fun_eq_iff)

lemma survivors_ok_view: "dup_view st = dup_view st' \<Longrightarrow> survivors_ok st = survivors_ok st'"
  by (simp add: survivors_ok_def duplicates_def)

lemma dup_view_cast: "(\<And>y. dup_view (f y st) = dup_view st) \<Longrightarrow> dup_view (cast x f st) = dup_view st"
  by (cases x) simp_all

lemma dup_view_other [simp]:
  "dup_view (on_item i f st) = dup_view st" "dup_view (on_decision i g st) = dup_view st"
  "dup_view (st\<lparr>st_items := a\<rparr>) = dup_view st" "dup_view (st\<lparr>st_decisions := b\<rparr>) = dup_view st"
  "dup_view (st\<lparr>st_blockers := c\<rparr>) = dup_view st"
  by (simp_all add: dup_view_def on_item_def on_decision_def fun_eq_iff)

lemma dup_view_folded: "dup_view (fold (\<lambda>t. on_item t f) ts st) = dup_view st"
  by (induction ts arbitrary: st) simp_all

lemma dup_view_kept:
  assumes "e_type e \<notin> {DemandRaised, DemandQualifyingStarted, DemandAgreed, DemandDisposition}"
  shows "dup_view (applyEvent e st) = dup_view st"
proof (cases "e_type e \<in> evidence_types")
  case True
  from workD[OF evidence_inert[OF True, of st]] show ?thesis by (simp add: dup_view_def fun_eq_iff)
next
  case False
  with assms show ?thesis
    by (cases "e_type e")
      (auto simp: evidence_types_def apply_defs case_prod_unfold dup_view_folded Let_def
        intro!: dup_view_cast split: option.split)
qed

lemma survivors_weaken:
  assumes "survivors_ok st" and "dup_view st' = (dup_view st)(i \<mapsto> (z, None))"
  shows "survivors_ok st'"
proof -
  have "duplicates st' \<subseteq> duplicates st"
    using assms(2) by (auto simp: duplicates_def split: if_splits)
  then show ?thesis
    using assms by (auto simp: survivors_ok_def intro: acyclic_subset split: if_splits)
qed

lemma survivors_same: "survivors_ok st \<Longrightarrow> dup_view st' = dup_view st \<Longrightarrow> survivors_ok st'"
  using survivors_ok_view by blast

lemma raised_survivors:
  assumes "survivors_ok st" and "e_type e = DemandRaised"
  shows "survivors_ok (applyEvent e st)"
proof -
  have new: "survivors_ok (st\<lparr>st_demands := jset i d (st_demands st)\<rparr>)" if "dem_duplicateOf d = None" for d i
    by (rule survivors_weaken[OF assms(1), of _ i "dem_status d"]) (simp add: dup_view_def that fun_eq_iff)
  have "applyEvent e st = apply_demand_raised e st" using assms(2) by simp
  then show ?thesis
    using assms(1) unfolding apply_demand_raised_def cast_def
    by (simp split: option.split) (clarsimp simp: bind_eq_Some_conv, rule new, simp)
qed

text \<open>A change of status is harmless for a demand that is not closed as a duplicate.\<close>

lemma status_survivors:
  assumes "survivors_ok st" and "dup_view st i \<noteq> None \<Longrightarrow> \<exists>z. dup_view st i = Some (z, None)"
    and "\<And>d. (dem_status (f d), dem_duplicateOf (f d)) = (z', dem_duplicateOf d)"
  shows "survivors_ok (on_demand i f st)"
proof (cases "jget (st_demands st) i")
  case None
  then have "dup_view (on_demand i f st) = dup_view st" by (auto simp: dup_view_def on_demand_def fun_eq_iff)
  then show ?thesis by (rule survivors_same[OF assms(1)])
next
  case (Some d)
  then have "dem_duplicateOf d = None" using assms(2) by (auto simp: dup_view_def)
  then have "dup_view (on_demand i f st) = (dup_view st)(i \<mapsto> (z', None))"
    using Some assms(3)[of d] by (auto simp: dup_view_def on_demand_def fun_eq_iff)
  then show ?thesis by (rule survivors_weaken[OF assms(1)])
qed

lemma survivors_open:
  assumes "survivors_ok st" and "demand_guard i to st = Inr d"
  shows "\<exists>z. dup_view st i = Some (z, None) \<and> z \<noteq> Duplicate"
proof -
  from assms(2) have "jget (st_demands st) i = Some d" "to \<in> set (DEMAND_TRANSITIONS (dem_status d))"
    by (auto simp: demand_guard_def bindR_eq_Inr get_or_def split: option.splits)
  then have "dup_view st i = Some (dem_status d, dem_duplicateOf d)" "dem_status d \<noteq> Duplicate"
    by (auto simp: dup_view_def)
  with assms(1) show ?thesis by (cases "dem_duplicateOf d") (auto simp: survivors_ok_def)
qed

lemma moved_survivors:
  assumes "survivors_ok st" and "\<exists>z. dup_view st (e_aggregateId e) = Some (z, None) \<and> z \<noteq> Duplicate"
    and "e_type e \<in> {DemandQualifyingStarted, DemandAgreed}"
  shows "survivors_ok (applyEvent e st)"
proof (cases "e_type e = DemandAgreed")
  case True
  have "survivors_ok (on_demand (e_aggregateId e) (\<lambda>d. d\<lparr>dem_status := Agreed,
      dem_itemIds := (case itemIds of None \<Rightarrow> dem_itemIds d | Some l \<Rightarrow> Some l)\<rparr>) st)" for itemIds
    by (rule status_survivors[OF assms(1), where z' = Agreed]) (use assms(2) in auto)
  with True assms(1) show ?thesis
    by (simp add: apply_demand_agreed_def cast_def split: option.split)
next
  case False
  have "survivors_ok (on_demand (e_aggregateId e) (\<lambda>d. d\<lparr>dem_status := Qualifying\<rparr>) st)"
    by (rule status_survivors[OF assms(1), where z' = Qualifying]) (use assms(2) in auto)
  with False assms(3) show ?thesis by (simp add: apply_qualifying_started_def)
qed

lemma closed_survivors:
  assumes ok: "survivors_ok st" and free: "\<exists>z. dup_view st (e_aggregateId e) = Some (z, None) \<and> z \<noteq> Duplicate"
    and ty: "e_type e = DemandDisposition"
    and outcome: "enum_of DISPOSITION_OUTCOMES (js_prop (e_payload e) ''outcome'') = Some z"
    and survivor: "\<And>r. z = ODuplicate \<Longrightarrow> opt demand_ref_of (js_prop (e_payload e) ''duplicateOf'') = Some (Some (DemandRef r)) \<Longrightarrow>
      r \<noteq> e_aggregateId e \<and> (\<exists>z'. dup_view st r = Some (z', None))"
  shows "survivors_ok (applyEvent e st)"
proof -
  let ?i = "e_aggregateId e"
  obtain d where d: "jget (st_demands st) ?i = Some d" "dem_duplicateOf d = None"
    using free by (auto simp: dup_view_def)
  have disposed: "survivors_ok (on_demand ?i (dispose_demand z r dup) st)"
    if dup: "opt demand_ref_of (js_prop (e_payload e) ''duplicateOf'') = Some dup" for r dup
  proof -
    have v: "dup_view (on_demand ?i (dispose_demand z r dup) st) =
        (dup_view st)(?i \<mapsto> (outcome_status z, if z = ODuplicate then dup else None))"
      using d by (auto simp: dup_view_def on_demand_def dispose_demand_def fun_eq_iff)
    show ?thesis
    proof (cases "\<exists>t. z = ODuplicate \<and> dup = Some (DemandRef t)")
      case False
      then have "duplicates (on_demand ?i (dispose_demand z r dup) st) \<subseteq> duplicates st"
        by (auto simp: duplicates_def v split: if_splits)
      then show ?thesis
        using ok False by (auto simp: survivors_ok_def v intro: acyclic_subset split: if_splits)
    next
      case True
      then obtain t where t: "z = ODuplicate" "dup = Some (DemandRef t)" by blast
      from survivor[OF t(1)] dup t(2) obtain z' where s: "t \<noteq> ?i" "dup_view st t = Some (z', None)" by blast
      have "duplicates (on_demand ?i (dispose_demand z r dup) st) \<subseteq> insert (?i, t) (duplicates st)"
        unfolding duplicates_def v by (auto simp: t split: if_splits)
      moreover have "(t, ?i) \<notin> (duplicates st)\<^sup>*"
        using s by (auto simp: duplicates_def elim: converse_rtranclE)
      ultimately have "acyclic (duplicates (on_demand ?i (dispose_demand z r dup) st))"
        using ok by (auto simp: survivors_ok_def acyclic_insert intro: acyclic_subset)
      then show ?thesis
        using ok unfolding survivors_ok_def v by (auto simp: t split: if_splits)
    qed
  qed
  have "applyEvent e st = apply_demand_disposition e st" using ty by simp
  then show ?thesis
    using ok outcome disposed unfolding apply_demand_disposition_def cast_def
    by (cases "opt str_of (js_prop (e_payload e) ''reason'')";
        cases "opt demand_ref_of (js_prop (e_payload e) ''duplicateOf'')") simp_all
qed

definition survivors :: "store \<Rightarrow> bool" where
  "survivors st \<longleftrightarrow> survivors_ok (foldEvents (events_of st))"

lemma survivors_fold: "survivors_ok (foldEvents es) = survivors_ok (replayEvents es)"
  by (rule survivors_ok_view) simp

lemma demand_types_survivors:
  "survivors_ok (foldEvents es) \<Longrightarrow>
     \<forall>e \<in> set evs. e_type e \<notin> {DemandQualifyingStarted, DemandAgreed, DemandDisposition} \<Longrightarrow>
     survivors_ok (foldEvents (es @ evs))"
proof (induction evs rule: rev_induct)
  case (snoc e evs)
  then have before: "survivors_ok (replayEvents (es @ evs))" by (simp add: survivors_fold)
  have "survivors_ok (applyEvent e (replayEvents (es @ evs)))"
  proof (cases "e_type e = DemandRaised")
    case True
    with before show ?thesis by (rule raised_survivors)
  next
    case False
    with snoc.prems show ?thesis by (intro survivors_same[OF before] dup_view_kept) auto
  qed
  then show ?case by (simp only: survivors_fold replayEvents_snoc append_assoc[symmetric])
qed simp

lemma move_keeps:
  assumes disk: "en_disk env = honest" and ty: "ty \<in> {DemandQualifyingStarted, DemandAgreed}"
    and wf: "list_all (part_ok T) (part ADemand i ty p # ps)"
    and rest: "\<forall>q \<in> set ps. pt_type q = ItemCreated"
  shows "keeps survivors (withDemandRecheck (demand_recheck i to) (emitBatch env (part ADemand i ty p # ps)))"
  unfolding keeps_def
proof (intro allI impI)
  fix s r s'
  assume ok: "survivors (se_store s)"
    and run: "withDemandRecheck (demand_recheck i to) (emitBatch env (part ADemand i ty p # ps)) s = (r, s')"
  from rechecked_run[OF run] obtain s2 where run2: "emitBatch env (part ADemand i ty p # ps)
      (s\<lparr>se_recheck := Some (demand_recheck i to)\<rparr>) = (r, s2)" and s2: "se_store s' = se_store s2" by blast
  let ?es = "events_of (se_store s)"
  from emitBatch_critical[OF disk wf run2] show "survivors (se_store s')"
  proof (elim disjE exE conjE)
    fix evs inputs
    assume log: "events_of (se_store s2) = events_of (se_store (s\<lparr>se_recheck := Some (demand_recheck i to)\<rparr>)) @ evs"
      and rec: "list_all2 records (part ADemand i ty p # ps) evs"
      and hook: "case se_recheck (s\<lparr>se_recheck := Some (demand_recheck i to)\<rparr>) of None \<Rightarrow> True
        | Some hook \<Rightarrow> hook inputs (events_of (se_store (s\<lparr>se_recheck := Some (demand_recheck i to)\<rparr>))) = Inr ()"
    obtain e es where evs: "evs = e # es" and e: "records (part ADemand i ty p) e" and es: "list_all2 records ps es"
      using rec by (auto simp: list_all2_Cons1)
    from hook obtain d where "demand_guard i to (foldEvents ?es) = Inr d"
      by (auto simp: demand_recheck_def bindR_eq_Inr)
    from survivors_open[OF _ this] ok have free: "\<exists>z. dup_view (replayEvents ?es) i = Some (z, None) \<and> z \<noteq> Duplicate"
      by (simp add: survivors_def)
    have "e_type e = ty" "e_aggregateId e = i" using e by (simp_all add: records_def part_def)
    with ty free ok have "survivors_ok (foldEvents (?es @ [e]))"
      unfolding survivors_fold replayEvents_snoc by (intro moved_survivors) (simp_all add: survivors_def survivors_fold)
    moreover have "\<forall>e' \<in> set es. e_type e' = ItemCreated"
      using es rest by (auto simp: records_def dest!: list_all2_setD2)
    ultimately have "survivors_ok (foldEvents ((?es @ [e]) @ es))"
      using demand_types_survivors[of "?es @ [e]" es] by simp
    then show ?thesis by (simp add: survivors_def s2 log evs)
  qed (use ok s2 in \<open>simp_all add: survivors_def\<close>)
qed

lemma records_member:
  assumes "records p e" and "wf_js (pt_payload p)" and "is_object (pt_payload p)" and "js_prop (pt_payload p) k \<noteq> Undef"
  shows "\<exists>w. materialize (js_prop (pt_payload p) k) = Inr w \<and> js_prop (e_payload e) k = norm_js w"
proof -
  obtain w where "materialize (pt_payload p) = Inr w" "e_payload e = norm_js w"
    using assms(1) by (auto simp: records_def)
  with materialized_prop[OF this(1) assms(2,3), of k] assms(4) show ?thesis by auto
qed

lemma demand_ref_reads_back:
  assumes "materialize (demand_ref_js r) = Inr w"
  shows "demand_ref_of (norm_js w) = Some r"
proof -
  have "wf_js (demand_ref_js r)" by (rule wf_js_pieces)
  moreover have "is_object (demand_ref_js r)" by (cases r) (simp_all add: demand_ref_js_def)
  ultimately have member: "js_prop w k = Str x" if "js_prop (demand_ref_js r) k = Str x" for k x
    using materialized_prop[OF assms, of k] that by simp
  show ?thesis
    using member[of "''kind''"] member[of "''id''"]
    by (cases r) (simp_all add: demand_ref_js_def demand_ref_of_def)
qed

lemma disposed_reads_back:
  assumes rec: "records (part ADemand i DemandDisposition p) e" and wf: "wf_js p" and o: "is_object p"
    and dup: "js_prop p ''duplicateOf'' = given (map_option demand_ref_js ref) Undef"
    and out: "js_prop p ''outcome'' = disposition_outcome_js z"
  shows "opt demand_ref_of (js_prop (e_payload e) ''duplicateOf'') = Some ref"
    and "enum_of DISPOSITION_OUTCOMES (js_prop (e_payload e) ''outcome'') = Some z"
proof -
  let ?p = "part ADemand i DemandDisposition p"
  have p: "wf_js (pt_payload ?p)" "is_object (pt_payload ?p)" "pt_payload ?p = p"
    using wf o by (simp_all add: part_def)
  show "opt demand_ref_of (js_prop (e_payload e) ''duplicateOf'') = Some ref"
  proof (cases ref)
    case None
    then show ?thesis
      using records_prop(2)[OF rec p(1,2), of "''duplicateOf''"] dup by (simp add: p(3))
  next
    case (Some r)
    then obtain w where w: "materialize (demand_ref_js r) = Inr w" "js_prop (e_payload e) ''duplicateOf'' = norm_js w"
      using records_member[OF rec p(1,2), of "''duplicateOf''"] dup by (auto simp: p(3))
    from demand_ref_reads_back[OF w(1)] show ?thesis
      using materialize_data[OF w(1)] by (simp add: opt_def w(2) Some)
  qed
  have "\<exists>x. disposition_outcome_js z = Str x" by (cases z) simp_all
  then have "js_prop (e_payload e) ''outcome'' = disposition_outcome_js z"
    using records_prop(1)[OF rec p(1,2), of "''outcome''"] out by (auto simp: p(3))
  then show "enum_of DISPOSITION_OUTCOMES (js_prop (e_payload e) ''outcome'') = Some z" by simp
qed

lemma guarded_survivor:
  assumes "survivors_ok st" and "keyed_state st" and "dispose_guard i ODuplicate (Some (DemandRef r)) st = Inr d"
  shows "r \<noteq> i \<and> (\<exists>z. dup_view st r = Some (z, None))"
proof -
  from assms(3) have guard: "demand_guard i Duplicate st = Inr d"
      and cont: "assertDuplicateContainment st d (Some (DemandRef r)) = Inr ()"
    by (auto simp: dispose_guard_def bindR_eq_Inr)
  have "jget (st_demands st) i = Some d"
    using guard by (auto simp: demand_guard_def bindR_eq_Inr get_or_def split: option.splits)
  then have "dem_id d = i"
    using jget_mem keyed_stateD(8)[OF assms(2)] by (fastforce simp: keyed_def list_all_iff)
  with cont obtain x where "r \<noteq> i" "jget (st_demands st) r = Some x" "dem_status x \<noteq> Duplicate"
    by (auto simp: assertDuplicateContainment_def bindR_eq_Inr require_def get_or_def split: option.splits if_splits)
  with assms(1) show ?thesis
    by (cases "dem_duplicateOf x") (auto simp: survivors_ok_def dup_view_def)
qed

lemma dispose_keeps:
  assumes disk: "en_disk env = honest" and wf: "wf_js p" and o: "is_object p"
    and dup: "js_prop p ''duplicateOf'' = given (map_option demand_ref_js ref) Undef"
    and out: "js_prop p ''outcome'' = disposition_outcome_js z"
  shows "keeps survivors (withDemandRecheck (dispose_recheck i z ref) (doneC (emit env ADemand i DemandDisposition p)))"
  unfolding keeps_def
proof (intro allI impI)
  fix s r s'
  assume ok: "survivors (se_store s)"
    and run: "withDemandRecheck (dispose_recheck i z ref) (doneC (emit env ADemand i DemandDisposition p)) s = (r, s')"
  let ?s = "s\<lparr>se_recheck := Some (dispose_recheck i z ref)\<rparr>" and ?es = "events_of (se_store s)"
  from rechecked_run[OF run] obtain s2 where run2: "doneC (emit env ADemand i DemandDisposition p) ?s = (r, s2)"
    and s2: "se_store s' = se_store s2" by blast
  from doneC_run[OF run2] obtain r' where run3: "emit env ADemand i DemandDisposition p ?s = (r', s2)" by blast
  from emit_critical[OF disk wf run3] show "survivors (se_store s')"
  proof (elim disjE exE conjE)
    fix e inputs
    assume log: "events_of (se_store s2) = events_of (se_store ?s) @ [e]"
      and rec: "records (part ADemand i DemandDisposition p) e"
      and hook: "case se_recheck ?s of None \<Rightarrow> True | Some hook \<Rightarrow> hook inputs (events_of (se_store ?s)) = Inr ()"
    from hook obtain d where guard: "dispose_guard i z ref (foldEvents ?es) = Inr d"
      by (auto simp: dispose_recheck_def bindR_eq_Inr)
    then have "demand_guard i (outcome_status z) (foldEvents ?es) = Inr d"
      by (auto simp: dispose_guard_def bindR_eq_Inr split: if_splits)
    from survivors_open[OF _ this] ok have free: "\<exists>z. dup_view (replayEvents ?es) i = Some (z, None) \<and> z \<noteq> Duplicate"
      by (simp add: survivors_def)
    have e: "e_type e = DemandDisposition" "e_aggregateId e = i" using rec by (simp_all add: records_def part_def)
    note reads = disposed_reads_back[OF rec wf o dup out]
    have "survivors_ok (applyEvent e (replayEvents ?es))"
    proof (rule closed_survivors[OF _ _ e(1) reads(2)])
      show "survivors_ok (replayEvents ?es)" using ok by (simp add: survivors_def survivors_fold)
      show "\<exists>z. dup_view (replayEvents ?es) (e_aggregateId e) = Some (z, None) \<and> z \<noteq> Duplicate"
        using free by (simp add: e)
      show "t \<noteq> e_aggregateId e \<and> (\<exists>z'. dup_view (replayEvents ?es) t = Some (z', None))"
        if "z = ODuplicate" "opt demand_ref_of (js_prop (e_payload e) ''duplicateOf'') = Some (Some (DemandRef t))" for t
        using guarded_survivor[OF _ foldEvents_keyed, of ?es i t d] guard ok that reads(1) e(2) by (simp add: survivors_def)
    qed
    then show ?thesis by (simp add: survivors_def s2 log survivors_fold replayEvents_snoc del: applyEvent.simps)
  qed (use ok s2 in \<open>simp_all add: survivors_def\<close>)
qed

lemma promotion_type: "pt_type (promotion_part d dd i it) = ItemCreated"
  by (simp add: promotion_part_def part_def)

lemma demand_calls_keep:
  assumes "en_disk env = honest"
  shows "keeps survivors (claimDemand env i h l)" and "keeps survivors (agreeDemand env i h its q l)"
    and "keeps survivors (disposeDemand env i inp)"
proof -
  have "keeps survivors (withDemandRecheck (demand_recheck i Qualifying)
      (emitBatch env [part ADemand i DemandQualifyingStarted (obj [(''handler'', Some (Str hd)), (''leaseId'', map_option Str l)])]))" for hd
    by (rule move_keeps[OF assms, where T = "{DemandQualifyingStarted}"]) (simp_all add: wf_js_obj wf_payloads)
  then have "keeps survivors (withDemandRecheck (demand_recheck i Qualifying)
      (doneC (emit env ADemand i DemandQualifyingStarted (obj [(''handler'', Some (Str hd)), (''leaseId'', map_option Str l)]))))" for hd
    unfolding emit_def keeps_def withDemandRecheck_def doneC_def bindC_def returnC_def
    by (fastforce split: prod.splits sum.splits)
  then show "keeps survivors (claimDemand env i h l)"
    unfolding claimDemand_def transitionDemand_def by (intro keeps_bind keeps_reading)
  have "keeps survivors (withDemandRecheck (demand_recheck i Agreed)
      (emitBatch env (part ADemand i DemandAgreed p # map2 (promotion_part i d) ids its)))" if "wf_js p" for p d ids
    by (rule move_keeps[OF assms, where T = "{DemandAgreed, ItemCreated}"])
      (use that in \<open>auto simp: wf_map2 wf_payloads promotion_type\<close>)
  then show "keeps survivors (agreeDemand env i h its q l)"
    unfolding agreeDemand_def by (intro keeps_bind keeps_then keeps_reading) (simp add: wf_js_obj wf_payloads)
  show "keeps survivors (disposeDemand env i inp)"
    unfolding disposeDemand_def by (intro keeps_bind keeps_then keeps_reading dispose_keeps assms wf_js_obj) (simp_all add: wf_payloads)
qed

lemma calls_survivors:
  assumes disk: "en_disk env = honest" and wf: "wf_call c" and snd: "sound (en_host env) (se_store s)"
    and ok: "survivors (se_store s)" and run: "perform env c s = (r, s')"
  shows "survivors (se_store s')"
proof (cases "{DemandQualifyingStarted, DemandAgreed, DemandDisposition} \<inter> emitted_types c = {}")
  case True
  obtain new where "events_of (se_store s') = events_of (se_store s) @ new" "\<forall>e \<in> set new. e_type e \<in> emitted_types c"
    using perform_step[OF disk wf snd] run by (auto simp: extends_def)
  moreover from this(2) True have "\<forall>e \<in> set new. e_type e \<notin> {DemandQualifyingStarted, DemandAgreed, DemandDisposition}"
    by auto
  ultimately show ?thesis
    using demand_types_survivors[of "events_of (se_store s)" new] ok by (simp add: survivors_def)
next
  case False
  then have "keeps survivors (perform env c)"
    by (cases c) (auto simp: keeps_done demand_calls_keep[OF disk])
  from keepsD[OF this ok run] show ?thesis .
qed

section \<open>Properties\<close>

text \<open>C31. The critical section of \<open>assignCode\<close> keeps the codes of containers unique whatever its guard had
  read: if no two containers share a code when the event is appended, none do afterwards, because the
  recheck looks the code up in the log the event extends.\<close>

theorem code_unique_under_lock:
  assumes "en_disk env = honest" and "codes_unique (state_of s)"
    and "withDemandRecheck (code_recheck i c)
       (tokened tk (doneC (emit env AItem i ItemCodeAssigned (obj [(''code'', Some (Str c))])))) s = (r, s')"
  shows "codes_unique (state_of s')"
  using keepsD[OF assign_keeps[OF assms(1)] _ assms(3)] assms(2) by (simp add: state_of_def)

theorem code_unique_under_lock_witness:
  "\<exists>r s'. withDemandRecheck (code_recheck ''i1'' ''WP1'')
       (tokened None (doneC (emit sample_env AItem ''i1'' ItemCodeAssigned (obj [(''code'', Some (Str ''WP1''))]))))
       sample_session = (r, s') \<and> codes_unique (state_of s')"
proof -
  obtain r s' where run: "withDemandRecheck (code_recheck ''i1'' ''WP1'')
       (tokened None (doneC (emit sample_env AItem ''i1'' ItemCodeAssigned (obj [(''code'', Some (Str ''WP1''))]))))
       sample_session = (r, s')"
    by fastforce
  have "codes_unique (state_of sample_session)"
    by (simp add: codes_unique_iff coded_def view_def state_of_def sample_session_def empty_events foldEvents_def computeOpen_def
        replayEvents_def emptyState_def)
  from run code_unique_under_lock[OF sample_facade(1) this run] show ?thesis by blast
qed

text \<open>Every call of the facade keeps the codes of the containers unique.\<close>

theorem calls_keep_codes_unique:
  assumes "en_disk env = honest" and "wf_call c" and "sound (en_host env) (se_store s)"
    and "codes_unique (state_of s)" and "perform env c s = (r, s')"
  shows "codes_unique (state_of s')"
  by (rule calls_codes[OF assms])

theorem calls_keep_codes_unique_witness:
  "\<exists>r s'. perform sample_env (SetRole ''i1'' Stream None) sample_session = (r, s') \<and> codes_unique (state_of s')"
proof -
  obtain r s' where run: "perform sample_env (SetRole ''i1'' Stream None) sample_session = (r, s')" by fastforce
  have uniq: "codes_unique (state_of sample_session)"
    by (simp add: codes_unique_iff coded_def view_def state_of_def sample_session_def empty_events foldEvents_def computeOpen_def
        replayEvents_def emptyState_def)
  have wf: "wf_call (SetRole ''i1'' Stream None)" and snd: "sound (en_host sample_env) (se_store sample_session)"
    by simp_all
  from run calls_keep_codes_unique[OF sample_facade(1) wf snd uniq run] show ?thesis by blast
qed

text \<open>C32. Every call of the facade keeps the duplicates of demands in order: only a demand closed as a
  duplicate names a survivor, and following the survivors never comes back to a demand, so no group of
  demands is closed as duplicates of each other without one that remains.\<close>

theorem calls_keep_survivors:
  assumes "en_disk env = honest" and "wf_call c" and "sound (en_host env) (se_store s)"
    and "survivors_ok (state_of s)" and "perform env c s = (r, s')"
  shows "survivors_ok (state_of s')"
  using calls_survivors[OF assms(1-3) _ assms(5)] assms(4) by (simp add: survivors_def state_of_def)

theorem calls_keep_survivors_witness:
  "\<exists>r s'. perform sample_env (ClaimDemand ''d1'' None None) sample_session = (r, s') \<and> survivors_ok (state_of s')"
proof -
  obtain r s' where run: "perform sample_env (ClaimDemand ''d1'' None None) sample_session = (r, s')" by fastforce
  have ok: "survivors_ok (state_of sample_session)"
    by (simp add: survivors_ok_def duplicates_def dup_view_def state_of_def sample_session_def empty_events
        foldEvents_def computeOpen_def replayEvents_def emptyState_def acyclic_def)
  have wf: "wf_call (ClaimDemand ''d1'' None None)" and snd: "sound (en_host sample_env) (se_store sample_session)"
    by simp_all
  from run calls_keep_survivors[OF sample_facade(1) wf snd ok run] show ?thesis by blast
qed

end
