(* ===== verification/Rollup_Laws.thy ===== *)
theory Rollup_Laws
  imports Rollup Uniqueness "HOL-Library.Multiset"
begin

text \<open>
  The recursions of the roll-up: they return whenever the parents are acyclic, every node counts the leaves
  it holds and those of its children, the leaves of a node are the leaf items below its container, the
  percentages are bounded and close to the exact ratio, and a derived label is never a claimed code.
\<close>

section \<open>Lists of optional results\<close>

lemma those_Some: "those (map f xs) = Some ys \<longleftrightarrow> list_all2 (\<lambda>x y. f x = Some y) xs ys"
proof (induction xs arbitrary: ys)
  case (Cons x xs)
  show ?case by (cases ys) (auto simp: Cons split: option.splits)
qed auto

lemma those_all: "(\<And>x. x \<in> set xs \<Longrightarrow> \<exists>y. f x = Some y) \<Longrightarrow> \<exists>ys. those (map f xs) = Some ys"
  by (induction xs) (auto split: option.split)

lemma those_map2: "those (map2 f xs ys) = Some zs \<longleftrightarrow> list_all2 (\<lambda>p z. f (fst p) (snd p) = Some z) (zip xs ys) zs"
  using those_Some[of "\<lambda>p. f (fst p) (snd p)" "zip xs ys" zs] by (simp add: case_prod_unfold)

lemma in_map_filter: "y \<in> set (List.map_filter f xs) \<longleftrightarrow> (\<exists>x \<in> set xs. f x = Some y)"
  by (induction xs) (auto simp: map_filter_simps split: option.splits)

section \<open>Children\<close>

lemma set_insort_by [simp]: "set (insort_by le x ys) = insert x (set ys)"
  by (induction ys) auto

lemma set_sort_items [simp]: "set (sort_items le xs) = set xs"
  by (induction xs) (simp_all add: sort_items_def)

lemma set_childrenOf: "set (childrenOf st le p) = {i \<in> set (jvals (st_items st)). item_parentId i = Some p}"
  by (auto simp: childrenOf_def)

lemma keyed_item: "keyed_state st \<Longrightarrow> x \<in> set (jvals (st_items st)) \<longleftrightarrow> jget (st_items st) (item_id x) = Some x"
  using keyed_stateD(1)[of st]
  by (auto simp: keyed_def list_all_iff jvals_def jget_mem_iff intro: rev_image_eqI)

lemma child_parent:
  "keyed_state st \<Longrightarrow> c \<in> set (childrenOf st le p) \<Longrightarrow> (item_id c, p) \<in> parents st \<and> jget (st_items st) (item_id c) = Some c"
  by (auto simp: set_childrenOf keyed_item parents_def parent_in_def)

lemma parent_child:
  "keyed_state st \<Longrightarrow> (i, p) \<in> parents st \<Longrightarrow> \<exists>c \<in> set (childrenOf st le p). item_id c = i \<and> jget (st_items st) i = Some c"
proof -
  assume keyed: "keyed_state st" and "(i, p) \<in> parents st"
  then obtain c where c: "jget (st_items st) i = Some c" "item_parentId c = Some p"
    by (auto simp: parents_def parent_in_def bind_eq_Some_conv)
  then have "item_id c = i"
    using jget_mem keyed_stateD(1)[OF keyed] by (fastforce simp: keyed_def list_all_iff)
  with c keyed show ?thesis by (auto simp: set_childrenOf keyed_item)
qed

section \<open>Enough fuel\<close>

definition below :: "state \<Rightarrow> ulid \<Rightarrow> ulid set" where
  "below st p = {c. (c, p) \<in> (parents st)\<^sup>+}"

lemma finite_below: "finite (below st p)"
proof (rule finite_subset)
  show "below st p \<subseteq> Domain (parents st)" by (auto simp: below_def dest: tranclD)
qed (simp add: finite_parents finite_Domain)

lemma below_child:
  assumes "acyclic (parents st)" and "(c, p) \<in> parents st"
  shows "card (below st c) < card (below st p)"
proof (rule psubset_card_mono[OF finite_below])
  have "below st c \<subseteq> below st p" using assms(2) by (auto simp: below_def intro: trancl_into_trancl)
  moreover have "c \<in> below st p" "c \<notin> below st c"
    using assms by (auto simp: below_def acyclic_def)
  ultimately show "below st c \<subset> below st p" by blast
qed

lemma card_below: "keyed_state st \<Longrightarrow> card (below st p) \<le> length (st_items st)"
proof -
  assume "keyed_state st"
  have "below st p \<subseteq> fst ` set (st_items st)"
    by (auto simp: below_def parents_def parent_in_def bind_eq_Some_conv dest!: tranclD jget_mem intro: rev_image_eqI)
  then have "card (below st p) \<le> card (fst ` set (st_items st))" by (rule card_mono[rotated]) simp
  also have "\<dots> \<le> length (st_items st)" using card_image_le[of "set (st_items st)" fst] card_length[of "st_items st"] by simp
  finally show ?thesis .
qed

lemma directLeaves_returns:
  assumes "keyed_state st" and "acyclic (parents st)"
  shows "card (below st p) < n \<Longrightarrow> \<exists>ls. directLeaves n (childrenOf st le) leaf p = Some ls"
proof (induction n arbitrary: p)
  case (Suc n)
  have "\<exists>y. (if isWp c then Some [] else if childrenOf st le (item_id c) = [] then Some [leaf c]
      else directLeaves n (childrenOf st le) leaf (item_id c)) = Some y" if "c \<in> set (childrenOf st le p)" for c
    using Suc.IH[of "item_id c"] below_child[OF assms(2)] child_parent[OF assms(1) that] Suc.prems by fastforce
  from those_all[OF this] show ?case by auto
qed simp

lemma collectSubWps_returns:
  assumes "keyed_state st" and "acyclic (parents st)"
  shows "card (below st p) < n \<Longrightarrow> \<exists>ls. collectSubWps n (childrenOf st le) p = Some ls"
proof (induction n arbitrary: p)
  case (Suc n)
  have "\<exists>y. (if isWp c then Some [c] else collectSubWps n (childrenOf st le) (item_id c)) = Some y"
    if "c \<in> set (childrenOf st le p)" for c
    using Suc.IH[of "item_id c"] below_child[OF assms(2)] child_parent[OF assms(1) that] Suc.prems by fastforce
  from those_all[OF this] show ?case by auto
qed simp

lemma collected_below:
  assumes "keyed_state st"
  shows "collectSubWps n (childrenOf st le) p = Some subs \<Longrightarrow> s \<in> set subs \<Longrightarrow>
    isWp s \<and> jget (st_items st) (item_id s) = Some s \<and> (item_id s, p) \<in> (parents st)\<^sup>+"
proof (induction n arbitrary: p subs)
  case (Suc n)
  from Suc.prems obtain xss where xss: "list_all2 (\<lambda>c y. (if isWp c then Some [c] else
      collectSubWps n (childrenOf st le) (item_id c)) = Some y) (childrenOf st le p) xss" and subs: "subs = concat xss"
    by (auto simp: those_Some)
  from Suc.prems(2) obtain ys where ys: "ys \<in> set xss" "s \<in> set ys" by (auto simp: subs)
  from list_all2_setD2[OF xss ys(1)] obtain c where c: "c \<in> set (childrenOf st le p)"
      and y: "(if isWp c then Some [c] else collectSubWps n (childrenOf st le) (item_id c)) = Some ys" by blast
  note edge = child_parent[OF assms c]
  show ?case
  proof (cases "isWp c")
    case True
    with y ys(2) edge show ?thesis by auto
  next
    case False
    with y Suc.IH[of "item_id c" ys] ys(2) have "isWp s \<and> jget (st_items st) (item_id s) = Some s \<and>
        (item_id s, item_id c) \<in> (parents st)\<^sup>+" by simp
    with edge show ?thesis by (meson trancl.trancl_into_trancl)
  qed
qed simp

lemma below_trancl:
  assumes "acyclic (parents st)" and "(c, p) \<in> (parents st)\<^sup>+"
  shows "card (below st c) < card (below st p)"
  using assms(2)
  by (induction rule: trancl_induct) (auto intro: below_child[OF assms(1)] less_trans)

lemma buildNode_returns:
  assumes "keyed_state st" and "acyclic (parents st)"
  shows "card (below st (item_id wp)) + 1 < n \<Longrightarrow> \<exists>t. buildNode n (childrenOf st le) leaf wp label = Some t"
proof (induction n arbitrary: wp label)
  case (Suc n)
  then have "card (below st (item_id wp)) < n" by simp
  then obtain ls subs where ls: "directLeaves n (childrenOf st le) leaf (item_id wp) = Some ls"
      and subs: "collectSubWps n (childrenOf st le) (item_id wp) = Some subs"
    using directLeaves_returns[OF assms] collectSubWps_returns[OF assms] by metis
  have "\<exists>t. buildNode n (childrenOf st le) leaf s l = Some t" if "s \<in> set subs" for s l
    using collected_below[OF assms(1) subs that] below_trancl[OF assms(2)] Suc.prems by (intro Suc.IH) fastforce
  then have "\<exists>ts. those (map2 (\<lambda>k c. buildNode n (childrenOf st le) leaf c (sub_label label k c)) [1..<Suc (length subs)] subs) = Some ts"
    by (intro those_all) (auto dest: set_zip_rightD)
  with ls subs show ?case by (auto simp del: upt_Suc)
qed simp

lemma computeWpTree_returns:
  assumes "keyed_state st" and "acyclic (parents st)"
  shows "\<exists>t. computeWpTree st config le = Some t"
proof -
  have "\<exists>t. buildNode (tree_fuel st) (childrenOf st le) leaf wp label = Some t" for leaf wp label
    using card_below[OF assms(1), of "item_id wp"] by (intro buildNode_returns[OF assms]) (simp add: tree_fuel_def)
  then show ?thesis
    unfolding computeWpTree_def by (intro those_all) auto
qed

section \<open>Sums\<close>

fun all_leaves :: "wp_node \<Rightarrow> wp_leaf list" where
  "all_leaves (WpNode i t l c r d a x p leaves children tm pt) = leaves @ concat (map all_leaves children)"

fun nodes :: "wp_node \<Rightarrow> wp_node list" where
  "nodes (WpNode i t l c r d a x p leaves children tm pt) =
     WpNode i t l c r d a x p leaves children tm pt # concat (map nodes children)"

definition in_bucket :: "(bucket \<Rightarrow> bool) \<Rightarrow> wp_leaf list \<Rightarrow> nat" where
  "in_bucket P ls = length (filter (\<lambda>l. P (lf_bucket l)) ls)"

lemma in_bucket_simps [simp]:
  "in_bucket P [] = 0" "in_bucket P (xs @ ys) = in_bucket P xs + in_bucket P ys"
  "in_bucket P (concat xss) = sum_list (map (in_bucket P) xss)"
  by (simp add: in_bucket_def, simp add: in_bucket_def, induction xss) (simp_all add: in_bucket_def)

lemma tally_from:
  "ct_done (fold tally_step ls c) = ct_done c + in_bucket (\<lambda>b. b = DoneBucket) ls \<and>
   ct_active (fold tally_step ls c) = ct_active c + in_bucket (\<lambda>b. b \<noteq> Dropped) ls \<and>
   ct_dropped (fold tally_step ls c) = ct_dropped c + in_bucket (\<lambda>b. b = Dropped) ls"
proof (induction ls arbitrary: c)
  case (Cons l ls)
  show ?case
    unfolding fold.simps comp_def using Cons.IH[of "tally_step l c"]
    by (cases "lf_bucket l") (simp_all add: in_bucket_def tally_step_def[of l c])
qed simp

lemma tally_counts:
  "ct_done (tally ls) = in_bucket (\<lambda>b. b = DoneBucket) ls"
  "ct_active (tally ls) = in_bucket (\<lambda>b. b \<noteq> Dropped) ls"
  "ct_dropped (tally ls) = in_bucket (\<lambda>b. b = Dropped) ls"
  using tally_from[of ls "\<lparr>ct_done = 0, ct_active = 0, ct_dropped = 0\<rparr>"] by (simp_all add: tally_def)

text \<open>A node counts the leaves below it, each of them once.\<close>

definition counts_leaves :: "wp_node \<Rightarrow> bool" where
  "counts_leaves n \<longleftrightarrow>
     nd_done n = in_bucket (\<lambda>b. b = DoneBucket) (all_leaves n) \<and>
     nd_active n = in_bucket (\<lambda>b. b \<noteq> Dropped) (all_leaves n) \<and>
     nd_dropped n = in_bucket (\<lambda>b. b = Dropped) (all_leaves n) \<and>
     nd_pct n = pct_of (nd_done n) (nd_active n)"

lemma node_self: "n \<in> set (nodes n)"
  by (cases n) simp

lemma sums_of_children:
  assumes "\<forall>c \<in> set cs. counts_leaves c"
  shows "sum_list (map nd_done cs) = sum_list (map (\<lambda>c. in_bucket (\<lambda>b. b = DoneBucket) (all_leaves c)) cs)"
    and "sum_list (map nd_active cs) = sum_list (map (\<lambda>c. in_bucket (\<lambda>b. b \<noteq> Dropped) (all_leaves c)) cs)"
    and "sum_list (map nd_dropped cs) = sum_list (map (\<lambda>c. in_bucket (\<lambda>b. b = Dropped) (all_leaves c)) cs)"
  using assms by (simp_all add: counts_leaves_def cong: map_cong)

lemma counts_node:
  assumes "\<forall>c \<in> set cs. counts_leaves c"
    and "d = ct_done (tally ls) + sum_list (map nd_done cs)" and "a = ct_active (tally ls) + sum_list (map nd_active cs)"
    and "x = ct_dropped (tally ls) + sum_list (map nd_dropped cs)"
  shows "counts_leaves (WpNode i t l c r d a x (pct_of d a) ls cs tm pt)"
  using sums_of_children[OF assms(1)] assms(2-4)
  by (simp add: counts_leaves_def tally_counts comp_def)

lemma buildNode_counts:
  "buildNode n kids leaf wp label = Some t \<Longrightarrow> \<forall>m \<in> set (nodes t). counts_leaves m"
proof (induction n arbitrary: wp label t)
  case (Suc n)
  from Suc.prems obtain ls subs ts where
      ts: "those (map2 (\<lambda>k c. buildNode n kids leaf c (sub_label label k c)) [1..<Suc (length subs)] subs) = Some ts"
      and t: "t = assemble wp label ls ts"
    by (auto simp: bind_eq_Some_conv simp del: upt_Suc)
  have "\<forall>m \<in> set (nodes c). counts_leaves m" if "c \<in> set ts" for c
    using list_all2_setD2[OF ts[unfolded those_map2] that] Suc.IH by blast
  moreover from this have "\<forall>c \<in> set ts. counts_leaves c" using node_self by blast
  ultimately show ?case
    unfolding t assemble_def Let_def by (auto intro: counts_node)
qed simp

lemma done_active: "in_bucket (\<lambda>b. b = DoneBucket) ls \<le> in_bucket (\<lambda>b. b \<noteq> Dropped) ls"
  unfolding in_bucket_def by (induction ls) auto

section \<open>Percentages\<close>

lemma ulp_below:
  assumes "0 < q" and "q < 2 powi (k + 1)" and "-1022 \<le> k"
  shows "ulp q \<le> 2 powi (k - 52)"
proof -
  have "2 powi (binexp q) < (2 :: rat) powi (k + 1)" using binexp_bounds(1)[OF assms(1)] assms(2) by (rule le_less_trans)
  then have "binexp q < k + 1"
    using power_int_increasing[of "k + 1" "binexp q" "2 :: rat"] by (cases "binexp q < k + 1") simp_all
  then have "max (binexp \<bar>q\<bar> - 52) (-1074) \<le> k - 52" using assms(1,3) by simp
  then show ?thesis unfolding ulp_def by (rule power_int_increasing) simp
qed

lemma rounded_error: "0 \<le> q \<Longrightarrow> q < 2 powi (k + 1) \<Longrightarrow> -1022 \<le> k \<Longrightarrow> \<bar>rounded q - q\<bar> \<le> 2 powi (k - 52) / 2"
  using rounded_close[of q] ulp_below[of q k] by (cases "q = 0") (auto simp: rounded_def intro: order_trans)

lemma pct_value:
  assumes "0 < a" and "d \<le> a" and "a < 2 ^ 53"
  shows "\<exists>k :: int. pct_of d a = Percent (Fin (of_int k)) \<and> 0 \<le> k \<and> k \<le> 100 \<and>
     \<bar>of_int k - 100 * of_nat d / of_nat a\<bar> \<le> (1 / 2 + 1 / 2 ^ 45 :: rat)"
proof -
  let ?q = "of_nat d / of_nat a :: rat"
  have q: "0 \<le> ?q" "?q \<le> of_nat 1" using assms by (simp_all add: divide_le_eq)
  define r where "r = rounded ?q"
  have r: "0 \<le> r" "r \<le> 1" using rounded_between[OF q] by (simp_all add: r_def)
  have q2: "?q < 2 powi (0 + 1)" using q by simp
  have er: "\<bar>r - ?q\<bar> \<le> 1 / 2 ^ 53"
    using rounded_error[OF q(1) q2] by (simp add: r_def power_int_minus)
  have x: "0 \<le> r * 100" "r * 100 \<le> of_nat 100" using r by simp_all
  define p where "p = rounded (r * 100)"
  have p: "0 \<le> p" "p \<le> 100" using rounded_between[OF x] by (simp_all add: p_def)
  have x2: "r * 100 < 2 powi (6 + 1)" using r by simp
  have ep: "\<bar>p - r * 100\<bar> \<le> 1 / 2 ^ 47"
    using rounded_error[OF x(1) x2] by (simp add: p_def power_int_minus)
  have "js_div (Fin (of_nat d)) (Fin (of_nat a)) = Fin r"
    using to_double_between[OF q] assms(1) by (simp add: r_def)
  moreover have "js_mul (Fin r) (Fin 100) = Fin p"
    using to_double_between[OF x] by (simp add: p_def)
  ultimately have pct: "pct_of d a = Percent (Fin (of_int \<lfloor>p + 1 / 2\<rfloor>))"
    using assms(1) by (simp add: pct_of_def del: js_div.simps js_mul.simps)
  have k: "0 \<le> \<lfloor>p + 1 / 2\<rfloor>" "\<lfloor>p + 1 / 2\<rfloor> \<le> 100" using p by linarith+
  have "\<bar>of_int \<lfloor>p + 1 / 2\<rfloor> - p\<bar> \<le> 1 / 2" by linarith
  moreover have close: "\<bar>p - 100 * z\<bar> \<le> 1 / 2 ^ 45" if "\<bar>r - z\<bar> \<le> 1 / 2 ^ 53" for z
  proof -
    have "\<bar>p - 100 * z\<bar> \<le> \<bar>p - r * 100\<bar> + 100 * \<bar>r - z\<bar>" by (simp add: abs_if)
    also have "\<dots> \<le> 1 / 2 ^ 47 + 100 * (1 / 2 ^ 53)" using that by (intro add_mono ep mult_left_mono) simp_all
    also have "\<dots> \<le> 1 / 2 ^ 45" by simp
    finally show ?thesis .
  qed
  from close[OF er] have "\<bar>p - 100 * ?q\<bar> \<le> 1 / 2 ^ 45" .
  moreover have "100 * ?q = 100 * of_nat d / of_nat a" by simp
  ultimately have "\<bar>of_int \<lfloor>p + 1 / 2\<rfloor> - 100 * of_nat d / of_nat a\<bar> \<le> (1 / 2 + 1 / 2 ^ 45 :: rat)" by linarith
  with pct k show ?thesis by (intro exI[of _ "\<lfloor>p + 1 / 2\<rfloor>"]) simp
qed

section \<open>Which leaves a node covers\<close>

text \<open>The items without children that are no containers, below an item.\<close>

definition leaf_item :: "state \<Rightarrow> ulid \<Rightarrow> bool" where
  "leaf_item st i \<longleftrightarrow> (\<exists>x. jget (st_items st) i = Some x \<and> \<not> isWp x) \<and> (\<nexists>c. (c, i) \<in> parents st)"

definition leaf_under :: "state \<Rightarrow> ulid \<Rightarrow> ulid \<Rightarrow> bool" where
  "leaf_under st i p \<longleftrightarrow> leaf_item st i \<and> (i, p) \<in> (parents st)\<^sup>+"

lemma no_children: "keyed_state st \<Longrightarrow> childrenOf st le i = [] \<longleftrightarrow> (\<nexists>c. (c, i) \<in> parents st)"
  using child_parent[of st _ le i] parent_child[of st _ i le] by (metis empty_iff empty_set last_in_set)

lemma leaf_under_step:
  assumes "keyed_state st"
  shows "leaf_under st i p \<longleftrightarrow>
    (\<exists>c \<in> set (childrenOf st le p). leaf_item st i \<and> i = item_id c \<or> leaf_under st i (item_id c))"
proof -
  have "(i, p) \<in> (parents st)\<^sup>+ \<longleftrightarrow> (\<exists>m. (m, p) \<in> parents st \<and> (i = m \<or> (i, m) \<in> (parents st)\<^sup>+))"
    by (auto elim: tranclE intro: trancl_into_trancl)
  also have "\<dots> \<longleftrightarrow> (\<exists>c \<in> set (childrenOf st le p). i = item_id c \<or> (i, item_id c) \<in> (parents st)\<^sup>+)"
    using child_parent[OF assms] parent_child[OF assms] by blast
  finally show ?thesis by (auto simp: leaf_under_def)
qed

lemma leaf_item_child: "keyed_state st \<Longrightarrow> c \<in> set (childrenOf st le p) \<Longrightarrow>
    leaf_item st (item_id c) \<longleftrightarrow> \<not> isWp c \<and> childrenOf st le (item_id c) = []"
  using child_parent[of st c le p] no_children[of st le "item_id c"] by (simp add: leaf_item_def)

lemma leaf_under_none: "keyed_state st \<Longrightarrow> childrenOf st le p = [] \<Longrightarrow> \<not> leaf_under st i p"
  using leaf_under_step[of st i p le] by simp

lemma split_results:
  assumes "list_all2 (\<lambda>c y. D c = Some y) ks yss" and "list_all2 (\<lambda>c z. S c = Some z) ks zss"
    and "\<And>c y z. c \<in> set ks \<Longrightarrow> D c = Some y \<Longrightarrow> S c = Some z \<Longrightarrow> A c \<longleftrightarrow> B y \<or> C z"
  shows "(\<exists>c \<in> set ks. A c) \<longleftrightarrow> (\<exists>y \<in> set yss. B y) \<or> (\<exists>z \<in> set zss. C z)"
  using assms
proof (induction ks arbitrary: yss zss)
  case (Cons k ks)
  from Cons.prems(1,2) obtain y ys z zs where "yss = y # ys" "zss = z # zs" "D k = Some y" "S k = Some z"
      "list_all2 (\<lambda>c y. D c = Some y) ks ys" "list_all2 (\<lambda>c z. S c = Some z) ks zs"
    by (auto simp: list_all2_Cons1)
  with Cons.IH[of ys zs] Cons.prems(3) show ?case by auto
qed simp

lemma leaves_split:
  assumes keyed: "keyed_state st" and leaf: "\<And>x. lf_id (leaf x) = item_id x"
  shows "directLeaves n (childrenOf st le) leaf p = Some ls \<Longrightarrow> collectSubWps n (childrenOf st le) p = Some subs \<Longrightarrow>
    leaf_under st i p \<longleftrightarrow> i \<in> lf_id ` set ls \<or> (\<exists>s \<in> set subs. leaf_under st i (item_id s))"
proof (induction n arbitrary: p ls subs)
  case (Suc n)
  let ?K = "childrenOf st le"
  let ?D = "\<lambda>c. if isWp c then Some [] else if ?K (item_id c) = [] then Some [leaf c] else directLeaves n ?K leaf (item_id c)"
  let ?S = "\<lambda>c. if isWp c then Some [c] else collectSubWps n ?K (item_id c)"
  from Suc.prems obtain yss zss where D: "list_all2 (\<lambda>c y. ?D c = Some y) (?K p) yss" "ls = concat yss"
      and S: "list_all2 (\<lambda>c z. ?S c = Some z) (?K p) zss" "subs = concat zss"
    by (auto simp: those_Some)
  have each: "leaf_item st i \<and> i = item_id c \<or> leaf_under st i (item_id c) \<longleftrightarrow>
      i \<in> lf_id ` set y \<or> (\<exists>s \<in> set z. leaf_under st i (item_id s))"
    if c: "c \<in> set (?K p)" and y: "?D c = Some y" and z: "?S c = Some z" for c y z
  proof -
    note lc = leaf_item_child[OF keyed c]
    consider "isWp c" | "\<not> isWp c" "?K (item_id c) = []" | "\<not> isWp c" "?K (item_id c) \<noteq> []" by blast
    then show ?thesis
    proof cases
      case 1
      with y z lc show ?thesis by auto
    next
      case 2
      then have "z = []" using z by (cases n) auto
      with 2 y lc leaf_under_none[OF keyed 2(2)] show ?thesis by (auto simp: leaf)
    next
      case 3
      with Suc.IH[of "item_id c" y z] y z lc show ?thesis by auto
    qed
  qed
  from split_results[OF D(1) S(1) each] show ?case
    unfolding leaf_under_step[OF keyed, of i p le] by (auto simp: D(2) S(2))
qed simp

lemma buildNode_covers:
  assumes keyed: "keyed_state st" and leaf: "\<And>x. lf_id (leaf x) = item_id x"
  shows "buildNode n (childrenOf st le) leaf wp label = Some t \<Longrightarrow>
    i \<in> lf_id ` set (all_leaves t) \<longleftrightarrow> leaf_under st i (item_id wp)"
proof (induction n arbitrary: wp label t)
  case (Suc n)
  let ?K = "childrenOf st le"
  from Suc.prems obtain ls subs ts where ls: "directLeaves n ?K leaf (item_id wp) = Some ls"
      and subs: "collectSubWps n ?K (item_id wp) = Some subs"
      and ts: "list_all2 (\<lambda>p z. buildNode n ?K leaf (snd p) (sub_label label (fst p) (snd p)) = Some z)
        (zip [1..<Suc (length subs)] subs) ts"
      and t: "t = assemble wp label ls ts"
    by (auto simp: bind_eq_Some_conv those_map2 simp del: upt_Suc)
  have "(\<exists>u \<in> set ts. i \<in> lf_id ` set (all_leaves u)) \<longleftrightarrow> (\<exists>s \<in> set subs. leaf_under st i (item_id s))"
  proof
    assume "\<exists>u \<in> set ts. i \<in> lf_id ` set (all_leaves u)"
    then obtain u where u: "u \<in> set ts" "i \<in> lf_id ` set (all_leaves u)" by blast
    from list_all2_setD2[OF ts u(1)] obtain q where "q \<in> set (zip [1..<Suc (length subs)] subs)"
        "buildNode n ?K leaf (snd q) (sub_label label (fst q) (snd q)) = Some u" by blast
    with Suc.IH u(2) show "\<exists>s \<in> set subs. leaf_under st i (item_id s)"
      by (metis prod.collapse set_zip_rightD)
  next
    assume "\<exists>s \<in> set subs. leaf_under st i (item_id s)"
    then obtain k where k: "k < length subs" "leaf_under st i (item_id (subs ! k))" by (auto simp: in_set_conv_nth)
    then have "(Suc k, subs ! k) \<in> set (zip [1..<Suc (length subs)] subs)"
      by (auto simp: set_zip nth_upt simp del: upt_Suc intro: exI[of _ k])
    from list_all2_setD1[OF ts this] k(2) Suc.IH show "\<exists>u \<in> set ts. i \<in> lf_id ` set (all_leaves u)"
      by fastforce
  qed
  with leaves_split[OF keyed leaf ls subs, of i] show ?case
    unfolding t assemble_def Let_def by (auto simp: image_Un)
qed simp

section \<open>Labels\<close>

lemma next_free_free: "next_free cl n \<notin> set cl \<and> n \<le> next_free cl n"
proof (induction cl n rule: next_free.induct)
  case (1 cl n)
  then show ?case by (cases "n \<in> set cl") (simp_all add: next_free.simps[of cl n])
qed

lemma claim_of_label: "claim_of pre (pre @ nat_str m) = Some m"
  using nat_str_digits[of m] nat_str_value[of m] nat_str_not_Nil[of m] by (simp add: claim_of_def)

definition derived :: "nat list \<Rightarrow> nat list \<Rightarrow> nat \<Rightarrow> nat \<Rightarrow> string \<Rightarrow> bool" where
  "derived cw cs w s l \<longleftrightarrow> (\<exists>m \<ge> w. m \<notin> set cw \<and> l = ''WP'' @ nat_str m) \<or> (\<exists>m \<ge> s. m \<notin> set cs \<and> l = ''S'' @ nat_str m)"

definition claims :: "nat list \<Rightarrow> nat list \<Rightarrow> string \<Rightarrow> bool" where
  "claims cw cs c \<longleftrightarrow> (\<forall>m. c = ''WP'' @ nat_str m \<longrightarrow> m \<in> set cw) \<and> (\<forall>m. c = ''S'' @ nat_str m \<longrightarrow> m \<in> set cs)"

lemma derived_not_claimed: "derived cw cs w s l \<Longrightarrow> \<not> claims cw cs l"
  by (auto simp: derived_def claims_def)

lemma derived_mono: "derived cw cs w s l \<Longrightarrow> w' \<le> w \<Longrightarrow> s' \<le> s \<Longrightarrow> derived cw cs w' s' l"
  unfolding derived_def using order_trans[of w' w] order_trans[of s' s] by blast

lemma rootLabels_each:
  "l \<in> set (rootLabels cw cs w s rs) \<Longrightarrow> (\<exists>r \<in> set rs. item_code r = Some l) \<or> derived cw cs w s l"
proof (induction cw cs w s rs rule: rootLabels.induct)
  case (2 cw cs w s r rs)
  have wp: "derived cw cs w s (''WP'' @ nat_str (next_free cw w))"
    and st: "derived cw cs w s (''S'' @ nat_str (next_free cs s))"
    unfolding derived_def using next_free_free[of cw w] next_free_free[of cs s] by blast+
  have up: "w \<le> Suc (next_free cw w)" "s \<le> Suc (next_free cs s)"
    using next_free_free[of cw w] next_free_free[of cs s] by auto
  show ?case
  proof (cases "item_code r")
    case (Some c)
    with 2 show ?thesis by auto
  next
    case None
    show ?thesis
    proof (cases "item_role r = Some Stream")
      case True
      with None "2.prems" consider "l = ''S'' @ nat_str (next_free cs s)" | "l \<in> set (rootLabels cw cs w (Suc (next_free cs s)) rs)"
        by auto
      then show ?thesis
        using "2.IH"(1)[OF None True] st derived_mono[OF _ order_refl up(2)] by cases auto
    next
      case False
      with None "2.prems" consider "l = ''WP'' @ nat_str (next_free cw w)" | "l \<in> set (rootLabels cw cs (Suc (next_free cw w)) s rs)"
        by auto
      then show ?thesis
        using "2.IH"(2)[OF None False] wp derived_mono[OF _ up(1) order_refl] by cases auto
    qed
  qed
qed simp

lemma labels_apart: "''S'' @ nat_str m \<noteq> ''WP'' @ nat_str n" "''WP'' @ nat_str n \<noteq> ''S'' @ nat_str m"
  by simp_all

lemma not_derived_stream: "\<not> derived cw cs w (Suc n) (''S'' @ nat_str n)"
  by (auto simp: derived_def)

lemma not_derived_wp: "\<not> derived cw cs (Suc n) s (''WP'' @ nat_str n)"
  by (auto simp: derived_def)

lemma rootLabels_distinct:
  "distinct (List.map_filter item_code rs) \<Longrightarrow> \<forall>r \<in> set rs. \<forall>c. item_code r = Some c \<longrightarrow> claims cw cs c \<Longrightarrow>
   distinct (rootLabels cw cs w s rs)"
proof (induction cw cs w s rs rule: rootLabels.induct)
  case (2 cw cs w s r rs)
  have coded: "c \<noteq> l" if "x \<in> set rs" "item_code x = Some c" "derived cw cs w s l" for x c l
    using that "2.prems"(2) derived_not_claimed by fastforce
  show ?case
  proof (cases "item_code r")
    case (Some c)
    have "c \<notin> set (rootLabels cw cs w s rs)"
      using rootLabels_each[of c cw cs w s rs] derived_not_claimed[of cw cs w s c] "2.prems" Some
      by (force simp: map_filter_simps in_map_filter)
    with Some "2.IH"(3)[OF Some] "2.prems" show ?thesis by (simp add: map_filter_simps)
  next
    case None
    note wp = next_free_free[of cw w] and st = next_free_free[of cs s]
    show ?thesis
    proof (cases "item_role r = Some Stream")
      case True
      have "''S'' @ nat_str (next_free cs s) \<notin> set (rootLabels cw cs w (Suc (next_free cs s)) rs)"
        using rootLabels_each[of "''S'' @ nat_str (next_free cs s)" cw cs w "Suc (next_free cs s)" rs] not_derived_stream
          coded[of _ "''S'' @ nat_str (next_free cs s)"] st by (auto simp: derived_def)
      with None True "2.IH"(1)[OF None True] "2.prems" show ?thesis by (simp add: map_filter_simps)
    next
      case False
      have "''WP'' @ nat_str (next_free cw w) \<notin> set (rootLabels cw cs (Suc (next_free cw w)) s rs)"
        using rootLabels_each[of "''WP'' @ nat_str (next_free cw w)" cw cs "Suc (next_free cw w)" s rs] not_derived_wp
          coded[of _ "''WP'' @ nat_str (next_free cw w)"] wp by (auto simp: derived_def)
      with None False "2.IH"(2)[OF None False] "2.prems" show ?thesis by (simp add: map_filter_simps)
    qed
  qed
qed simp

lemma claimed_claims: "x \<in> set (jvals (st_items st)) \<Longrightarrow> isWp x \<Longrightarrow> item_code x = Some c \<Longrightarrow>
    claims (claimed st ''WP'') (claimed st ''S'') c"
  using claim_of_label[of "''WP''"] claim_of_label[of "''S''"]
  by (auto simp: claims_def claimed_def in_map_filter intro!: bexI[of _ x])

end
