(* ===== verification/Rollup_Exact.thy ===== *)
theory Rollup_Exact
  imports Rollup_Laws
begin

text \<open>
  The counts of the roll-up against the state: a node of the tree counts each leaf item below its container
  exactly once, in the bucket the state puts it in. The leaves directly at a node and those of the
  containers below it are taken apart by two walks over the children; the pieces are disjoint because the
  parents form a forest.
\<close>

section \<open>Each leaf once\<close>

lemma map_option_those: "map_option (map h) (those xs) = those (map (map_option h) xs)"
proof (induction xs)
  case (Cons x xs)
  then show ?case by (cases x) (simp_all add: option.map_comp comp_def flip: Cons)
qed simp

definition leaves_of :: "nat \<Rightarrow> (ulid \<Rightarrow> item_state list) \<Rightarrow> (item_state \<Rightarrow> wp_leaf) \<Rightarrow> item_state \<Rightarrow> wp_leaf list option" where
  "leaves_of n kids leaf wp = map_option all_leaves (buildNode n kids leaf wp [])"

lemma all_leaves_assemble: "all_leaves (assemble wp label ls ts) = ls @ concat (map all_leaves ts)"
  by (simp add: assemble_def Let_def)

lemma leaves_of_label: "map_option all_leaves (buildNode n kids leaf wp label) = leaves_of n kids leaf wp"
proof (induction n arbitrary: wp label)
  case (Suc n)
  have same: "map_option (map all_leaves) (those (map2 (\<lambda>k c. buildNode n kids leaf c (sub_label l k c)) [1..<Suc (length subs)] subs))
      = those (map (leaves_of n kids leaf) subs)" for l subs
  proof -
    have "map (map_option all_leaves) (map2 (\<lambda>k c. buildNode n kids leaf c (sub_label l k c)) [1..<Suc (length subs)] subs)
        = map (leaves_of n kids leaf) subs"
      by (intro nth_equalityI) (simp_all add: Suc.IH del: upt_Suc)
    then show ?thesis by (simp add: map_option_those)
  qed
  have "map_option all_leaves (buildNode (Suc n) kids leaf wp l) =
     Option.bind (directLeaves n kids leaf (item_id wp)) (\<lambda>ls.
     Option.bind (collectSubWps n kids (item_id wp)) (\<lambda>subs.
     map_option (\<lambda>gs. ls @ concat gs) (those (map (leaves_of n kids leaf) subs))))" for l
    unfolding same[symmetric, of _ l]
    by (simp add: map_option_bind option.map_comp comp_def all_leaves_assemble del: upt_Suc split: bind_split)
  then show ?case by (simp add: leaves_of_def[of "Suc n"])
qed (simp add: leaves_of_def)


lemma forest_apart:
  assumes "single_valued R" "acyclic R" "(c, p) \<in> R" "(d, p) \<in> R" "(i, c) \<in> R\<^sup>*" "(i, d) \<in> R\<^sup>*"
  shows "c = d"
proof -
  have up: "x = y" if "(x, p) \<in> R" "(y, p) \<in> R" "(x, y) \<in> R\<^sup>*" for x y
  proof (rule ccontr)
    assume "x \<noteq> y"
    with that(3) obtain z where "(x, z) \<in> R" "(z, y) \<in> R\<^sup>*" by (auto elim: converse_rtranclE)
    moreover from this that(1) assms(1) have "z = p" by (auto dest: single_valuedD)
    ultimately have "(p, p) \<in> R\<^sup>+" using that(2) by (auto intro: rtrancl_into_trancl1)
    with assms(2) show False by (auto simp: acyclic_def)
  qed
  from single_valued_confluent[OF assms(1,5,6)] up[OF assms(3,4)] up[OF assms(4,3)] show ?thesis by blast
qed

lemma distinct_pieces:
  assumes "list_all2 (\<lambda>c xs. distinct xs \<and> set xs \<subseteq> B (h c)) cs xss" and "distinct (map h cs)"
    and "\<And>i c d. c \<in> set cs \<Longrightarrow> d \<in> set cs \<Longrightarrow> i \<in> B (h c) \<Longrightarrow> i \<in> B (h d) \<Longrightarrow> h c = h d"
  shows "distinct (concat xss)"
  using assms
proof (induction rule: list_all2_induct)
  case (Cons c cs xs xss)
  have "x \<notin> set ys" if "x \<in> set xs" "ys \<in> set xss" for x ys
  proof
    assume "x \<in> set ys"
    moreover from list_all2_setD2[OF Cons.hyps(2) that(2)] obtain d where d: "d \<in> set cs" "set ys \<subseteq> B (h d)" by blast
    moreover from Cons.prems(1) d(1) have "h c \<noteq> h d" by (metis distinct.simps(2) imageI list.simps(9) set_map)
    ultimately show False using Cons.prems(2)[of c d x] Cons.hyps(1) that(1) by auto
  qed
  moreover have "distinct (concat xss)"
    by (rule Cons.IH) (use Cons.prems in auto)
  ultimately show ?case using Cons.hyps(1) by (simp add: disjoint_iff)
qed simp

lemma regroup:
  "length lss = length sss \<Longrightarrow>
   mset (map g (concat lss) @ concat (map f (concat sss))) = mset (concat (map2 (\<lambda>l s. map g l @ concat (map f s)) lss sss))"
  by (induction rule: list_induct2) simp_all


lemma parents_single_valued: "single_valued (parents st)"
  by (auto simp: single_valued_def parents_def)

lemma split_pieces:
  assumes "list_all2 (\<lambda>c y. D c = Some y) ks yss" and "list_all2 (\<lambda>c z. S c = Some z) ks zss"
    and "\<And>c y z. c \<in> set ks \<Longrightarrow> z \<in> set zss \<Longrightarrow> D c = Some y \<Longrightarrow> S c = Some z \<Longrightarrow> P c (H y z)"
  shows "list_all2 P ks (map2 H yss zss) \<and> length yss = length zss"
  using assms by (auto simp: list_all2_conv_all_nth)

lemma mset_insort_by [simp]: "mset (insort_by le x ys) = add_mset x (mset ys)"
  by (induction ys) simp_all

lemma mset_sort_items [simp]: "mset (sort_items le xs) = mset xs"
  by (induction xs) (simp_all add: sort_items_def)

lemma distinct_sorted_ids: "keyed_state st \<Longrightarrow> distinct (map item_id (sort_items le (filter P (jvals (st_items st)))))"
proof -
  assume "keyed_state st"
  from keyed_stateD(1)[OF this] have "map item_id (jvals (st_items st)) = jkeys (st_items st)" "distinct (jkeys (st_items st))"
    by (auto simp: keyed_def jvals_def jkeys_def)
  then have "distinct (map item_id (filter P (jvals (st_items st))))" by (simp add: distinct_map_filter)
  moreover have "mset (map item_id (sort_items le xs)) = mset (map item_id xs)" for xs by simp
  ultimately show ?thesis by (metis mset_eq_imp_distinct_iff)
qed

lemma distinct_children: "keyed_state st \<Longrightarrow> distinct (map item_id (childrenOf st le p))"
  by (simp add: childrenOf_def distinct_sorted_ids)

lemma pieces_distinct:
  fixes F :: "item_state \<Rightarrow> ulid list"
  assumes keyed: "keyed_state st" and acyc: "acyclic (parents st)" and leaf: "\<And>x. lf_id (leaf x) = item_id x"
  shows "directLeaves n (childrenOf st le) leaf p = Some ls \<Longrightarrow> collectSubWps n (childrenOf st le) p = Some subs \<Longrightarrow>
    (\<And>s. s \<in> set subs \<Longrightarrow> distinct (F s) \<and> set (F s) \<subseteq> {i. (i, item_id s) \<in> (parents st)\<^sup>*}) \<Longrightarrow>
    distinct (map lf_id ls @ concat (map F subs)) \<and> set (map lf_id ls @ concat (map F subs)) \<subseteq> {i. (i, p) \<in> (parents st)\<^sup>+}"
proof (induction n arbitrary: p ls subs)
  case (Suc n)
  let ?K = "childrenOf st le"
  let ?B = "\<lambda>c. {i. (i, c) \<in> (parents st)\<^sup>*}"
  let ?D = "\<lambda>c. if isWp c then Some [] else if ?K (item_id c) = [] then Some [leaf c] else directLeaves n ?K leaf (item_id c)"
  let ?S = "\<lambda>c. if isWp c then Some [c] else collectSubWps n ?K (item_id c)"
  let ?H = "\<lambda>y z. map lf_id y @ concat (map F z)"
  from Suc.prems(1,2) obtain yss zss where D: "list_all2 (\<lambda>c y. ?D c = Some y) (?K p) yss" "ls = concat yss"
      and S: "list_all2 (\<lambda>c z. ?S c = Some z) (?K p) zss" "subs = concat zss"
    by (auto simp: those_Some)
  have each: "distinct (?H y z) \<and> set (?H y z) \<subseteq> ?B (item_id c)"
    if c: "c \<in> set (?K p)" and m: "z \<in> set zss" and y: "?D c = Some y" and z: "?S c = Some z" for c y z
  proof -
    have F: "\<forall>s \<in> set z. s \<in> set subs" using m S(2) by auto
    consider "isWp c" | "\<not> isWp c" "?K (item_id c) = []" | "\<not> isWp c" "?K (item_id c) \<noteq> []" by blast
    then show ?thesis
    proof cases
      case 1
      with y z F Suc.prems(3)[of c] show ?thesis by auto
    next
      case 2
      then have "z = []" using z by (cases n) auto
      with 2 y show ?thesis by (auto simp: leaf)
    next
      case 3
      with Suc.IH[of "item_id c" y z] Suc.prems(3) F y z show ?thesis by (auto dest: trancl_into_rtrancl)
    qed
  qed
  note pieces = split_pieces[OF D(1) S(1), where P = "\<lambda>c xs. distinct xs \<and> set xs \<subseteq> ?B (item_id c)" and H = ?H, OF each]
  have apart: "item_id c = item_id d"
    if "c \<in> set (?K p)" "d \<in> set (?K p)" "i \<in> ?B (item_id c)" "i \<in> ?B (item_id d)" for i c d
    using forest_apart[OF parents_single_valued acyc] child_parent[OF keyed that(1)] child_parent[OF keyed that(2)] that(3,4)
    by blast
  have "distinct (concat (map2 ?H yss zss))"
    by (rule distinct_pieces[OF conjunct1[OF pieces] distinct_children[OF keyed] apart])
  moreover have "set (concat (map2 ?H yss zss)) \<subseteq> {i. (i, p) \<in> (parents st)\<^sup>+}"
  proof
    fix i
    assume "i \<in> set (concat (map2 ?H yss zss))"
    then obtain xs where "xs \<in> set (map2 ?H yss zss)" "i \<in> set xs" unfolding set_concat by blast
    with list_all2_setD2[OF conjunct1[OF pieces]] obtain c where "c \<in> set (?K p)" "(i, item_id c) \<in> (parents st)\<^sup>*" by blast
    with child_parent[OF keyed] show "i \<in> {i. (i, p) \<in> (parents st)\<^sup>+}" by (auto intro: rtrancl_into_trancl1)
  qed
  moreover have eq: "mset (map lf_id ls @ concat (map F subs)) = mset (concat (map2 ?H yss zss))"
    unfolding D(2) S(2) by (rule regroup[OF conjunct2[OF pieces]])
  ultimately show ?case using mset_eq_imp_distinct_iff[OF eq] mset_eq_setD[OF eq] by simp
qed simp


lemma leaves_of_Suc: "leaves_of (Suc n) kids leaf wp =
     Option.bind (directLeaves n kids leaf (item_id wp)) (\<lambda>ls.
     Option.bind (collectSubWps n kids (item_id wp)) (\<lambda>subs.
     map_option (\<lambda>gs. ls @ concat gs) (those (map (leaves_of n kids leaf) subs))))"
proof -
  have "map (map_option all_leaves) (map2 (\<lambda>k c. buildNode n kids leaf c (sub_label l k c)) [1..<Suc (length subs)] subs)
      = map (leaves_of n kids leaf) subs" for l subs
    by (intro nth_equalityI) (simp_all add: leaves_of_label del: upt_Suc)
  then have "map_option (map all_leaves) (those (map2 (\<lambda>k c. buildNode n kids leaf c (sub_label l k c)) [1..<Suc (length subs)] subs))
      = those (map (leaves_of n kids leaf) subs)" for l subs
    by (simp add: map_option_those)
  note same = this[symmetric]
  show ?thesis
    unfolding same[of _ "[]"] leaves_of_def[of "Suc n"]
    by (simp add: map_option_bind option.map_comp comp_def all_leaves_assemble del: upt_Suc split: bind_split)
qed

lemma leaves_of_distinct:
  assumes "keyed_state st" and "acyclic (parents st)" and leaf: "\<And>x. lf_id (leaf x) = item_id x"
  shows "leaves_of n (childrenOf st le) leaf wp = Some gs \<Longrightarrow> distinct (map lf_id gs)"
proof (induction n arbitrary: wp gs)
  case (Suc n)
  let ?K = "childrenOf st le"
  let ?F = "\<lambda>s. map lf_id (the (leaves_of n ?K leaf s))"
  from Suc.prems obtain ls subs gss where ls: "directLeaves n ?K leaf (item_id wp) = Some ls"
      and subs: "collectSubWps n ?K (item_id wp) = Some subs"
      and gss: "those (map (leaves_of n ?K leaf) subs) = Some gss" and gs: "gs = ls @ concat gss"
    by (auto simp: leaves_of_Suc bind_eq_Some_conv)
  have F: "distinct (?F s) \<and> set (?F s) \<subseteq> {i. (i, item_id s) \<in> (parents st)\<^sup>*}" if "s \<in> set subs" for s
  proof -
    from list_all2_setD1[OF gss[unfolded those_Some] that] obtain g where g: "leaves_of n ?K leaf s = Some g" by blast
    then obtain t where "buildNode n ?K leaf s [] = Some t" "g = all_leaves t" by (auto simp: leaves_of_def)
    with buildNode_covers[where leaf = leaf, OF assms(1) leaf] have "leaf_under st i (item_id s)" if "i \<in> lf_id ` set g" for i
      using that by blast
    then have "set (map lf_id g) \<subseteq> {i. (i, item_id s) \<in> (parents st)\<^sup>*}"
      by (auto simp: leaf_under_def dest: trancl_into_rtrancl)
    with Suc.IH[OF g] g show ?thesis by simp
  qed
  have "map (map lf_id) gss = map ?F subs"
    using gss[unfolded those_Some] by (auto simp: list_all2_conv_all_nth intro: nth_equalityI)
  then have "map lf_id gs = map lf_id ls @ concat (map ?F subs)" by (simp add: gs map_concat)
  with pieces_distinct[OF assms ls subs F] show ?case by simp
qed (simp add: leaves_of_def)

text \<open>A node of the tree was built from the container with its identifier.\<close>

lemma nodes_built:
  "buildNode n kids leaf wp label = Some t \<Longrightarrow> m \<in> set (nodes t) \<Longrightarrow>
   \<exists>k w l. buildNode k kids leaf w l = Some m \<and> item_id w = nd_id m"
proof (induction n arbitrary: wp label t)
  case (Suc n)
  from Suc.prems(1) obtain ls subs ts where
      ts: "those (map2 (\<lambda>k c. buildNode n kids leaf c (sub_label label k c)) [1..<Suc (length subs)] subs) = Some ts"
      and t: "t = assemble wp label ls ts"
    by (auto simp: bind_eq_Some_conv simp del: upt_Suc)
  have "m = t \<or> (\<exists>u \<in> set ts. m \<in> set (nodes u))"
    using Suc.prems(2) by (auto simp: t assemble_def Let_def)
  then show ?case
  proof
    assume "m = t"
    moreover have "nd_id t = item_id wp" by (simp add: t assemble_def Let_def)
    ultimately show ?thesis using Suc.prems(1) by metis
  next
    assume "\<exists>u \<in> set ts. m \<in> set (nodes u)"
    then obtain u where u: "u \<in> set ts" "m \<in> set (nodes u)" by blast
    from list_all2_setD2[OF ts[unfolded those_map2] u(1)] obtain q where
      "buildNode n kids leaf (snd q) (sub_label label (fst q) (snd q)) = Some u" by blast
    from Suc.IH[OF this u(2)] show ?thesis .
  qed
qed simp

text \<open>Every leaf of the tree is the leaf of an item of the state.\<close>

lemma direct_built: "directLeaves n kids leaf p = Some ls \<Longrightarrow> l \<in> set ls \<Longrightarrow> \<exists>q. \<exists>x \<in> set (kids q). l = leaf x"
proof (induction n arbitrary: p ls)
  case (Suc n)
  from Suc.prems obtain lss where lss: "list_all2 (\<lambda>c y. (if isWp c then Some [] else if kids (item_id c) = [] then Some [leaf c]
      else directLeaves n kids leaf (item_id c)) = Some y) (kids p) lss" and ls: "ls = concat lss"
    by (auto simp: those_Some)
  from Suc.prems(2) obtain ys where ys: "ys \<in> set lss" "l \<in> set ys" by (auto simp: ls)
  from list_all2_setD2[OF lss ys(1)] obtain c where c: "c \<in> set (kids p)" "(if isWp c then Some [] else
      if kids (item_id c) = [] then Some [leaf c] else directLeaves n kids leaf (item_id c)) = Some ys" by blast
  show ?case
  proof (cases "isWp c \<or> kids (item_id c) \<noteq> []")
    case True
    with c(2) ys(2) Suc.IH[of "item_id c" ys] show ?thesis by (auto split: if_splits)
  next
    case False
    with c ys(2) have "l = leaf c" by auto
    with c(1) show ?thesis by blast
  qed
qed simp

lemma leaf_built: "leaves_of n kids leaf wp = Some gs \<Longrightarrow> l \<in> set gs \<Longrightarrow> \<exists>q. \<exists>x \<in> set (kids q). l = leaf x"
proof (induction n arbitrary: wp gs)
  case (Suc n)
  from Suc.prems obtain ls subs gss where ls: "directLeaves n kids leaf (item_id wp) = Some ls"
      and gss: "those (map (leaves_of n kids leaf) subs) = Some gss" and gs: "gs = ls @ concat gss"
    by (auto simp: leaves_of_Suc bind_eq_Some_conv)
  from Suc.prems(2) consider "l \<in> set ls" | g where "g \<in> set gss" "l \<in> set g" by (auto simp: gs)
  then show ?case
  proof cases
    case 1
    with direct_built[OF ls] show ?thesis .
  next
    case 2
    from list_all2_setD2[OF gss[unfolded those_Some] 2(1)] obtain s where "leaves_of n kids leaf s = Some g" by blast
    from Suc.IH[OF this 2(2)] show ?thesis .
  qed
qed (simp add: leaves_of_def)

text \<open>So the counts of a node are the numbers of leaf items below it in each bucket.\<close>

definition leaf_count :: "state \<Rightarrow> report_config \<Rightarrow> (bucket \<Rightarrow> bool) \<Rightarrow> ulid \<Rightarrow> nat" where
  "leaf_count st config P p = card {i. leaf_under st i p \<and> (\<exists>x. jget (st_items st) i = Some x \<and> P (bucketOf st x config))}"

lemma in_bucket_card:
  assumes keyed: "keyed_state st" and acyc: "acyclic (parents st)"
    and built: "buildNode n (childrenOf st le) (\<lambda>x. buildWpLeaf st x config) wp label = Some t"
  shows "in_bucket P (all_leaves t) = leaf_count st config P (item_id wp)"
proof -
  let ?leaf = "\<lambda>x. buildWpLeaf st x config"
  have id: "lf_id (?leaf x) = item_id x" "lf_bucket (?leaf x) = bucketOf st x config" for x
    by (simp_all add: buildWpLeaf_def Let_def)
  from built have leaves: "leaves_of n (childrenOf st le) ?leaf wp = Some (all_leaves t)"
    using leaves_of_label[of n "childrenOf st le" ?leaf wp label] by simp
  have dist: "distinct (map lf_id (all_leaves t))" by (rule leaves_of_distinct[OF keyed acyc id(1) leaves])
  have item: "\<exists>x. jget (st_items st) (item_id x) = Some x \<and> l = ?leaf x" if "l \<in> set (all_leaves t)" for l
    using leaf_built[OF leaves that] child_parent[OF keyed] by blast
  have "in_bucket P (all_leaves t) = card (lf_id ` {l \<in> set (all_leaves t). P (lf_bucket l)})"
  proof -
    have "distinct (map lf_id (filter (\<lambda>l. P (lf_bucket l)) (all_leaves t)))" using dist by (simp add: distinct_map_filter)
    from distinct_card[OF this] show ?thesis unfolding in_bucket_def by simp
  qed
  also have "lf_id ` {l \<in> set (all_leaves t). P (lf_bucket l)} =
      {i. leaf_under st i (item_id wp) \<and> (\<exists>x. jget (st_items st) i = Some x \<and> P (bucketOf st x config))}" (is "?L = ?R")
  proof
    show "?L \<subseteq> ?R"
    proof
      fix i
      assume "i \<in> ?L"
      then obtain l where l: "l \<in> set (all_leaves t)" "i = lf_id l" "P (lf_bucket l)" by blast
      from item[OF l(1)] obtain x where "jget (st_items st) (item_id x) = Some x" "l = ?leaf x" by blast
      moreover from l(1,2) have "i \<in> lf_id ` set (all_leaves t)" by blast
      ultimately show "i \<in> ?R"
        using l buildNode_covers[where leaf = ?leaf and i = i, OF keyed id(1) built] by (simp add: id)
    qed
    show "?R \<subseteq> ?L"
    proof
      fix i
      assume "i \<in> ?R"
      then obtain x where x: "leaf_under st i (item_id wp)" "jget (st_items st) i = Some x" "P (bucketOf st x config)" by blast
      from x(1) have "i \<in> lf_id ` set (all_leaves t)"
        using buildNode_covers[where leaf = ?leaf and i = i, OF keyed id(1) built] by (simp only:)
      then obtain l where l: "l \<in> set (all_leaves t)" "lf_id l = i" by blast
      from item[OF l(1)] obtain y where y: "jget (st_items st) (item_id y) = Some y" "l = ?leaf y" by blast
      with l(2) x(2,3) have "P (lf_bucket l)" by (simp add: id)
      with l show "i \<in> ?L" by blast
    qed
  qed
  finally show ?thesis by (simp add: leaf_count_def)
qed


lemma node_exact:
  assumes "keyed_state st" and "acyclic (parents st)"
    and "computeWpTree st config le = Some ts" and "t \<in> set ts" and "m \<in> set (nodes t)"
  shows "nd_done m = leaf_count st config (\<lambda>b. b = DoneBucket) (nd_id m)"
    and "nd_active m = leaf_count st config (\<lambda>b. b \<noteq> Dropped) (nd_id m)"
    and "nd_dropped m = leaf_count st config (\<lambda>b. b = Dropped) (nd_id m)"
    and "nd_pct m = pct_of (nd_done m) (nd_active m)"
proof -
  let ?K = "childrenOf st le" and ?leaf = "\<lambda>x. buildWpLeaf st x config"
  from assms(3) have "list_all2 (\<lambda>p z. buildNode (tree_fuel st) ?K ?leaf (fst p) (snd p) = Some z)
      (zip (wp_roots st le) (wp_root_labels st le)) ts"
    by (simp add: computeWpTree_def those_map2)
  from list_all2_setD2[OF this assms(4)] obtain p where
    root: "buildNode (tree_fuel st) ?K ?leaf (fst p) (snd p) = Some t" by blast
  from nodes_built[OF root assms(5)] obtain k w l where m: "buildNode k ?K ?leaf w l = Some m" and w: "item_id w = nd_id m"
    by blast
  have "counts_leaves m" using buildNode_counts[OF root] assms(5) by blast
  then show "nd_done m = leaf_count st config (\<lambda>b. b = DoneBucket) (nd_id m)"
      "nd_active m = leaf_count st config (\<lambda>b. b \<noteq> Dropped) (nd_id m)"
      "nd_dropped m = leaf_count st config (\<lambda>b. b = Dropped) (nd_id m)"
      "nd_pct m = pct_of (nd_done m) (nd_active m)"
    using in_bucket_card[OF assms(1,2) m] unfolding w by (simp_all add: counts_leaves_def)
qed

section \<open>Properties\<close>

definition sample_item :: "ulid \<Rightarrow> ulid option \<Rightarrow> item_role option \<Rightarrow> realization \<Rightarrow> item_state" where
  "sample_item i p r z = (new_item i \<lparr>icp_kind = KFeature, icp_title = ''t'', icp_workspace = ''w'', icp_parentId = p,
     icp_role = r, icp_scope = None, icp_sourceKey = None, icp_body = None, icp_links = None, icp_accountable = None,
     icp_responsible = None, icp_engagementRef = None, icp_demandId = None\<rparr>)\<lparr>item_realization := z\<rparr>"

text \<open>A work package with a finished and an open feature, and an empty work package.\<close>

definition sample_forest :: state where
  "sample_forest = emptyState\<lparr>st_items := [
     (''w1'', sample_item ''w1'' None (Some Workpackage) ToDo), (''f1'', sample_item ''f1'' (Some ''w1'') None Done),
     (''f2'', sample_item ''f2'' (Some ''w1'') None ToDo), (''w2'', sample_item ''w2'' None (Some Workpackage) ToDo)]\<rparr>"

abbreviation sample_config :: report_config where
  "sample_config \<equiv> \<lparr>baselineCommit = ''c0'', requireAccepted = False\<rparr>"

lemma sample_keyed: "keyed_state sample_forest"
  by (simp add: keyed_state_def sample_forest_def emptyState_def keyed_def jkeys_def sample_item_def new_item_def)

lemma sample_parents: "parents sample_forest = {(''f1'', ''w1''), (''f2'', ''w1'')}"
  by (auto simp: parents_def parent_in_def sample_forest_def emptyState_def sample_item_def new_item_def jget_def
      split: if_splits)

lemma sample_acyclic: "acyclic (parents sample_forest)"
  unfolding sample_parents by (rule acyclic_subset[of "measure (\<lambda>i. if i = ''w1'' then (1::nat) else 0)"])
    (auto intro: wf_acyclic)

text \<open>C35. The roll-up returns: when the parents of the items are acyclic, as the facade keeps them, the walks
  over the children that the source does not bound end, for every order of the identifiers.\<close>

theorem rollup_returns:
  assumes "keyed_state st" and "acyclic (parents st)"
  shows "\<exists>ts. computeWpTree st config le = Some ts"
  by (rule computeWpTree_returns[OF assms])

theorem rollup_returns_witness: "\<exists>ts. computeWpTree sample_forest sample_config (\<lambda>_ _. True) = Some ts"
  by (rule rollup_returns[OF sample_keyed sample_acyclic])

text \<open>C34. The roll-up is exact: every node of the tree, at any depth, counts the leaf items below its container,
  each of them once, in the buckets of the state: the done ones, the active ones (all that are not
  dropped) and the dropped ones; its percentage is of the first two.\<close>

theorem rollup_exact:
  assumes "keyed_state st" and "acyclic (parents st)"
    and "computeWpTree st config le = Some ts" and "t \<in> set ts" and "m \<in> set (nodes t)"
  shows "nd_done m = leaf_count st config (\<lambda>b. b = DoneBucket) (nd_id m) \<and>
     nd_active m = leaf_count st config (\<lambda>b. b \<noteq> Dropped) (nd_id m) \<and>
     nd_dropped m = leaf_count st config (\<lambda>b. b = Dropped) (nd_id m) \<and>
     nd_pct m = pct_of (nd_done m) (nd_active m)"
  using node_exact[OF assms] by blast

lemma sample_children:
  "childrenOf sample_forest (\<lambda>_ _. True) p =
     (if p = ''w1'' then [sample_item ''f1'' (Some ''w1'') None Done, sample_item ''f2'' (Some ''w1'') None ToDo] else [])"
  by (simp add: childrenOf_def sample_forest_def emptyState_def jvals_def sort_items_def sample_item_def new_item_def)

lemma sample_buckets: "bucketOf sample_forest (sample_item i p r z) sample_config =
    (if z = Cancelled \<or> z = Rejected then Dropped else if z = Done then DoneBucket else TodoBucket)"
  by (simp add: bucketOf_def effectiveOpenBlockersForItem_def sample_forest_def emptyState_def jvals_def
      sample_item_def new_item_def)

lemma sample_roots: "wp_roots sample_forest (\<lambda>_ _. True) =
    [sample_item ''w1'' None (Some Workpackage) ToDo, sample_item ''w2'' None (Some Workpackage) ToDo]"
  by (simp add: wp_roots_def sample_forest_def emptyState_def jvals_def sort_items_def sample_item_def new_item_def
      isWp_def isRoleContainer_def)

lemma sample_tree:
  "\<exists>t u. computeWpTree sample_forest sample_config (\<lambda>_ _. True) = Some [t, u] \<and> nd_id t = ''w1'' \<and> nd_done t = 1 \<and> nd_active t = 2 \<and>
     lf_workspace ` set (all_leaves t) = {''w''} \<and> all_leaves u = [] \<and> nodes u = [u]"
proof -
  have item: "item_id (sample_item i p r z) = i" "item_role (sample_item i p r z) = r" "item_code (sample_item i p r z) = None"
    for i p r z by (simp_all add: sample_item_def new_item_def)
  have leaf: "lf_bucket (buildWpLeaf sample_forest (sample_item i p r z) sample_config) =
      bucketOf sample_forest (sample_item i p r z) sample_config"
      "lf_workspace (buildWpLeaf sample_forest (sample_item i p r z) sample_config) = ''w''" for i p r z
    by (simp_all add: buildWpLeaf_def Let_def sample_item_def new_item_def)
  have fuel: "tree_fuel sample_forest = Suc (Suc (Suc (Suc (Suc (Suc 0)))))"
    by (simp add: tree_fuel_def sample_forest_def emptyState_def)
  show ?thesis
    by (simp add: computeWpTree_def fuel sample_children sample_roots wp_root_labels_def item isWp_def isRoleContainer_def
        assemble_def tally_def tally_step_def leaf sample_buckets)
qed

theorem rollup_exact_witness:
  "\<exists>ts t. computeWpTree sample_forest sample_config (\<lambda>_ _. True) = Some ts \<and> t \<in> set ts \<and>
     leaf_count sample_forest sample_config (\<lambda>b. b = DoneBucket) ''w1'' = 1 \<and>
     leaf_count sample_forest sample_config (\<lambda>b. b \<noteq> Dropped) ''w1'' = 2"
proof -
  obtain t u where t: "computeWpTree sample_forest sample_config (\<lambda>_ _. True) = Some [t, u]" "nd_id t = ''w1''"
      "nd_done t = 1" "nd_active t = 2"
    using sample_tree by (elim exE conjE) (rule that; assumption)
  from rollup_exact[OF sample_keyed sample_acyclic t(1), of t t] t node_self[of t] show ?thesis
    by (intro exI[of _ "[t, u]"] exI[of _ t]) simp
qed

text \<open>C39. The percentages are bounded and rounded once: in the doubles the program computes with, for fewer
  than $2^{53}$ leaves, the percentage of a node with active leaves is an integer from 0 to 100, within a
  half, up to the rounding of the doubles, of the exact ratio.\<close>

theorem pct_bounds:
  assumes "0 < a" and "d \<le> a" and "a < 2 ^ 53"
  shows "\<exists>k :: int. pct_of d a = Percent (Fin (of_int k)) \<and> 0 \<le> k \<and> k \<le> 100 \<and>
     \<bar>of_int k - 100 * of_nat d / of_nat a\<bar> \<le> (1 / 2 + 1 / 2 ^ 45 :: rat)"
  by (rule pct_value[OF assms])

theorem pct_bounds_witness: "\<exists>k :: int. pct_of 1 3 = Percent (Fin (of_int k)) \<and> \<bar>of_int k - 100 / 3\<bar> \<le> (1 / 2 + 1 / 2 ^ 45 :: rat)"
proof -
  have "0 < (3 :: nat)" "1 \<le> (3 :: nat)" "(3 :: nat) < 2 ^ 53" by simp_all
  from pct_bounds[OF this] show ?thesis by auto
qed

end
