(* ===== verification/Rollup_Clip.thy ===== *)
theory Rollup_Clip
  imports Rollup_Exact
begin

text \<open>
  The clip of a forest to one workspace and the properties of the roll-up as a whole: the clip keeps
  exactly the leaves of its workspace and counts them again; it leaves a forest alone only when all of
  it lies in the workspace and no container is empty; the labels of the roots are distinct.
\<close>

section \<open>Clips\<close>

lemma in_bucket_total: "in_bucket (\<lambda>b. b \<noteq> Dropped) ls + in_bucket (\<lambda>b. b = Dropped) ls = length ls"
  using sum_length_filter_compl[of "\<lambda>l. lf_bucket l \<noteq> Dropped" ls] by (simp add: in_bucket_def)

lemma total_leaves: "counts_leaves n \<Longrightarrow> nd_active n + nd_dropped n = length (all_leaves n)"
  by (simp add: counts_leaves_def in_bucket_total)

definition here :: "string \<Rightarrow> wp_leaf list \<Rightarrow> wp_leaf list" where
  "here w ls = filter (\<lambda>l. lf_workspace l = w) ls"

definition clip_of :: "string \<Rightarrow> wp_node \<Rightarrow> wp_node \<Rightarrow> bool" where
  "clip_of w m n \<longleftrightarrow> nd_id n = nd_id m \<and> nd_label n = nd_label m \<and> nd_title n = nd_title m \<and>
     nd_code n = nd_code m \<and> nd_stream n = nd_stream m \<and> nd_terminal n = nd_terminal m \<and> all_leaves n = here w (all_leaves m) \<and>
     all_leaves n \<noteq> [] \<and> counts_leaves n \<and> nd_partial n = (here w (all_leaves m) \<noteq> all_leaves m)"

lemma here_simps [simp]:
  "here w (xs @ ys) = here w xs @ here w ys" "here w (concat xss) = concat (map (here w) xss)" "here w [] = []"
  by (simp_all add: here_def[abs_def] filter_concat)

lemma here_length: "length (here w ls) < length ls \<longleftrightarrow> here w ls \<noteq> ls"
  unfolding here_def
  by (metis filter_True length_filter_le length_filter_less less_irrefl linorder_neqE_nat not_less)

lemma clip_children:
  assumes "\<And>c. c \<in> set cs \<Longrightarrow> (case clipNode w c of None \<Rightarrow> here w (all_leaves c) = [] | Some c' \<Rightarrow> clip_of w c c')"
  shows "concat (map all_leaves (List.map_filter (clipNode w) cs)) = concat (map (\<lambda>c. here w (all_leaves c)) cs) \<and>
    (\<forall>c \<in> set (List.map_filter (clipNode w) cs). counts_leaves c)"
  using assms
proof (induction cs)
  case (Cons c cs)
  have "case clipNode w c of None \<Rightarrow> here w (all_leaves c) = [] | Some c' \<Rightarrow> clip_of w c c'"
    by (rule Cons.prems) simp
  moreover have "concat (map all_leaves (List.map_filter (clipNode w) cs)) = concat (map (\<lambda>c. here w (all_leaves c)) cs) \<and>
      (\<forall>c \<in> set (List.map_filter (clipNode w) cs). counts_leaves c)"
    by (rule Cons.IH) (simp add: Cons.prems)
  ultimately show ?case
    by (cases "clipNode w c") (simp_all add: map_filter_simps clip_of_def)
qed (simp add: map_filter_simps)

lemma clipNode_exact:
  "\<forall>m \<in> set (nodes t). counts_leaves m \<Longrightarrow>
   (case clipNode w t of None \<Rightarrow> here w (all_leaves t) = [] | Some n \<Rightarrow> clip_of w t n)"
proof (induction w t rule: clipNode.induct)
  case (1 w i t l c r d a x p leaves cs tm pt)
  define cs' where "cs' = List.map_filter (clipNode w) cs"
  define ls' where "ls' = filter (\<lambda>l. lf_workspace l = w) leaves"
  have "(case clipNode w u of None \<Rightarrow> here w (all_leaves u) = [] | Some c' \<Rightarrow> clip_of w u c')" if "u \<in> set cs" for u
    using 1 that by auto
  from clip_children[OF this] have leaves': "concat (map all_leaves cs') = concat (map (\<lambda>c. here w (all_leaves c)) cs)"
      and counts: "\<forall>c \<in> set cs'. counts_leaves c" by (simp_all add: cs'_def)
  let ?d = "ct_done (tally ls') + sum_list (map nd_done cs')"
  let ?a = "ct_active (tally ls') + sum_list (map nd_active cs')"
  let ?x = "ct_dropped (tally ls') + sum_list (map nd_dropped cs')"
  let ?m = "WpNode i t l c r d a x p leaves cs tm pt"
  let ?n = "WpNode i t l c r ?d ?a ?x (pct_of ?d ?a) ls' cs' tm (?a + ?x < a + x)"
  have all: "all_leaves ?n = here w (all_leaves ?m)" by (simp add: leaves' here_def[of w leaves] ls'_def comp_def)
  have cn: "counts_leaves ?n" by (rule counts_node[OF counts]) simp_all
  have "a + x = length (all_leaves ?m)" using total_leaves[of ?m] "1.prems" by simp
  moreover from total_leaves[OF cn] have tot: "?a + ?x = length (here w (all_leaves ?m))" unfolding all by simp
  ultimately have part: "?a + ?x < a + x \<longleftrightarrow> here w (all_leaves ?m) \<noteq> all_leaves ?m"
    using here_length[of w "all_leaves ?m"] by (simp only:)
  have step: "clipNode w ?m = (if ?a + ?x = 0 then None else Some ?n)" by (simp add: Let_def cs'_def ls'_def)
  show ?case
  proof (cases "?a + ?x = 0")
    case True
    with tot show ?thesis unfolding step by simp
  next
    case False
    with tot have "here w (all_leaves ?m) \<noteq> []" by (metis list.size(3))
    with all cn part have "clip_of w ?m ?n" unfolding clip_of_def wp_node.sel by metis
    with False show ?thesis unfolding step by (simp only: if_False option.case)
  qed
qed


lemma map_filter_fixed: "List.map_filter f xs = xs \<longleftrightarrow> (\<forall>x \<in> set xs. f x = Some x)"
proof (induction xs)
  case (Cons x xs)
  have shorter: "length (List.map_filter f xs) \<le> length xs"
    by (induction xs) (auto simp: map_filter_simps split: option.split)
  then have "List.map_filter f xs \<noteq> x # xs" by fastforce
  with Cons show ?case by (auto simp: map_filter_simps split: option.split)
qed (simp add: map_filter_simps)

lemma nodes_trans: "m \<in> set (nodes t) \<Longrightarrow> k \<in> set (nodes m) \<Longrightarrow> k \<in> set (nodes t)"
  by (induction t rule: nodes.induct) auto

lemma clip_nodes:
  "clipNode w t = Some n \<Longrightarrow> k \<in> set (nodes n) \<Longrightarrow> \<exists>m \<in> set (nodes t). clipNode w m = Some k"
proof (induction w t arbitrary: n rule: clipNode.induct)
  case (1 w i t l c r d a x p leaves cs tm pt)
  note ih = "1.IH" and run = "1.prems"(1) and k = "1.prems"(2)
  from run have "nd_children n = List.map_filter (clipNode w) cs" by (auto simp: Let_def split: if_splits)
  moreover from k have "k = n \<or> (\<exists>c \<in> set (nd_children n). k \<in> set (nodes c))" by (cases n) auto
  ultimately consider (here) "k = n" | (below) u u' where "u \<in> set cs" "clipNode w u = Some u'" "k \<in> set (nodes u')"
    by (auto simp: in_map_filter)
  then show ?case
  proof cases
    case here
    with run show ?thesis by (metis node_self)
  next
    case below
    from ih[OF refl below] below(1) show ?thesis by (auto simp del: clipNode.simps)
  qed
qed

lemma here_fixed: "here w ls = ls \<longleftrightarrow> (\<forall>l \<in> set ls. lf_workspace l = w)"
  by (simp add: here_def filter_id_conv)

lemma clip_fixed:
  "\<forall>m \<in> set (nodes t). counts_leaves m \<and> \<not> nd_partial m \<Longrightarrow>
   clipNode w t = Some t \<longleftrightarrow> (\<forall>l \<in> set (all_leaves t). lf_workspace l = w) \<and> (\<forall>m \<in> set (nodes t). all_leaves m \<noteq> [])"
proof (induction w t rule: clipNode.induct)
  case (1 w i t l c r d a x p leaves cs tm pt)
  let ?m = "WpNode i t l c r d a x p leaves cs tm pt"
  have ih: "clipNode w u = Some u \<longleftrightarrow> (\<forall>l \<in> set (all_leaves u). lf_workspace l = w) \<and> (\<forall>m \<in> set (nodes u). all_leaves m \<noteq> [])"
    if "u \<in> set cs" for u using 1 that by auto
  have ok: "counts_leaves ?m" "\<not> pt" using "1.prems" by auto
  have exact: "case clipNode w ?m of None \<Rightarrow> here w (all_leaves ?m) = [] | Some n \<Rightarrow> clip_of w ?m n"
    using "1.prems" by (intro clipNode_exact) blast
  show ?case
  proof
    assume same: "clipNode w ?m = Some ?m"
    with exact have m: "clip_of w ?m ?m" by simp
    from same have "List.map_filter (clipNode w) cs = cs" by (auto simp: Let_def split: if_splits)
    then have "clipNode w u = Some u" if "u \<in> set cs" for u using that by (simp add: map_filter_fixed)
    with ih have "\<forall>u \<in> set cs. \<forall>m \<in> set (nodes u). all_leaves m \<noteq> []" by blast
    moreover from m have "all_leaves ?m \<noteq> []" unfolding clip_of_def by blast
    moreover from m have "here w (all_leaves ?m) = all_leaves ?m" unfolding clip_of_def by metis
    ultimately show "(\<forall>l \<in> set (all_leaves ?m). lf_workspace l = w) \<and> (\<forall>m \<in> set (nodes ?m). all_leaves m \<noteq> [])"
      unfolding here_fixed by simp
  next
    assume all: "(\<forall>l \<in> set (all_leaves ?m). lf_workspace l = w) \<and> (\<forall>m \<in> set (nodes ?m). all_leaves m \<noteq> [])"
    then have "clipNode w u = Some u" if "u \<in> set cs" for u
      by (subst ih[OF that]) (use that in auto)
    then have cs: "List.map_filter (clipNode w) cs = cs" by (simp add: map_filter_fixed)
    have ls: "filter (\<lambda>l. lf_workspace l = w) leaves = leaves" using all by (simp add: filter_id_conv)
    have full: "here w (all_leaves ?m) = all_leaves ?m" "all_leaves ?m \<noteq> []"
      using all unfolding here_fixed by (blast, simp)
    with exact obtain n where n: "clipNode w ?m = Some n" "clip_of w ?m n"
      by (cases "clipNode w ?m") (simp_all only: option.case)
    from n(1) obtain d' a' x' p' pt' where form: "n = WpNode i t l c r d' a' x' p' leaves cs tm pt'"
      by (auto simp: Let_def cs ls split: if_splits)
    moreover from n(2) full have "all_leaves n = all_leaves ?m" "counts_leaves n" "nd_partial n = False"
      unfolding clip_of_def by metis+
    ultimately have "d' = d" "a' = a" "x' = x" "p' = p" "pt' = pt"
      using ok by (simp_all add: counts_leaves_def)
    with n form show "clipNode w ?m = Some ?m" by (simp only:)
  qed
qed

section \<open>Labels of the tree\<close>

lemma length_rootLabels [simp]: "length (rootLabels cw cs w s rs) = length rs"
  by (induction cw cs w s rs rule: rootLabels.induct) (auto split: option.splits)

lemma length_wp_root_labels [simp]: "length (wp_root_labels st le) = length (wp_roots st le)"
  by (simp add: wp_root_labels_def)

lemma rootLabels_uncoded:
  "(r, l) \<in> set (zip rs (rootLabels cw cs w s rs)) \<Longrightarrow> item_code r = None \<Longrightarrow> derived cw cs w s l"
proof (induction cw cs w s rs rule: rootLabels.induct)
  case (2 cw cs w s x rs)
  have wp: "derived cw cs w s (''WP'' @ nat_str (next_free cw w))"
    and st: "derived cw cs w s (''S'' @ nat_str (next_free cs s))"
    unfolding derived_def using next_free_free[of cw w] next_free_free[of cs s] by blast+
  have up: "w \<le> Suc (next_free cw w)" "s \<le> Suc (next_free cs s)"
    using next_free_free[of cw w] next_free_free[of cs s] by auto
  show ?case
  proof (cases "item_code x")
    case (Some c)
    with 2 show ?thesis by auto
  next
    case None
    show ?thesis
    proof (cases "item_role x = Some Stream")
      case True
      with None "2.prems" consider "l = ''S'' @ nat_str (next_free cs s)"
        | "(r, l) \<in> set (zip rs (rootLabels cw cs w (Suc (next_free cs s)) rs))" by auto
      then show ?thesis
        using "2.IH"(1)[OF None True] "2.prems"(2) st derived_mono[OF _ order_refl up(2)] by cases auto
    next
      case False
      with None "2.prems" consider "l = ''WP'' @ nat_str (next_free cw w)"
        | "(r, l) \<in> set (zip rs (rootLabels cw cs (Suc (next_free cw w)) s rs))" by auto
      then show ?thesis
        using "2.IH"(2)[OF None False] "2.prems"(2) wp derived_mono[OF _ up(1) order_refl] by cases auto
    qed
  qed
qed simp

lemma root_items: "x \<in> set (wp_roots st le) \<Longrightarrow> x \<in> set (jvals (st_items st)) \<and> isWp x"
  by (simp add: wp_roots_def)

lemma distinct_filtered:
  "distinct xs \<Longrightarrow> (\<And>x y c. x \<in> set xs \<Longrightarrow> y \<in> set xs \<Longrightarrow> f x = Some c \<Longrightarrow> f y = Some c \<Longrightarrow> x = y) \<Longrightarrow>
   distinct (List.map_filter f xs)"
proof (induction xs)
  case (Cons x xs)
  have "distinct (List.map_filter f xs)"
    using Cons.prems by (intro Cons.IH) auto
  moreover have "c \<notin> set (List.map_filter f xs)" if "f x = Some c" for c
    using that Cons.prems by (auto simp: in_map_filter)
  ultimately show ?case by (simp add: map_filter_simps split: option.split)
qed (simp add: map_filter_simps)

lemma root_codes_distinct:
  assumes "keyed_state st" and "codes_unique st"
  shows "distinct (List.map_filter item_code (wp_roots st le))"
proof -
  have "x = y" if "x \<in> set (wp_roots st le)" "y \<in> set (wp_roots st le)" "item_code x = Some c" "item_code y = Some c" for x y c
  proof -
    have "(item_id z, c) \<in> coded st" if "z \<in> set (wp_roots st le)" "item_code z = Some c" for z
      using root_items[OF that(1)] that(2) keyed_item[OF assms(1)]
      by (simp add: coded_def view_def code_view_def isWp_def)
    with that assms(2) have "item_id x = item_id y" unfolding codes_unique_iff by blast
    with that keyed_item[OF assms(1)] root_items show ?thesis by (metis option.inject)
  qed
  moreover have "distinct (wp_roots st le)"
    using distinct_sorted_ids[OF assms(1)] by (auto simp: wp_roots_def distinct_map)
  ultimately show ?thesis by (intro distinct_filtered)
qed

lemma tree_labels:
  assumes "computeWpTree st config le = Some ts"
  shows "map (\<lambda>t. (nd_code t, nd_label t)) ts = zip (map item_code (wp_roots st le)) (wp_root_labels st le)"
proof -
  have built: "nd_code t = item_code wp \<and> nd_label t = l" if "buildNode n kids leaf wp l = Some t" for n kids leaf wp l t
    using that by (cases n) (auto simp: bind_eq_Some_conv assemble_def Let_def simp del: upt_Suc)
  from assms have "list_all2 (\<lambda>p z. buildNode (tree_fuel st) (childrenOf st le) (\<lambda>i. buildWpLeaf st i config) (fst p) (snd p) = Some z)
      (zip (wp_roots st le) (wp_root_labels st le)) ts"
    by (simp add: computeWpTree_def those_map2)
  with built show ?thesis
    by (auto simp: list_all2_conv_all_nth intro!: nth_equalityI)
qed

lemma labels_distinct:
  assumes "keyed_state st" and "codes_unique st"
  shows "distinct (wp_root_labels st le)"
  unfolding wp_root_labels_def
  by (rule rootLabels_distinct[OF root_codes_distinct[OF assms]]) (auto dest!: root_items intro: claimed_claims)

lemma derived_not_coded:
  assumes "keyed_state st" and "derived (claimed st ''WP'') (claimed st ''S'') w s l"
  shows "(i, l) \<notin> coded st"
proof
  assume "(i, l) \<in> coded st"
  then obtain x where "jget (st_items st) i = Some x" "item_code x = Some l" "isWp x"
    by (auto simp: coded_def view_def code_view_def isWp_def)
  from claimed_claims[OF jget_jvals[OF this(1)] this(3,2)] derived_not_claimed[OF assms(2)] show False by simp
qed

text \<open>Below the roots they may collide: the first package without a code in \<open>WP1\<close> is labelled \<open>WP1.1\<close>, and another
  container may have that code, since codes that are not of the form of a root label reserve nothing.\<close>

definition dotted_forest :: state where
  "dotted_forest = emptyState\<lparr>st_items := [
     (''w1'', sample_item ''w1'' None (Some Workpackage) ToDo),
     (''w2'', sample_item ''w2'' (Some ''w1'') (Some Workpackage) ToDo),
     (''w3'', (sample_item ''w3'' None (Some Workpackage) ToDo)\<lparr>item_code := Some ''WP1.1''\<rparr>)]\<rparr>"

lemma dotted_codes: "codes_unique dotted_forest"
  by (auto simp: codes_unique_iff coded_def view_def code_view_def dotted_forest_def emptyState_def sample_item_def
      new_item_def jget_def split: if_splits)

lemma dotted_label_collides:
  "\<exists>t m u. computeWpTree dotted_forest sample_config (\<lambda>_ _. True) = Some [t, u] \<and> nd_children t = [m] \<and>
     nd_id m = ''w2'' \<and> nd_code m = None \<and> nd_label m = ''WP1.1'' \<and> nd_id u = ''w3'' \<and> nd_label u = ''WP1.1''"
proof -
  have fuel: "tree_fuel dotted_forest = Suc (Suc (Suc (Suc (Suc 0))))"
    by (simp add: tree_fuel_def dotted_forest_def emptyState_def)
  have kids: "childrenOf dotted_forest (\<lambda>_ _. True) p =
      (if p = ''w1'' then [sample_item ''w2'' (Some ''w1'') (Some Workpackage) ToDo] else [])" for p
    by (simp add: childrenOf_def dotted_forest_def emptyState_def jvals_def sort_items_def sample_item_def new_item_def)
  have roots: "wp_roots dotted_forest (\<lambda>_ _. True) = [sample_item ''w1'' None (Some Workpackage) ToDo,
      (sample_item ''w3'' None (Some Workpackage) ToDo)\<lparr>item_code := Some ''WP1.1''\<rparr>]"
    by (simp add: wp_roots_def dotted_forest_def emptyState_def jvals_def jget_def sort_items_def sample_item_def new_item_def
        isWp_def isRoleContainer_def)
  have item: "item_id (sample_item i p r z) = i" "item_role (sample_item i p r z) = r" "item_code (sample_item i p r z) = None"
    for i p r z by (simp_all add: sample_item_def new_item_def)
  have "claimed dotted_forest ''WP'' = []"
    by (simp add: claimed_def dotted_forest_def emptyState_def jvals_def map_filter_simps sample_item_def new_item_def isWp_def
        isRoleContainer_def claim_of_def Let_def char_digit_def)
  moreover have "char_of (49 :: nat) = CHR ''1''" by code_simp
  then have "nat_str 1 = ''1''" by (simp add: nat_str.simps digit_char_def)
  ultimately show ?thesis
    by (simp add: computeWpTree_def fuel kids roots wp_root_labels_def item isWp_def isRoleContainer_def
        assemble_def tally_def sub_label_def next_free.simps)
qed

section \<open>Properties\<close>

text \<open>C36. The labels of the roots do not collide: when the codes of the containers are unique, as the facade
  keeps them, no two roots have one label, and the label of a root without a code is the code of
  no container at any depth. This is about the roots only: the dotted label of a package below a root
  may be the code of a container (\<open>dotted_label_collides\<close>).\<close>

theorem root_labels_distinct:
  assumes "keyed_state st" and "codes_unique st" and "computeWpTree st config le = Some ts"
  shows "distinct (map nd_label ts) \<and>
     nd_label ` {t \<in> set ts. nd_code t = None} \<inter> {c. \<exists>i. (i, c) \<in> coded st} = {}"
proof
  have eq: "map nd_label ts = wp_root_labels st le"
    using arg_cong[OF tree_labels[OF assms(3)], of "map snd"] by (simp add: comp_def)
  with labels_distinct[OF assms(1,2)] show "distinct (map nd_label ts)" by simp
  have "(i, nd_label t) \<notin> coded st" if "t \<in> set ts" "nd_code t = None" for t i
  proof -
    have "(None, nd_label t) \<in> set (zip (map item_code (wp_roots st le)) (wp_root_labels st le))"
      using that unfolding tree_labels[OF assms(3), symmetric] by force
    then obtain r where "(r, nd_label t) \<in> set (zip (wp_roots st le) (wp_root_labels st le))" "item_code r = None"
      by (auto simp: zip_map1)
    from derived_not_coded[OF assms(1) rootLabels_uncoded[OF this[unfolded wp_root_labels_def]]] show ?thesis .
  qed
  then show "nd_label ` {t \<in> set ts. nd_code t = None} \<inter> {c. \<exists>i. (i, c) \<in> coded st} = {}" by blast
qed

theorem root_labels_distinct_witness:
  "\<exists>ts. computeWpTree sample_forest sample_config (\<lambda>_ _. True) = Some ts \<and> length ts = 2 \<and> distinct (map nd_label ts)"
proof -
  obtain t u where t: "computeWpTree sample_forest sample_config (\<lambda>_ _. True) = Some [t, u]" using sample_tree by (elim exE conjE) (rule that; assumption)
  have "codes_unique sample_forest"
    by (auto simp: codes_unique_iff coded_def view_def code_view_def sample_forest_def emptyState_def sample_item_def
        new_item_def jget_def split: if_splits)
  from root_labels_distinct[OF sample_keyed this t] t show ?thesis by auto
qed

lemma tree_counts:
  assumes "computeWpTree st config le = Some ts" and "t \<in> set ts" and "m \<in> set (nodes t)"
  shows "counts_leaves m"
proof -
  from assms(1) have "list_all2 (\<lambda>p z. buildNode (tree_fuel st) (childrenOf st le) (\<lambda>i. buildWpLeaf st i config) (fst p) (snd p) = Some z)
      (zip (wp_roots st le) (wp_root_labels st le)) ts"
    by (simp add: computeWpTree_def those_map2)
  from list_all2_setD2[OF this assms(2)] buildNode_counts assms(3) show ?thesis by blast
qed

lemma built_not_partial: "buildNode n kids leaf wp l = Some t \<Longrightarrow> m \<in> set (nodes t) \<Longrightarrow> \<not> nd_partial m"
proof -
  assume "buildNode n kids leaf wp l = Some t" "m \<in> set (nodes t)"
  from nodes_built[OF this] obtain k w l' where "buildNode k kids leaf w l' = Some m" by blast
  then show ?thesis by (cases k) (auto simp: bind_eq_Some_conv assemble_def Let_def simp del: upt_Suc)
qed

lemma tree_not_partial:
  assumes "computeWpTree st config le = Some ts" and "t \<in> set ts" and "m \<in> set (nodes t)"
  shows "\<not> nd_partial m"
proof -
  from assms(1) have "list_all2 (\<lambda>p z. buildNode (tree_fuel st) (childrenOf st le) (\<lambda>i. buildWpLeaf st i config) (fst p) (snd p) = Some z)
      (zip (wp_roots st le) (wp_root_labels st le)) ts"
    by (simp add: computeWpTree_def those_map2)
  from list_all2_setD2[OF this assms(2)] built_not_partial assms(3) show ?thesis by blast
qed

text \<open>C37. The clip is exact: it keeps the leaves of its workspace and no others, in their order, and each node
  it keeps is a node of the forest with its identifier, title, label, code, stream role and terminal flag that has a leaf in the workspace, counts
  the leaves it keeps and is marked partial when leaves below it were dropped and only then.\<close>

theorem clip_exact:
  assumes "computeWpTree st config le = Some ts"
  shows "concat (map all_leaves (clipWpTreeToWorkspace ts w)) = here w (concat (map all_leaves ts)) \<and>
     (\<forall>t \<in> set (clipWpTreeToWorkspace ts w). \<forall>n \<in> set (nodes t). \<exists>u \<in> set ts. \<exists>m \<in> set (nodes u). clip_of w m n)"
proof
  have each: "case clipNode w m of None \<Rightarrow> here w (all_leaves m) = [] | Some n \<Rightarrow> clip_of w m n"
    if "t \<in> set ts" "m \<in> set (nodes t)" for t m
    using tree_counts[OF assms that(1)] nodes_trans[OF that(2)] by (intro clipNode_exact) blast
  show "concat (map all_leaves (clipWpTreeToWorkspace ts w)) = here w (concat (map all_leaves ts))"
    using clip_children[of ts w] each node_self by (simp add: clipWpTreeToWorkspace_def comp_def)
  show "\<forall>t \<in> set (clipWpTreeToWorkspace ts w). \<forall>n \<in> set (nodes t). \<exists>u \<in> set ts. \<exists>m \<in> set (nodes u). clip_of w m n"
  proof (intro ballI)
    fix t n
    assume "t \<in> set (clipWpTreeToWorkspace ts w)" and n: "n \<in> set (nodes t)"
    then obtain u where u: "u \<in> set ts" "clipNode w u = Some t"
      by (auto simp: clipWpTreeToWorkspace_def in_map_filter)
    from clip_nodes[OF u(2) n] obtain m where "m \<in> set (nodes u)" "clipNode w m = Some n" by blast
    with each[OF u(1)] u(1) show "\<exists>u \<in> set ts. \<exists>m \<in> set (nodes u). clip_of w m n" by fastforce
  qed
qed

theorem clip_exact_witness:
  "\<exists>ts. computeWpTree sample_forest sample_config (\<lambda>_ _. True) = Some ts \<and>
     concat (map all_leaves (clipWpTreeToWorkspace ts ''w'')) = here ''w'' (concat (map all_leaves ts))"
proof -
  obtain t u where t: "computeWpTree sample_forest sample_config (\<lambda>_ _. True) = Some [t, u]" using sample_tree by (elim exE conjE) (rule that; assumption)
  from clip_exact[OF this] t show ?thesis by blast
qed

text \<open>C38. The clip leaves a forest as it is when all its leaves lie in the workspace and no container in it is
  without leaves, and only then: an empty work package is dropped even when the forest has one workspace,
  where the comment says the output equals the input.\<close>

theorem clip_identity:
  assumes "computeWpTree st config le = Some ts"
  shows "clipWpTreeToWorkspace ts w = ts \<longleftrightarrow>
     (\<forall>t \<in> set ts. (\<forall>l \<in> set (all_leaves t). lf_workspace l = w) \<and> (\<forall>m \<in> set (nodes t). all_leaves m \<noteq> []))"
  unfolding clipWpTreeToWorkspace_def map_filter_fixed
  using clip_fixed tree_counts[OF assms] tree_not_partial[OF assms] by (metis (no_types, lifting))

theorem clip_identity_witness:
  "\<exists>ts. computeWpTree sample_forest sample_config (\<lambda>_ _. True) = Some ts \<and>
     lf_workspace ` set (concat (map all_leaves ts)) = {''w''} \<and> clipWpTreeToWorkspace ts ''w'' \<noteq> ts"
proof -
  obtain t u where t: "computeWpTree sample_forest sample_config (\<lambda>_ _. True) = Some [t, u]" "all_leaves u = []"
      "lf_workspace ` set (all_leaves t) = {''w''}"
    using sample_tree by (elim exE conjE) (rule that; assumption)
  have "clipWpTreeToWorkspace [t, u] ''w'' \<noteq> [t, u]"
    unfolding clip_identity[OF t(1)] using t(2) node_self[of u] by fastforce
  moreover have "lf_workspace ` set (concat (map all_leaves [t, u])) = {''w''}" using t(2,3) by simp
  ultimately show ?thesis using t(1) by (intro exI[of _ "[t, u]"] conjI)
qed

end
