(* ===== verification/Branch_Import.thy ===== *)
theory Branch_Import
  imports Facade
begin

text \<open>
  The import of a \<open>BRANCH.md\<close> file: \<open>slugify\<close> and the parsed document of
  \<open>packages/track/src/branch/parse.ts\<close>, \<open>branchSignature\<close> of \<open>signature.ts\<close>, and
  \<open>Track.importBranch\<close> (\<open>packages/track/src/track.ts\<close>), the one method of the facade that appends many
  times. The line grammar of \<open>parseBranch\<close> is not modelled: the parsed document is an argument. The signature
  is taken of that document; the source parses the content again with the resolved slug, and the slug does not
  bear on the lots.
\<close>

section \<open>The parsed document\<close>

record parsed_uat =
  pu_slug :: string
  pu_statement :: string
  pu_passed :: bool

record parsed_lot =
  pl_slug :: string
  pl_title :: string
  pl_done :: bool
  pl_uat :: "parsed_uat list"

record parsed_branch =
  pb_slug :: string
  pb_title :: string
  pb_body :: string
  pb_lots :: "parsed_lot list"

text \<open>\<open>s.normalize('NFKD').toLowerCase()\<close>, a character at a time and as far as the slug sees it: an accented
  letter of Latin-1 is its letter and a mark, a fraction its digits around a slash; a mark, and what
  is neither a letter nor a digit of ASCII, is written \<open>CHR ''-''\<close>.\<close>

definition letter_marks :: "(string \<times> nat list) list" where
  "letter_marks =
     [(''a-'', [192, 193, 194, 195, 196, 197, 224, 225, 226, 227, 228, 229]),
      (''c-'', [199, 231]),
      (''e-'', [200, 201, 202, 203, 232, 233, 234, 235]),
      (''i-'', [204, 205, 206, 207, 236, 237, 238, 239]),
      (''n-'', [209, 241]),
      (''o-'', [210, 211, 212, 213, 214, 242, 243, 244, 245, 246]),
      (''u-'', [217, 218, 219, 220, 249, 250, 251, 252]),
      (''y-'', [221, 253, 255]),
      (''a'', [170]), (''o'', [186]), (''2'', [178]), (''3'', [179]), (''1'', [185]),
      (''1-4'', [188]), (''1-2'', [189]), (''3-4'', [190])]"

definition slug_chars :: "char \<Rightarrow> string" where
  "slug_chars c =
     (let n = of_char c :: nat in
      if 97 \<le> n \<and> n \<le> 122 \<or> 48 \<le> n \<and> n \<le> 57 then [c]
      else if 65 \<le> n \<and> n \<le> 90 then [char_of (n + 32)]
      else case find (\<lambda>(s, ns). n \<in> set ns) letter_marks of Some (s, _) \<Rightarrow> s | None \<Rightarrow> ''-'')"

text \<open>\<open>.replace(/[^a-z0-9]+/g, '-')\<close> and \<open>.replace(/^-+|-+$/g, '')\<close>.\<close>

fun one_dash :: "string \<Rightarrow> string" where
  "one_dash (x # y # s) = (if x = CHR ''-'' \<and> y = CHR ''-'' then one_dash (y # s) else x # one_dash (y # s))"
| "one_dash s = s"

definition trim_dashes :: "string \<Rightarrow> string" where
  "trim_dashes s = rev (dropWhile (\<lambda>c. c = CHR ''-'') (rev (dropWhile (\<lambda>c. c = CHR ''-'') s)))"

definition slugify :: "string \<Rightarrow> string" where
  "slugify s = trim_dashes (one_dash (concat (map slug_chars s)))"

section \<open>The signature\<close>

definition uat_signature :: "parsed_uat \<Rightarrow> js" where
  "uat_signature u = obj [(''uatSlug'', Some (Str (pu_slug u))), (''passed'', Some (Bool (pu_passed u)))]"

definition lot_signature :: "parsed_lot \<Rightarrow> js" where
  "lot_signature l = obj [(''lotSlug'', Some (Str (pl_slug l))), (''done'', Some (Bool (pl_done l))),
     (''uat'', Some (Arr (map uat_signature (sort_key pu_slug (pl_uat l)))))]"

definition branchSignature :: "host \<Rightarrow> parsed_branch \<Rightarrow> error + string" where
  "branchSignature h b = computeHash h (obj [(''branchSlug'', Some (Str (pb_slug b))),
     (''lots'', Some (Arr (map lot_signature (sort_key pl_slug (pb_lots b)))))])"

section \<open>The import\<close>

record import_opts =
  io_locator :: string
  io_commit :: "string option"

text \<open>The counters \<open>created\<close> and \<open>updated\<close> are threaded through the steps.\<close>

type_synonym import_counts = "nat \<times> nat"

definition findBySourceKey :: "string \<Rightarrow> item_state option cmd" where
  "findBySourceKey key = bindC stateC (\<lambda>st. returnC (find (\<lambda>i. item_sourceKey i = Some key) (jvals (st_items st))))"

definition branch_item :: "item_kind \<Rightarrow> string \<Rightarrow> string \<Rightarrow> ulid option \<Rightarrow> string \<Rightarrow> string option \<Rightarrow> string \<Rightarrow> item_created_payload" where
  "branch_item kind title workspace parent key body locator = \<lparr>icp_kind = kind, icp_title = title,
     icp_workspace = workspace, icp_parentId = parent, icp_role = None, icp_scope = None, icp_sourceKey = Some key,
     icp_body = body, icp_links = Some [\<lparr>link_kind = ''branch.md'', link_locator = locator, link_reason = None\<rparr>],
     icp_accountable = None, icp_responsible = None, icp_engagementRef = None, icp_demandId = None\<rparr>"

definition manual_pass :: "import_opts \<Rightarrow> string \<Rightarrow> run_payload" where
  "manual_pass opts v = \<lparr>rnp_evidenceId = v,
     rnp_commit = (case io_commit opts of Some c \<Rightarrow> c | None \<Rightarrow> ''HEAD''),
     rnp_env = ''uat'', rnp_runner = ''manual'', rnp_result = Pass\<rparr>"

definition uat_locator :: "import_opts \<Rightarrow> parsed_uat \<Rightarrow> string" where
  "uat_locator opts u = io_locator opts @ ''#'' @ pu_slug u"

text \<open>A checkbox of a lot whose criterion is there: only a pass that is not yet recorded is news.\<close>

definition importKnownUat :: "env \<Rightarrow> import_opts \<Rightarrow> criterion_state \<Rightarrow> parsed_uat \<Rightarrow> import_counts \<Rightarrow> import_counts cmd" where
  "importKnownUat env opts existing uat n =
     (if \<not> pu_passed uat then returnC n
      else bindC stateC (\<lambda>st.
        let evidence = find (\<lambda>e. ev_criterionId e = cr_id existing) (jvals (st_evidence st)) in
        if map_option run_result (Option.bind evidence ev_latestRun) = Some Pass then returnC n
        else bindC (case evidence of
                Some e \<Rightarrow> returnC (ev_id e)
              | None \<Rightarrow> linkEvidence env (cr_id existing) Manual (uat_locator opts uat) None) (\<lambda>evidenceId.
             thenC (recordRun env (manual_pass opts evidenceId)) (returnC (fst n, Suc (snd n))))))"

definition importUat :: "env \<Rightarrow> import_opts \<Rightarrow> ulid \<Rightarrow> parsed_uat \<Rightarrow> import_counts \<Rightarrow> import_counts cmd" where
  "importUat env opts lotId uat n =
     bindC stateC (\<lambda>st.
     case find (\<lambda>c. cr_itemId c = lotId \<and> slugify (cr_statement c) = pu_slug uat) (jvals (st_criteria st)) of
       Some existing \<Rightarrow> importKnownUat env opts existing uat n
     | None \<Rightarrow>
         bindC (addCriterion env lotId (pu_statement uat)) (\<lambda>criterionId.
         bindC (linkEvidence env criterionId Manual (uat_locator opts uat) None) (\<lambda>evidenceId.
         thenC (if pu_passed uat then recordRun env (manual_pass opts evidenceId) else returnC ())
         (returnC (Suc (fst n), snd n)))))"

text \<open>The checkbox of a lot only moves its item forward. The lookup of the item asserts that it is there.\<close>

definition importLotDone :: "env \<Rightarrow> ulid \<Rightarrow> import_counts \<Rightarrow> import_counts cmd" where
  "importLotDone env lotId n =
     bindC stateC (\<lambda>st.
     bindC (liftC (case jget (st_items st) lotId of None \<Rightarrow> Inl (Error ''TypeError'') | Some item \<Rightarrow> Inr item)) (\<lambda>item.
     case item_realization item of
       ToDo \<Rightarrow> thenC (setRealization env lotId InProgress) (thenC (setRealization env lotId Done) (returnC (fst n, Suc (snd n))))
     | InProgress \<Rightarrow> thenC (setRealization env lotId Done) (returnC (fst n, Suc (snd n)))
     | _ \<Rightarrow> returnC n))"

fun each :: "('a \<Rightarrow> import_counts \<Rightarrow> import_counts cmd) \<Rightarrow> 'a list \<Rightarrow> import_counts \<Rightarrow> import_counts cmd" where
  "each f [] n = returnC n"
| "each f (x # xs) n = bindC (f x n) (each f xs)"

text \<open>The item of a source key, created when it is not there.\<close>

definition resolveItem :: "env \<Rightarrow> string \<Rightarrow> item_created_payload \<Rightarrow> import_counts \<Rightarrow> (ulid \<times> import_counts) cmd" where
  "resolveItem env key payload n =
     bindC (findBySourceKey key) (\<lambda>found.
     case found of
       Some item \<Rightarrow> returnC (item_id item, n)
     | None \<Rightarrow> bindC (createItem env payload) (\<lambda>i. returnC (i, (Suc (fst n), snd n))))"

definition importLot ::
  "env \<Rightarrow> import_opts \<Rightarrow> string \<Rightarrow> ulid \<Rightarrow> parsed_lot \<Rightarrow> import_counts \<Rightarrow> import_counts cmd" where
  "importLot env opts branchSlug featureId lot n =
     (let lotKey = branchSlug @ ''/'' @ pl_slug lot in
      bindC (resolveItem env lotKey
        (branch_item KChore (pl_title lot) branchSlug (Some featureId) lotKey None (io_locator opts)) n) (\<lambda>(lotId, n1).
      bindC (if pl_done lot then importLotDone env lotId n1 else returnC n1) (\<lambda>n2.
      each (importUat env opts lotId) (pl_uat lot) n2)))"

record import_result =
  im_branchSlug :: string
  im_featureId :: ulid
  im_created :: nat
  im_updated :: nat

definition importBranch :: "env \<Rightarrow> string \<Rightarrow> parsed_branch \<Rightarrow> import_opts \<Rightarrow> import_result cmd" where
  "importBranch env content parsed opts =
     bindC (liftC (computeHash (en_host env) (Str content))) (\<lambda>sourceHash.
     bindC (resolveItem env (pb_slug parsed)
       (branch_item KFeature (if pb_title parsed = [] then pb_slug parsed else pb_title parsed) (pb_slug parsed) None
         (pb_slug parsed) (if pb_body parsed = [] then None else Some (pb_body parsed)) (io_locator opts)) (0, 0))
       (\<lambda>(featureId, n1).
     bindC (each (importLot env opts (pb_slug parsed) featureId) (pb_lots parsed) n1) (\<lambda>(created, updated).
     thenC (if created + updated > 0
       then bindC (liftC (branchSignature (en_host env) parsed)) (\<lambda>structureHash.
         doneC (emit env AItem featureId BranchImported (obj [(''locator'', Some (Str (io_locator opts))),
           (''branchSlug'', Some (Str (pb_slug parsed))), (''sourceHash'', Some (Str sourceHash)),
           (''structureHash'', Some (Str structureHash))])))
       else returnC ())
     (returnC \<lparr>im_branchSlug = pb_slug parsed, im_featureId = featureId, im_created = created, im_updated = updated\<rparr>))))"

section \<open>A sequence of commands is a history\<close>

definition progresses :: "env \<Rightarrow> event_type set \<Rightarrow> 'a cmd \<Rightarrow> bool" where
  "progresses env T m \<longleftrightarrow> (\<forall>s r s'. sound (en_host env) (se_store s) \<longrightarrow> m s = (r, s') \<longrightarrow> extends env T s s')"

named_theorems progress_rules \<open>sequences of commands\<close>

lemma progressesD: "progresses env T m \<Longrightarrow> sound (en_host env) (se_store s) \<Longrightarrow> m s = (r, s') \<Longrightarrow> extends env T s s'"
  by (simp add: progresses_def)

lemma progress_atomic: "atomic env T m \<Longrightarrow> T \<subseteq> U \<Longrightarrow> progresses env U m"
  unfolding progresses_def
proof (intro allI impI)
  fix s r s'
  assume m: "atomic env T m" and T: "T \<subseteq> U" and snd: "sound (en_host env) (se_store s)" and run: "m s = (r, s')"
  from atomicD[OF m snd run] snd show "extends env U s s'"
    using T by (auto simp: outcome_ok_def untouched_def extends_def split: sum.splits)
qed

lemma progress_reads [progress_rules]: "reads m \<Longrightarrow> progresses env T m"
proof -
  assume "reads m"
  then have "atomic env T m" by (rule atomic_reads)
  then show ?thesis by (rule progress_atomic) simp
qed

lemma progress_bind [progress_rules]:
  assumes m: "progresses env T m" and f: "\<And>x. progresses env T (f x)"
  shows "progresses env T (bindC m f)"
  unfolding progresses_def
proof (intro allI impI)
  fix s r s'
  assume snd: "sound (en_host env) (se_store s)" and run: "bindC m f s = (r, s')"
  from run show "extends env T s s'"
  proof (cases rule: bindC_cases)
    case (error e)
    from progressesD[OF m snd error(1)] show ?thesis .
  next
    case (ok x s1)
    from progressesD[OF m snd ok(1)] have first: "extends env T s s1" .
    then have "sound (en_host env) (se_store s1)" by (simp add: extends_def)
    from extends_trans[OF first progressesD[OF f this ok(2)]] show ?thesis by blast
  qed
qed

lemma progress_then [progress_rules]: "progresses env T m \<Longrightarrow> progresses env T k \<Longrightarrow> progresses env T (thenC m k)"
  by (simp add: thenC_def progress_bind)

lemma progress_cases [progress_rules]:
  "(\<And>y. x = Some y \<Longrightarrow> progresses env T (g y)) \<Longrightarrow> (x = None \<Longrightarrow> progresses env T n) \<Longrightarrow>
     progresses env T (case x of None \<Rightarrow> n | Some y \<Rightarrow> g y)"
  "(c \<Longrightarrow> progresses env T a) \<Longrightarrow> (\<not> c \<Longrightarrow> progresses env T b) \<Longrightarrow> progresses env T (if c then a else b)"
  by (cases x) simp_all

lemma progress_each [progress_rules]: "(\<And>x n. progresses env T (f x n)) \<Longrightarrow> progresses env T (each f xs n)"
  by (induction xs arbitrary: n) (auto intro: progress_rules read_rules)

definition import_types :: "event_type set" where
  "import_types = {ItemCreated, RealizationTransition, AcceptanceCriterionAdded, AcceptanceEvidenceLinked, AcceptanceRun,
     BranchImported}"

lemma import_progress:
  assumes disk: "en_disk env = honest"
  shows "progresses env import_types (resolveItem env key p n)"
    and "progresses env import_types (importUat env opts i u n)"
    and "progresses env import_types (importLotDone env i n)"
    and "progresses env import_types (emit env AItem i BranchImported (obj [(''locator'', Some (Str a)),
           (''branchSlug'', Some (Str b)), (''sourceHash'', Some (Str c)), (''structureHash'', Some (Str d))]))"
proof -
  note step = progress_atomic[where U = import_types]
  have create: "progresses env import_types (createItem env p)" for p
    by (rule step[OF atomic_items(1)[OF disk]]) (simp add: import_types_def)
  have move: "progresses env import_types (setRealization env i z)" for i z
    by (rule step[OF atomic_items(10)[OF disk]]) (simp add: import_types_def)
  have criterion: "progresses env import_types (addCriterion env i x)" for i x
    by (rule step[OF atomic_evidence_work(7)[OF disk]]) (simp add: import_types_def)
  have link: "progresses env import_types (linkEvidence env c k l v)" for c k l v
    by (rule step[OF atomic_evidence_work(8)[OF disk]]) (simp add: import_types_def)
  have run: "progresses env import_types (recordRun env rn)" for rn
    by (rule step[OF atomic_evidence_work(9)[OF disk]]) (simp add: import_types_def)
  note steps = create move criterion link run progress_rules read_rules
  show "progresses env import_types (resolveItem env key p n)"
    unfolding resolveItem_def findBySourceKey_def by (intro steps)
  have known: "progresses env import_types (importKnownUat env opts e u n)" for e
    unfolding importKnownUat_def Let_def by (intro steps)
  show "progresses env import_types (importUat env opts i u n)"
    unfolding importUat_def by (intro known steps)
  have moved: "progresses env import_types (case item_realization item of
       ToDo \<Rightarrow> thenC (setRealization env i InProgress) (thenC (setRealization env i Done) (returnC (fst n, Suc (snd n))))
     | InProgress \<Rightarrow> thenC (setRealization env i Done) (returnC (fst n, Suc (snd n)))
     | _ \<Rightarrow> returnC n)" for item
    by (cases "item_realization item") (simp_all, (intro steps)+)
  show "progresses env import_types (importLotDone env i n)"
    unfolding importLotDone_def
    by (rule progress_bind[OF progress_reads[OF reads_state]], rule progress_bind[OF progress_reads[OF reads_basic(2)]],
        rule moved)
  show "progresses env import_types (emit env AItem i BranchImported (obj [(''locator'', Some (Str a)),
           (''branchSlug'', Some (Str b)), (''sourceHash'', Some (Str c)), (''structureHash'', Some (Str d))]))"
    unfolding emit_def
    by (rule step[OF atomic_emitBatch[OF disk, of "{BranchImported}"]]) (simp_all add: import_types_def wf_js_obj)
qed

lemma importBranch_progress:
  assumes disk: "en_disk env = honest"
  shows "progresses env import_types (importBranch env content parsed opts)"
proof -
  have lot: "progresses env import_types (importLot env opts b f l n)" for b f l n
    unfolding importLot_def Let_def case_prod_unfold
    by (intro progress_rules import_progress[OF disk] read_rules)
  show ?thesis
    unfolding importBranch_def case_prod_unfold doneC_def
    by (intro lot progress_rules import_progress[OF disk] read_rules)
qed

section \<open>Nothing counted, nothing done\<close>

definition changes :: "import_counts \<Rightarrow> nat" where
  "changes n = fst n + snd n"

definition counts_from :: "import_counts \<Rightarrow> ('a \<Rightarrow> import_counts) \<Rightarrow> 'a cmd \<Rightarrow> bool" where
  "counts_from n g m \<longleftrightarrow> (\<forall>s y s'. m s = (Inr y, s') \<longrightarrow>
     changes n \<le> changes (g y) \<and> (changes (g y) = changes n \<longrightarrow> se_store s' = se_store s))"

lemma counts_return [simp]: "counts_from n g (returnC y) \<longleftrightarrow> changes n \<le> changes (g y)"
  by (auto simp: counts_from_def returnC_def)

lemma counts_if: "counts_from n g a \<Longrightarrow> counts_from n g b \<Longrightarrow> counts_from n g (if c then a else b)"
  by simp

lemma counts_reads: "reads m \<Longrightarrow> (\<And>y. counts_from n g (f y)) \<Longrightarrow> counts_from n g (bindC m f)"
  unfolding counts_from_def by (metis (no_types, lifting) Inr_not_Inl bindC_cases reads_run)

lemma counts_bind: "counts_from n g m \<Longrightarrow> (\<And>y. counts_from (g y) g' (f y)) \<Longrightarrow> counts_from n g' (bindC m f)"
  unfolding counts_from_def
proof (intro allI impI)
  fix s y s'
  assume m: "\<forall>s y s'. m s = (Inr y, s') \<longrightarrow> changes n \<le> changes (g y) \<and> (changes (g y) = changes n \<longrightarrow> se_store s' = se_store s)"
    and f: "\<And>x. \<forall>s y s'. f x s = (Inr y, s') \<longrightarrow>
      changes (g x) \<le> changes (g' y) \<and> (changes (g' y) = changes (g x) \<longrightarrow> se_store s' = se_store s)"
    and run: "bindC m f s = (Inr y, s')"
  from run show "changes n \<le> changes (g' y) \<and> (changes (g' y) = changes n \<longrightarrow> se_store s' = se_store s)"
  proof (cases rule: bindC_cases)
    case (ok x s1)
    with m f[of x] have "changes n \<le> changes (g x)" "changes (g x) = changes n \<longrightarrow> se_store s1 = se_store s"
      "changes (g x) \<le> changes (g' y)" "changes (g' y) = changes (g x) \<longrightarrow> se_store s' = se_store s1"
      using ok by blast+
    then show ?thesis by (cases "changes (g x) = changes n") auto
  qed simp
qed

text \<open>A step after which something has been counted may do anything.\<close>

definition counted :: "import_counts \<Rightarrow> ('a \<Rightarrow> import_counts) \<Rightarrow> 'a cmd \<Rightarrow> bool" where
  "counted n g m \<longleftrightarrow> (\<forall>s y s'. m s = (Inr y, s') \<longrightarrow> changes n < changes (g y))"

lemma counts_counted: "counted n g m \<Longrightarrow> counts_from n g m"
  by (fastforce simp: counts_from_def counted_def)

lemma counted_return [simp]: "counted n g (returnC y) \<longleftrightarrow> changes n < changes (g y)"
  by (auto simp: counted_def returnC_def)

lemma counted_bind: "(\<And>y. counted n g (f y)) \<Longrightarrow> counted n g (bindC m f)"
  unfolding counted_def by (metis bindC_cases Inl_Inr_False)

lemma counted_then: "counted n g k \<Longrightarrow> counted n g (thenC m k)"
  by (simp add: thenC_def counted_bind)

lemma changes_Suc [simp]: "changes (Suc a, b) = Suc (changes (a, b))" "changes (a, Suc b) = Suc (changes (a, b))"
  "changes (fst n, snd n) = changes n"
  by (simp_all add: changes_def)

lemma counts_resolve: "counts_from n snd (resolveItem env key p n)"
  unfolding resolveItem_def findBySourceKey_def
  by (intro counts_reads read_rules) (auto intro!: counts_counted counted_bind split: option.split)

lemma counts_uat: "counts_from n (\<lambda>y. y) (importUat env opts i u n)"
proof -
  have known: "counts_from n (\<lambda>y. y) (importKnownUat env opts e u n)" for e
    unfolding importKnownUat_def Let_def
    by (rule counts_if, simp, rule counts_reads[OF reads_state], rule counts_if, simp, rule counts_counted)
      (intro counted_bind counted_then, simp)
  show ?thesis
    unfolding importUat_def
    by (intro counts_reads reads_state) (auto intro!: known counts_counted counted_bind counted_then split: option.split)
qed

lemma counts_done: "counts_from n (\<lambda>y. y) (importLotDone env i n)"
proof -
  have "counts_from n (\<lambda>y. y) (case item_realization item of
       ToDo \<Rightarrow> thenC (setRealization env i InProgress) (thenC (setRealization env i Done) (returnC (fst n, Suc (snd n))))
     | InProgress \<Rightarrow> thenC (setRealization env i Done) (returnC (fst n, Suc (snd n)))
     | _ \<Rightarrow> returnC n)" for item
    by (cases "item_realization item") (auto intro!: counts_counted counted_then)
  then show ?thesis
    unfolding importLotDone_def by (intro counts_reads reads_state reads_basic(2))
qed

lemma counts_each: "(\<And>x n. counts_from n (\<lambda>y. y) (f x n)) \<Longrightarrow> counts_from n (\<lambda>y. y) (each f xs n)"
proof (induction xs arbitrary: n)
  case (Cons x xs)
  from counts_bind[OF Cons.prems Cons.IH[OF Cons.prems]] show ?case by simp
qed simp

lemma counts_lot: "counts_from n (\<lambda>y. y) (importLot env opts b f l n)"
proof -
  have "counts_from (snd m) (\<lambda>y. y) (bindC (if pl_done l then importLotDone env (fst m) (snd m) else returnC (snd m))
      (each (importUat env opts (fst m)) (pl_uat l)))" for m
    by (rule counts_bind[where g = "\<lambda>y. y"]) (auto intro: counts_done counts_each counts_uat)
  then show ?thesis
    unfolding importLot_def Let_def case_prod_unfold by (intro counts_bind[OF counts_resolve])
qed

lemma silent_import:
  assumes run: "importBranch env content parsed opts s = (Inr res, s')" and none: "im_created res + im_updated res = 0"
  shows "se_store s' = se_store s"
proof -
  let ?lots = "\<lambda>f. each (importLot env opts (pb_slug parsed) f) (pb_lots parsed)"
  from run obtain f n1 c u s1 s2
    where res: "\<exists>p. resolveItem env (pb_slug parsed) p (0, 0) s = (Inr (f, n1), s1)"
    and lots: "?lots f n1 s1 = (Inr (c, u), s2)"
    and last: "\<exists>m. thenC (if 0 < c \<or> 0 < u then m else returnC ())
      (returnC \<lparr>im_branchSlug = pb_slug parsed, im_featureId = f, im_created = c, im_updated = u\<rparr>) s2 = (Inr res, s')"
    by (auto simp: importBranch_def liftC_def elim!: bindC_cases) blast
  then obtain m where last: "thenC (if 0 < c \<or> 0 < u then m else returnC ())
      (returnC \<lparr>im_branchSlug = pb_slug parsed, im_featureId = f, im_created = c, im_updated = u\<rparr>) s2 = (Inr res, s')" by blast
  then have "res = \<lparr>im_branchSlug = pb_slug parsed, im_featureId = f, im_created = c, im_updated = u\<rparr>"
    by (auto simp: thenC_def returnC_def elim!: bindC_cases)
  with none have cu: "c = 0" "u = 0" by simp_all
  with last have s': "s' = s2" by (simp add: thenC_def bindC_def returnC_def)
  have "counts_from n1 (\<lambda>y. y) (?lots f n1)" by (rule counts_each, rule counts_lot)
  then have "changes n1 \<le> changes (c, u)" "changes (c, u) = changes n1 \<longrightarrow> se_store s2 = se_store s1"
    using lots by (auto simp: counts_from_def)
  moreover have "changes n1 = changes (0, 0) \<longrightarrow> se_store s1 = se_store s"
    using res counts_resolve[of "(0, 0)" env "pb_slug parsed"] unfolding counts_from_def by (metis snd_conv)
  ultimately show ?thesis by (simp add: cu s' changes_def)
qed

section \<open>Property\<close>

text \<open>C27. The import of a branch file is a sequence of commands: on a sound store and an honest disk, with no other
  writer in between, whether it
  returns or raises in between, the store stays sound, its log is the one it found followed by
  creations, realization transitions, criteria, evidence, runs and the import event, and the settings of the
  session are as they were; and an import that reports nothing created and nothing updated has written
  nothing. It is not all or nothing: the commands before one that raises stay.\<close>

theorem import_is_history:
  assumes "en_disk env = honest" and "sound (en_host env) (se_store s)"
    and "importBranch env content parsed opts s = (r, s')"
  shows "sound (en_host env) (se_store s') \<and> settings s' = settings s \<and>
     (\<exists>new. events_of (se_store s') = events_of (se_store s) @ new \<and> list_all (\<lambda>e. e_type e \<in> import_types) new) \<and>
     (case r of Inl e \<Rightarrow> True
      | Inr res \<Rightarrow> im_created res + im_updated res = 0 \<longrightarrow> se_store s' = se_store s)"
proof -
  from progressesD[OF importBranch_progress[OF assms(1)] assms(2,3)] have "extends env import_types s s'" .
  then show ?thesis
    using silent_import[of env content parsed opts s _ s'] assms(3)
    by (auto simp: extends_def list_all_iff split: sum.split)
qed

theorem import_is_history_witness:
  "\<exists>r s'. importBranch sample_env ''# Feature: f'' \<lparr>pb_slug = ''f'', pb_title = ''f'', pb_body = [], pb_lots = []\<rparr>
       \<lparr>io_locator = ''BRANCH.md'', io_commit = None\<rparr> sample_session = (r, s') \<and>
     sound unary_host (se_store s') \<and> settings s' = settings sample_session \<and>
     (\<exists>new. events_of (se_store s') = new \<and> list_all (\<lambda>e. e_type e \<in> import_types) new)"
proof -
  let ?b = "\<lparr>pb_slug = ''f'', pb_title = ''f'', pb_body = [], pb_lots = []\<rparr>"
  let ?o = "\<lparr>io_locator = ''BRANCH.md'', io_commit = None\<rparr>"
  obtain r s' where run: "importBranch sample_env ''# Feature: f'' ?b ?o sample_session = (r, s')" by fastforce
  have "sound (en_host sample_env) (se_store sample_session)" by simp
  from import_is_history[OF sample_facade(1) this run] run show ?thesis
    by (auto simp: sample_session_def empty_events)
qed

end
