(* ===== verification/Spec2Isabelle.thy ===== *)
theory Spec2Isabelle
  imports Lock Snapshot_Laws Rollup_Clip Branch_Import
begin

text \<open>
  Verification library for \<open>@sentropic/track\<close> (\<open>packages/track/src\<close>), the event-sourced system of
  record of the repository.

  \<^bold>\<open>The program.\<close> The backlog of a repository is a log of events, one JSON line each, in
  \<open>.track/events.jsonl\<close>, anchored by \<open>head.json\<close>. A command of class \<open>Track\<close> (\<open>track.ts\<close>) folds
  the log into a state (\<open>state/fold.ts\<close>), checks its guards on it and emits events; the store
  (\<open>events/store.ts\<close>) frames them with sequence numbers and hashes and appends them under a file lock
  (\<open>events/lock.ts\<close>) after the integrity check (\<open>events/validate.ts\<close>) of the log as it is then; it reads
  the log back before it reports success. Logs of two branches are merged line by line by git and repaired by
  \<open>events/reseal.ts\<close>. Beside the log there are advisory leases (\<open>lease/store.ts\<close>) and snapshots of
  the state (\<open>state/snapshot.ts\<close>); the reports read the state only (\<open>accept/status.ts\<close>,
  \<open>report/buckets.ts\<close>, \<open>report/rollup.ts\<close>).

  \<^bold>\<open>Theories and sources.\<close>

  \<^item> \<open>Prelude\<close>, \<open>Codec\<close>: results of fallible code, the insertion-ordered \<open>Map\<close>, string operations, object
    literals and the casts of untyped payloads with their round trips.
  \<^item> \<open>Canonical\<close> (\<open>events/canonical.ts\<close>), \<open>Events\<close> (\<open>events/types.ts\<close>, \<open>events/frame.ts\<close>), \<open>Validate\<close>
    (\<open>events/validate.ts\<close>, the reading half of \<open>events/head.ts\<close>), \<open>Integrity\<close>: values and their canonical
    text, the content hash, the events, the verdict on a log and what it means.
  \<^item> \<open>Store\<close>, \<open>Store_Laws\<close>, \<open>Crash\<close> (\<open>events/store.ts\<close>), \<open>Lock\<close> (\<open>events/lock.ts\<close>), \<open>Reseal\<close>
    (\<open>events/reseal.ts\<close>), \<open>Lease\<close> (\<open>lease/store.ts\<close>), \<open>Snapshot\<close>, \<open>Snapshot_Laws\<close>
    (\<open>state/snapshot.ts\<close>): the files. Their contents are the state; an operation returns its result and
    the next state. The log file is the sequence of pieces between its newlines, as \<open>split\<close> yields them,
    so an unended last line is a state of the file and appended bytes continue it.
  \<^item> \<open>Lifecycle\<close>, \<open>Item\<close>, \<open>Decision\<close>, \<open>Demand\<close>, \<open>Evidence\<close>, \<open>Report_Status\<close>, \<open>Priority\<close>
    (\<open>model/*.ts\<close>): the records, the tables of the status machines and the fail-closed validators. The
    interface of a status machine is a locale of \<open>Lifecycle\<close>, interpreted on each table.
  \<^item> \<open>Fold\<close>, \<open>Fold_Laws\<close> (\<open>state/fold.ts\<close>), \<open>Acceptance\<close> (\<open>accept/status.ts\<close>,
    \<open>report/blocker-status.ts\<close>, \<open>report/buckets.ts\<close>): the state, one definition per event type, and what is
    derived from it.
  \<^item> \<open>Session\<close>, \<open>Item_Commands\<close>, \<open>Work_Commands\<close>, \<open>Priority\<close>, \<open>Command_Laws\<close>, \<open>Facade\<close> (\<open>track.ts\<close>): a command
    is a function of the session, which holds the store, the scoped settings and the numbers of draws from the
    clock and the identifier source; \<open>perform\<close> is any call of the facade but \<open>importBranch\<close>.
  \<^item> \<open>Branch_Import\<close> (\<open>importBranch\<close> in \<open>track.ts\<close>, \<open>branch/signature.ts\<close>, \<open>slugify\<close> and the parsed document
    of \<open>branch/parse.ts\<close>): the one public method that makes many appends, as a sequence of facade commands.
  \<^item> \<open>Critical\<close>, \<open>Forest\<close>, \<open>Uniqueness\<close>: what holds under the lock when an event is appended, and the
    invariants of the state over all calls that rest on it.
  \<^item> \<open>Double\<close>, \<open>Rollup\<close>, \<open>Rollup_Laws\<close>, \<open>Rollup_Exact\<close>, \<open>Rollup_Clip\<close> (\<open>report/rollup.ts\<close>): binary64
    arithmetic as rounded rational arithmetic, and the forest of work packages.

  \<^bold>\<open>What the lemmas show.\<close> Integrity: the verdict is exactly a condition on each event relative to its
  prefix, and tampering with or rearranging a log is found. Store: a success is a receipt on any disk, all or
  nothing on an honest one, idempotent for a delivery token, and it makes progress. A process that dies
  in an append leaves nothing, the whole batch, or a store that every later append refuses; a log whose
  last newline is missing is ruined by the next append. Lock: mutual exclusion and serialisation over all
  interleavings of processes that may die between any two of their writes, and the concurrent composition of lock and
  store, where a death may also cut a write at any character. Reseal: a union merge of valid branches whose
  event ids are distinct is repaired with every event kept. Fold: the validator and the fold agree, the state is keyed, events touch only their part
  of it, acceptance, gates and buckets are characterised. Facade: every call but the import is atomic and
  emits only its own types, and an import, completed or not, is a history of such calls; parents stay acyclic, so the unbounded ancestor walks return, codes stay unique and duplicate
  demands keep a survivor; two racing moves are shown to break the first of these. Leases refine a guarded map.
  Snapshots, written through the structured clone and the JSON text, load what was folded from the longest log saved. Roll-up: it returns, its counts are the numbers of leaf items in the state,
  its percentages are bounded and its root labels distinct, and the clip keeps exactly one workspace.

  \<^bold>\<open>Parameters.\<close> SHA-256 and the decimal text of a number (\<open>host\<close>; results about detection are up to
  collisions), what a disk does with a write (\<open>disk\<close>), the clock and the identifier source (\<open>env\<close>), and the
  comparison of identifiers of the roll-up.

  \<^bold>\<open>Bounds and fuel.\<close> The ancestor walk of the cycle guard may not return, so it is a partial function and
  \<open>None\<close> is not returning; \<open>ancestor_walk_exactly\<close> says when. The walks of the roll-up take fuel,
  the number of items and two; \<open>rollup_returns\<close> shows that it is enough for acyclic parents. Decimal
  texts of naturals are exact below $10^{21}$, where the source changes notation, and percentages and scores are
  treated below $2^{53}$.

  \<^bold>\<open>Not modelled.\<close> The line grammar of \<open>parseBranch\<close> in \<open>branch/parse.ts\<close> (a Markdown parser; its result is
  the argument of the import);
  \<open>accept/ingest.ts\<close> (test report formats; recording the parsed runs is modelled); the display builders
  and formatters of \<open>report/\<close> and the excerpt of a body in \<open>rollup.ts\<close>; the query schemas of \<open>read/\<close>; the
  request schemas of \<open>ingest/\<close>; the command line, the MCP server, the registry, the graph export and the vendored
  declarations. The timing of the lock, its diagnosis text and the environment override of its timeout
  are left out: a waiter may time out at any step. The deaths are those of processes, not the loss of power: a
  write that returned stays. The other packages and the applications of the repository
  are separate programs.
\<close>

end
